(* ===== verification/Prelude.thy ===== *)
theory Prelude
  imports Complex_Main "HOL-Library.AList" "HOL-Library.Multiset" "HOL-Library.Sublist"
begin

text \<open>
  Shared vocabulary of the development.  A Go \<^verbatim>\<open>string\<close> or \<^verbatim>\<open>[]byte\<close> is a list of
  bytes, an Isabelle \<open>string\<close>.  A \<^verbatim>\<open>time.Time\<close> is the number of nanoseconds since the Unix
  epoch, a \<^verbatim>\<open>time.Duration\<close> a number of nanoseconds.  A Go map whose contents are counted
  or iterated is an association list; the generic facts about the number of elements held in
  such a map are proved here once.
\<close>

type_synonym gotime = int
type_synonym duration = int

abbreviation (input) second :: duration where "second \<equiv> 1000000000"
abbreviation (input) millisecond :: duration where "millisecond \<equiv> 1000000"
abbreviation (input) minute :: duration where "minute \<equiv> 60 * second"
abbreviation (input) hour :: duration where "hour \<equiv> 60 * minute"

named_theorems hub_simps \<open>unfolding rules for the state of the websocket hubs\<close>
named_theorems frame_simps \<open>fields an operation leaves alone\<close>
named_theorems redis_simps \<open>unfolding rules for the key-value store\<close>

subsection \<open>Errors as values\<close>

text \<open>Sequencing of fallible computations: the early return of Go's \<^verbatim>\<open>if err != nil\<close>.\<close>

fun sum_bind :: "'e + 'a \<Rightarrow> ('a \<Rightarrow> 'e + 'b) \<Rightarrow> 'e + 'b" where
  "sum_bind (Inl e) f = Inl e"
| "sum_bind (Inr a) f = f a"

lemma sum_bind_eq_Inr [simp]: "sum_bind m f = Inr b \<longleftrightarrow> (\<exists>a. m = Inr a \<and> f a = Inr b)"
  by (cases m) auto

lemma sum_bind_eq_Inl: "sum_bind m f = Inl e \<longleftrightarrow> m = Inl e \<or> (\<exists>a. m = Inr a \<and> f a = Inl e)"
  by (cases m) auto

subsection \<open>Maps from keys to member lists\<close>

definition members_of :: "('k \<times> 'a list) list \<Rightarrow> 'k \<Rightarrow> 'a list" where
  "members_of al k = (case map_of al k of None \<Rightarrow> [] | Some xs \<Rightarrow> xs)"

definition total_len :: "('k \<times> 'a list) list \<Rightarrow> nat" where
  "total_len al = sum_list (map (\<lambda>p. length (snd p)) al)"

lemma total_len_Nil [simp]: "total_len [] = 0"
  by (simp add: total_len_def)

lemma total_len_Cons [simp]: "total_len (p # al) = length (snd p) + total_len al"
  by (simp add: total_len_def)

lemma members_of_Some [simp]: "map_of al k = Some xs \<Longrightarrow> members_of al k = xs"
  by (simp add: members_of_def)

lemma members_of_None [simp]: "map_of al k = None \<Longrightarrow> members_of al k = []"
  by (simp add: members_of_def)

lemma members_of_update [simp]:
  "members_of (AList.update k xs al) k' = (if k' = k then xs else members_of al k')"
  by (simp add: members_of_def update_conv')

lemma members_of_delete [simp]:
  "members_of (AList.delete k al) k' = (if k' = k then [] else members_of al k')"
  by (simp add: members_of_def delete_conv')

lemma total_len_update:
  "total_len (AList.update k xs al) + length (members_of al k) = total_len al + length xs"
  by (induction al) (auto simp: members_of_def split: option.splits)

lemma total_len_delete_le: "total_len (AList.delete k al) \<le> total_len al"
  by (induction al) (auto simp: delete_simps)

lemma total_len_delete_Nil:
  "distinct (map fst al) \<Longrightarrow> members_of al k = [] \<Longrightarrow> total_len (AList.delete k al) = total_len al"
proof (induction al)
  case (Cons p al)
  show ?case
  proof (cases "fst p = k")
    case True
    with Cons.prems have "k \<notin> fst ` set al" and "snd p = []"
      by (cases p; force simp: members_of_def)+
    with True show ?thesis by (simp add: delete_simps delete_id)
  next
    case False
    with Cons show ?thesis by (cases p) (simp add: members_of_def delete_simps)
  qed
qed simp

lemma length_members_of_le: "length (members_of al k) \<le> total_len al"
  by (induction al) (auto simp: members_of_def split: option.splits)

lemma mem_members_of:
  "x \<in> set (members_of al k) \<Longrightarrow> \<exists>xs. map_of al k = Some xs \<and> x \<in> set xs"
  by (cases "map_of al k") auto

text \<open>Member lists whose elements know their key do not overlap.\<close>

lemma distinct_concat_members:
  assumes "distinct (map fst al)" "\<And>k xs. (k, xs) \<in> set al \<Longrightarrow> distinct xs \<and> (\<forall>x\<in>set xs. f x = k)"
  shows "distinct (concat (map snd al))"
  using assms
proof (induction al)
  case (Cons p al)
  obtain k xs where p: "p = (k, xs)" by (cases p)
  have d: "distinct (concat (map snd al))"
    using Cons.prems(1) by (intro Cons.IH Cons.prems(2)) simp_all
  have xs: "distinct xs" "\<forall>x\<in>set xs. f x = k" using Cons.prems(2) [of k xs] p by simp_all
  have "set xs \<inter> set (concat (map snd al)) = {}"
  proof (rule ccontr)
    assume "set xs \<inter> set (concat (map snd al)) \<noteq> {}"
    then obtain x k' ys where x: "x \<in> set xs" "(k', ys) \<in> set al" "x \<in> set ys" by fastforce
    with Cons.prems(2) [of k' ys] xs have "k' = k" by (metis list.set_intros(2))
    with x(2) Cons.prems(1) p show False by force
  qed
  with d xs p show ?case by simp
qed simp

subsection \<open>Lists\<close>

lemma length_filter_removed:
  "distinct xs \<Longrightarrow> distinct gone \<Longrightarrow> set gone \<subseteq> set xs \<Longrightarrow>
   length (filter (\<lambda>x. x \<notin> set gone) xs) + length gone = length xs"
proof -
  assume d: "distinct xs" "distinct gone" "set gone \<subseteq> set xs"
  have "length (filter (\<lambda>x. x \<notin> set gone) xs) = card (set xs - set gone)"
    using d(1) by (simp add: distinct_card [symmetric] set_diff_eq)
  also have "\<dots> = card (set xs) - card (set gone)"
    by (rule card_Diff_subset) (use d in auto)
  finally show ?thesis
    using d card_mono [of "set xs" "set gone"] by (simp add: distinct_card)
qed

lemma removeAll_filter: "removeAll c xs = filter (\<lambda>x. x \<noteq> c) xs"
  by (induction xs) auto

lemma mset_eq_distinct: "mset xs = mset ys \<Longrightarrow> distinct xs \<longleftrightarrow> distinct ys"
  by (metis mset_eq_imp_distinct_iff)

end
