(* ===== verification/Channel.thy ===== *)
theory Channel
  imports Prelude
begin

text \<open>
  Go's buffered channels as the two websocket hubs use them: a non-blocking send
  (\<^verbatim>\<open>select { case c.send <- data: ... default: ... }\<close>), \<^verbatim>\<open>close\<close>, and the receives of
  the one goroutine that drains the channel.  Sending on a closed channel and closing twice
  panic, so both are results of their own.  The values already received are kept in
  \<open>ch_taken\<close>: \<open>history\<close> is everything ever enqueued, in order, whatever the reader has done
  so far.
\<close>

record 'a chan =
  ch_cap :: nat
  ch_buf :: "'a list"
  ch_closed :: bool
  ch_taken :: "'a list"

datatype 'a send_result = Sent "'a chan" | Full | SendOnClosed

definition make_chan :: "nat \<Rightarrow> 'a chan" where
  "make_chan n = \<lparr>ch_cap = n, ch_buf = [], ch_closed = False, ch_taken = []\<rparr>"

definition try_send :: "'a \<Rightarrow> 'a chan \<Rightarrow> 'a send_result" where
  "try_send x ch =
     (if ch_closed ch then SendOnClosed
      else if length (ch_buf ch) < ch_cap ch then Sent (ch\<lparr>ch_buf := ch_buf ch @ [x]\<rparr>)
      else Full)"

definition close_chan :: "'a chan \<Rightarrow> 'a chan option" where
  "close_chan ch = (if ch_closed ch then None else Some (ch\<lparr>ch_closed := True\<rparr>))"

definition drain :: "nat \<Rightarrow> 'a chan \<Rightarrow> 'a chan" where
  "drain n ch = ch\<lparr>ch_buf := drop n (ch_buf ch), ch_taken := ch_taken ch @ take n (ch_buf ch)\<rparr>"

definition history :: "'a chan \<Rightarrow> 'a list" where
  "history ch = ch_taken ch @ ch_buf ch"

definition chan_ok :: "'a chan \<Rightarrow> bool" where
  "chan_ok ch \<longleftrightarrow> length (ch_buf ch) \<le> ch_cap ch"

lemma history_make [simp]: "history (make_chan n) = []"
  by (simp add: history_def make_chan_def)

lemma history_drain [simp]: "history (drain n ch) = history ch"
  by (simp add: history_def drain_def)

lemma closed_drain [simp]: "ch_closed (drain n ch) = ch_closed ch"
  by (simp add: drain_def)

lemma cap_drain [simp]: "ch_cap (drain n ch) = ch_cap ch"
  by (simp add: drain_def)

lemma chan_ok_drain [simp]: "chan_ok ch \<Longrightarrow> chan_ok (drain n ch)"
  by (simp add: chan_ok_def drain_def)

lemma chan_ok_make [simp]: "chan_ok (make_chan n)" "\<not> ch_closed (make_chan n)"
  by (simp_all add: chan_ok_def make_chan_def)

lemma try_send_Sent:
  "try_send x ch = Sent ch' \<Longrightarrow>
   history ch' = history ch @ [x] \<and> \<not> ch_closed ch \<and> \<not> ch_closed ch' \<and> ch_cap ch' = ch_cap ch \<and>
   chan_ok ch'"
  by (auto simp: try_send_def history_def chan_ok_def split: if_splits)

lemma try_send_closed_iff [simp]: "try_send x ch = SendOnClosed \<longleftrightarrow> ch_closed ch"
  by (simp add: try_send_def)

lemma close_chan_Some:
  "close_chan ch = Some ch' \<Longrightarrow>
   ch_closed ch' \<and> \<not> ch_closed ch \<and> history ch' = history ch \<and> ch_cap ch' = ch_cap ch \<and>
   (chan_ok ch \<longrightarrow> chan_ok ch')"
  by (auto simp: close_chan_def history_def chan_ok_def split: if_splits)

lemma close_chan_None_iff [simp]: "close_chan ch = None \<longleftrightarrow> ch_closed ch"
  by (simp add: close_chan_def)

subsection \<open>Fanning a frame out to many receivers\<close>

text \<open>
  Both loops of the signaling hub (\<^verbatim>\<open>deliver\<close> and \<^verbatim>\<open>announce\<close>) have this shape: walk over the
  members, skip some, offer the frame to each of the others without blocking, and collect the ones
  that did not take it.
\<close>

fun fan_out :: "('c \<Rightarrow> 'h \<Rightarrow> 'h \<times> bool) \<Rightarrow> ('c \<Rightarrow> bool) \<Rightarrow> 'c list \<Rightarrow> 'h \<Rightarrow> 'h \<times> 'c list" where
  "fan_out push skip [] h = (h, [])"
| "fan_out push skip (c # cs) h =
     (if skip c then fan_out push skip cs h
      else case push c h of (h', ok) \<Rightarrow>
        (case fan_out push skip cs h' of (h'', stalled) \<Rightarrow>
          (h'', if ok then stalled else c # stalled)))"

lemma fan_out_stalled_length: "length (snd (fan_out push skip cs h)) \<le> length cs"
  by (induction cs arbitrary: h) (auto simp: le_SucI split: prod.splits, (metis le_SucI snd_conv)+)

text \<open>
  The contract of the operation that offers a frame \<open>d\<close> to a receiver: as long as the receiver is
  live, success appends the frame to what the receiver has been sent and changes nothing else,
  refusal changes no history at all, and neither makes a receiver stop being live.
\<close>

locale fanout =
  fixes push :: "'d \<Rightarrow> 'c \<Rightarrow> 'h \<Rightarrow> 'h \<times> bool"
    and log :: "'h \<Rightarrow> 'c \<Rightarrow> 'd list"
    and live :: "'h \<Rightarrow> 'c \<Rightarrow> bool"
  assumes push_log: "live h c \<Longrightarrow> push d c h = (h', ok) \<Longrightarrow>
      log h' = (log h)(c := log h c @ (if ok then [d] else []))"
    and push_live: "live h c \<Longrightarrow> push d c h = (h', ok) \<Longrightarrow> live h' = live h"
begin

lemma fan_out_contract:
  assumes "fan_out (push d) skip cs h = (h', stalled)" "distinct cs" "\<forall>c\<in>set cs. live h c"
  shows "set stalled \<subseteq> {c \<in> set cs. \<not> skip c} \<and> distinct stalled \<and> live h' = live h \<and>
    log h' = (\<lambda>c. log h c @ (if c \<in> set cs \<and> \<not> skip c \<and> c \<notin> set stalled then [d] else []))"
  using assms
proof (induction cs arbitrary: h h' stalled)
  case Nil
  then show ?case by auto
next
  case (Cons c cs)
  show ?case
  proof (cases "skip c")
    case True
    with Cons.prems have "fan_out (push d) skip cs h = (h', stalled)" by simp
    from Cons.IH [OF this] Cons.prems True show ?thesis by (auto simp: fun_eq_iff)
  next
    case False
    obtain h1 ok where p: "push d c h = (h1, ok)" by (cases "push d c h")
    obtain st where r: "fan_out (push d) skip cs h1 = (h', st)"
      and st: "stalled = (if ok then st else c # st)"
      using Cons.prems(1) False p by (auto split: prod.splits)
    have l: "live h c" using Cons.prems by simp
    note p1 = push_log [OF l p] push_live [OF l p]
    from Cons.IH [OF r] Cons.prems p1
    have IH: "set st \<subseteq> {c \<in> set cs. \<not> skip c}" "distinct st" "live h' = live h1"
      "log h' = (\<lambda>c. log h1 c @ (if c \<in> set cs \<and> \<not> skip c \<and> c \<notin> set st then [d] else []))"
      by auto
    have "c \<notin> set cs" using Cons.prems by simp
    then show ?thesis
      using IH p1 st False by (auto simp: fun_eq_iff)
  qed
qed

end

end
