(* ===== verification/GoStrings.thy ===== *)
theory GoStrings
  imports Prelude
begin

text \<open>
  The part of Go's \<^verbatim>\<open>strings\<close> and \<^verbatim>\<open>unicode/utf8\<close> the server uses, on byte lists.  A string is
  cut into UTF-8 segments the way \<^verbatim>\<open>utf8.DecodeRuneInString\<close> does, an invalid byte being a segment
  of its own.  The case table of Unicode for characters beyond ASCII is data of the Unicode
  consortium: it is the argument \<open>ut\<close>, which maps the encoding of a character to the encoding of its
  lower-case form.
\<close>

definition byte :: "char \<Rightarrow> nat" where
  "byte c = of_char c"

definition is_ascii :: "string \<Rightarrow> bool" where
  "is_ascii s \<longleftrightarrow> list_all (\<lambda>c. byte c < 0x80) s"

subsection \<open>UTF-8 segments\<close>

definition cont :: "char \<Rightarrow> bool" where
  "cont c \<longleftrightarrow> 0x80 \<le> byte c \<and> byte c \<le> 0xBF"

text \<open>The range of a second byte depends on the first: \<^verbatim>\<open>acceptRanges\<close> in \<^verbatim>\<open>unicode/utf8\<close>.\<close>

definition second_ok :: "nat \<Rightarrow> char \<Rightarrow> bool" where
  "second_ok b0 c =
     (let b = byte c in
      if b0 = 0xE0 then 0xA0 \<le> b \<and> b \<le> 0xBF
      else if b0 = 0xED then 0x80 \<le> b \<and> b \<le> 0x9F
      else if b0 = 0xF0 then 0x90 \<le> b \<and> b \<le> 0xBF
      else if b0 = 0xF4 then 0x80 \<le> b \<and> b \<le> 0x8F
      else 0x80 \<le> b \<and> b \<le> 0xBF)"

text \<open>The width of the rune a non-empty string starts with; an invalid byte has width 1.\<close>

definition rune_width :: "string \<Rightarrow> nat" where
  "rune_width s = (case s of
     [] \<Rightarrow> 0
   | c0 # r \<Rightarrow>
     (let b0 = byte c0 in
      if b0 < 0xC2 \<or> 0xF4 < b0 then 1
      else case r of
        [] \<Rightarrow> 1
      | c1 # r1 \<Rightarrow>
        if \<not> second_ok b0 c1 then 1
        else if b0 \<le> 0xDF then 2
        else case r1 of
          [] \<Rightarrow> 1
        | c2 # r2 \<Rightarrow>
          if \<not> cont c2 then 1
          else if b0 \<le> 0xEF then 3
          else case r2 of [] \<Rightarrow> 1 | c3 # _ \<Rightarrow> if cont c3 then 4 else 1))"

lemma rune_width_bounds: "s \<noteq> [] \<Longrightarrow> 1 \<le> rune_width s \<and> rune_width s \<le> length s"
  by (auto simp: rune_width_def Let_def split: list.splits)

function segments :: "string \<Rightarrow> string list" where
  "segments s = (if s = [] then [] else take (rune_width s) s # segments (drop (rune_width s) s))"
  by pat_completeness auto
termination
proof (relation "measure length")
  fix s :: string
  assume "s \<noteq> []"
  with rune_width_bounds [of s] show "(drop (rune_width s) s, s) \<in> measure length"
    by auto
qed simp

declare segments.simps [simp del]

definition rune_count :: "string \<Rightarrow> nat" where
  "rune_count s = length (segments s)"

lemma segments_Nil [simp]: "segments [] = []"
  by (simp add: segments.simps)

lemma concat_segments: "concat (segments s) = s"
proof (induction s rule: segments.induct)
  case (1 s)
  then show ?case by (simp add: segments.simps [of s])
qed

lemma rune_count_le_length: "rune_count s \<le> length s"
proof (induction s rule: segments.induct)
  case (1 s)
  show ?case
  proof (cases "s = []")
    case False
    then have "rune_count s = Suc (rune_count (drop (rune_width s) s))"
      by (simp add: rune_count_def segments.simps [of s])
    with 1 [OF False] rune_width_bounds [OF False] show ?thesis
      using length_drop [of "rune_width s" s] by linarith
  qed (simp add: rune_count_def)
qed

lemma length_le_rune_count: "length s \<le> 4 * rune_count s"
proof (induction s rule: segments.induct)
  case (1 s)
  show ?case
  proof (cases "s = []")
    case False
    have "rune_width s \<le> 4" by (auto simp: rune_width_def Let_def split: list.splits)
    moreover have "rune_count s = Suc (rune_count (drop (rune_width s) s))"
      using False by (simp add: rune_count_def segments.simps [of s])
    ultimately show ?thesis using 1 [OF False] by simp
  qed simp
qed

lemma rune_width_ascii: "byte c < 0x80 \<Longrightarrow> rune_width (c # s) = 1"
  by (simp add: rune_width_def)

lemma segments_ascii: "is_ascii s \<Longrightarrow> segments s = map (\<lambda>c. [c]) s"
proof (induction s)
  case (Cons c s)
  then show ?case by (simp add: segments.simps [of "c # s"] rune_width_ascii is_ascii_def)
qed simp

lemma rune_count_ascii: "is_ascii s \<Longrightarrow> rune_count s = length s"
  by (simp add: rune_count_def segments_ascii)

subsection \<open>TrimSpace\<close>

text \<open>
  \<^verbatim>\<open>unicode.IsSpace\<close> holds for 25 code points; these are their encodings.  A string starts (ends)
  with a white-space rune exactly when one of them is a prefix (suffix) of it.
\<close>

definition space_encodings :: "string list" where
  "space_encodings =
     [[CHR 0x09], [CHR 0x0A], [CHR 0x0B], [CHR 0x0C], [CHR 0x0D], [CHR 0x20],
      [CHR 0xC2, CHR 0x85], [CHR 0xC2, CHR 0xA0],
      [CHR 0xE1, CHR 0x9A, CHR 0x80],
      [CHR 0xE2, CHR 0x80, CHR 0x80], [CHR 0xE2, CHR 0x80, CHR 0x81], [CHR 0xE2, CHR 0x80, CHR 0x82],
      [CHR 0xE2, CHR 0x80, CHR 0x83], [CHR 0xE2, CHR 0x80, CHR 0x84], [CHR 0xE2, CHR 0x80, CHR 0x85],
      [CHR 0xE2, CHR 0x80, CHR 0x86], [CHR 0xE2, CHR 0x80, CHR 0x87], [CHR 0xE2, CHR 0x80, CHR 0x88],
      [CHR 0xE2, CHR 0x80, CHR 0x89], [CHR 0xE2, CHR 0x80, CHR 0x8A],
      [CHR 0xE2, CHR 0x80, CHR 0xA8], [CHR 0xE2, CHR 0x80, CHR 0xA9], [CHR 0xE2, CHR 0x80, CHR 0xAF],
      [CHR 0xE2, CHR 0x81, CHR 0x9F], [CHR 0xE3, CHR 0x80, CHR 0x80]]"

fun strip_prefix :: "string list \<Rightarrow> string \<Rightarrow> string option" where
  "strip_prefix [] s = None"
| "strip_prefix (p # ps) s =
     (if take (length p) s = p then Some (drop (length p) s) else strip_prefix ps s)"

lemma strip_prefix_Some:
  "strip_prefix ps s = Some t \<Longrightarrow> \<exists>p\<in>set ps. s = p @ t"
  by (induction ps) (auto split: if_splits, metis append_take_drop_id)

lemma strip_prefix_None_iff: "strip_prefix ps s = None \<longleftrightarrow> (\<forall>p\<in>set ps. \<not> prefix p s)"
  by (induction ps) (auto simp: prefix_def, (metis append_take_drop_id)+)

lemma space_encodings_nonempty: "p \<in> set space_encodings \<Longrightarrow> p \<noteq> []"
  by (auto simp: space_encodings_def)

lemma strip_space_shorter: "strip_prefix space_encodings s = Some t \<Longrightarrow> length t < length s"
  by (auto dest!: strip_prefix_Some dest: space_encodings_nonempty)

lemma strip_space_rev_shorter: "strip_prefix (map rev space_encodings) s = Some t \<Longrightarrow> length t < length s"
  by (auto dest!: strip_prefix_Some dest: space_encodings_nonempty)

function trim_left :: "string \<Rightarrow> string" where
  "trim_left s = (case strip_prefix space_encodings s of None \<Rightarrow> s | Some t \<Rightarrow> trim_left t)"
  by pat_completeness auto
termination
  by (relation "measure length") (auto simp: strip_space_shorter)

function trim_rev :: "string \<Rightarrow> string" where
  "trim_rev s = (case strip_prefix (map rev space_encodings) s of None \<Rightarrow> s | Some t \<Rightarrow> trim_rev t)"
  by pat_completeness auto
termination
  by (relation "measure length") (auto simp: strip_space_rev_shorter)

declare trim_left.simps [simp del] trim_rev.simps [simp del]

definition trim_space :: "string \<Rightarrow> string" where
  "trim_space s = rev (trim_rev (rev (trim_left s)))"

lemma trim_left_suffix: "\<exists>p. s = p @ trim_left s"
proof (induction s rule: trim_left.induct)
  case (1 s)
  show ?case
  proof (cases "strip_prefix space_encodings s")
    case None
    then show ?thesis by (simp add: trim_left.simps [of s])
  next
    case (Some t)
    from strip_prefix_Some [OF Some] obtain q where "s = q @ t" by blast
    moreover from 1 [OF Some] obtain p where "t = p @ trim_left t" by blast
    moreover have "trim_left s = trim_left t" using Some by (simp add: trim_left.simps [of s])
    ultimately have "s = (q @ p) @ trim_left s" by simp
    then show ?thesis ..
  qed
qed

lemma trim_left_no_space: "strip_prefix space_encodings (trim_left s) = None"
proof (induction s rule: trim_left.induct)
  case (1 s)
  then show ?case by (cases "strip_prefix space_encodings s") (simp_all add: trim_left.simps [of s])
qed

lemma trim_rev_suffix: "\<exists>p. s = p @ trim_rev s"
proof (induction s rule: trim_rev.induct)
  case (1 s)
  show ?case
  proof (cases "strip_prefix (map rev space_encodings) s")
    case None
    then show ?thesis by (simp add: trim_rev.simps [of s])
  next
    case (Some t)
    from strip_prefix_Some [OF Some] obtain q where "s = q @ t" by blast
    moreover from 1 [OF Some] obtain p where "t = p @ trim_rev t" by blast
    moreover have "trim_rev s = trim_rev t" using Some by (simp add: trim_rev.simps [of s])
    ultimately have "s = (q @ p) @ trim_rev s" by simp
    then show ?thesis ..
  qed
qed

lemma trim_rev_no_space: "strip_prefix (map rev space_encodings) (trim_rev s) = None"
proof (induction s rule: trim_rev.induct)
  case (1 s)
  then show ?case
    by (cases "strip_prefix (map rev space_encodings) s") (simp_all add: trim_rev.simps [of s])
qed

lemma trim_space_prefix: "prefix (trim_space s) (trim_left s)"
proof -
  obtain p where "rev (trim_left s) = p @ trim_rev (rev (trim_left s))" using trim_rev_suffix by blast
  then have "trim_left s = trim_space s @ rev p"
    by (metis rev_append rev_rev_ident trim_space_def)
  then show ?thesis by (auto simp: prefix_def)
qed

lemma trim_space_sublist: "\<exists>a b. s = a @ trim_space s @ b"
proof -
  obtain a where a: "s = a @ trim_left s" using trim_left_suffix by blast
  obtain b where "trim_left s = trim_space s @ b" using trim_space_prefix by (auto simp: prefix_def)
  with a show ?thesis by metis
qed

lemma length_trim_space: "length (trim_space s) \<le> length s"
proof -
  obtain a b where "s = a @ trim_space s @ b" using trim_space_sublist by blast
  from arg_cong [OF this, of length] show ?thesis by simp
qed

text \<open>Neither end of a trimmed string is white space.\<close>

lemma trim_space_ends:
  assumes "p \<in> set space_encodings"
  shows "\<not> prefix p (trim_space s)" and "\<not> suffix p (trim_space s)"
proof -
  show "\<not> prefix p (trim_space s)"
    using trim_left_no_space [of s] trim_space_prefix [of s] assms
    by (auto simp: strip_prefix_None_iff dest: prefix_order.trans)
  show "\<not> suffix p (trim_space s)"
    using trim_rev_no_space [of "rev (trim_left s)"] assms
    by (auto simp: strip_prefix_None_iff trim_space_def suffix_to_prefix)
qed

lemma trim_space_id:
  assumes "\<forall>p\<in>set space_encodings. \<not> prefix p s \<and> \<not> suffix p s"
  shows "trim_space s = s"
proof -
  have "strip_prefix space_encodings s = None"
    using assms by (simp add: strip_prefix_None_iff)
  moreover have "strip_prefix (map rev space_encodings) (rev s) = None"
    using assms by (auto simp: strip_prefix_None_iff suffix_to_prefix)
  ultimately show ?thesis
    by (simp add: trim_space_def trim_left.simps [of s] trim_rev.simps [of "rev s"])
qed

lemma trim_space_idem [simp]: "trim_space (trim_space s) = trim_space s"
  by (rule trim_space_id) (auto dest: trim_space_ends)

lemma trim_space_Nil [simp]: "trim_space [] = []"
  using length_trim_space [of "[]"] by simp

subsection \<open>ToLower\<close>

definition lower_ascii :: "char \<Rightarrow> char" where
  "lower_ascii c = (if 0x41 \<le> byte c \<and> byte c \<le> 0x5A then char_of (byte c + 0x20) else c)"

definition replacement :: string where
  "replacement = [CHR 0xEF, CHR 0xBF, CHR 0xBD]"

definition lower_segment :: "(string \<Rightarrow> string) \<Rightarrow> string \<Rightarrow> string" where
  "lower_segment ut seg = (case seg of
     [c] \<Rightarrow> if byte c < 0x80 then [lower_ascii c] else replacement
   | _ \<Rightarrow> ut seg)"

definition to_lower :: "(string \<Rightarrow> string) \<Rightarrow> string \<Rightarrow> string" where
  "to_lower ut s = (if is_ascii s then map lower_ascii s else concat (map (lower_segment ut) (segments s)))"

lemma byte_lt: "byte c < 256"
  by (simp add: byte_def)

lemma byte_lower_ascii: "byte (lower_ascii c) = (if 0x41 \<le> byte c \<and> byte c \<le> 0x5A then byte c + 0x20 else byte c)"
  by (simp add: lower_ascii_def byte_def)

lemma lower_ascii_idem [simp]: "lower_ascii (lower_ascii c) = lower_ascii c"
  by (auto simp: lower_ascii_def [of "lower_ascii c"] byte_lower_ascii)

lemma to_lower_ascii: "is_ascii s \<Longrightarrow> to_lower ut s = map lower_ascii s"
  by (simp add: to_lower_def)

lemma is_ascii_lower: "is_ascii s \<Longrightarrow> is_ascii (map lower_ascii s)"
  by (auto simp: is_ascii_def list_all_iff byte_lower_ascii)

lemma to_lower_idem_ascii: "is_ascii s \<Longrightarrow> to_lower ut (to_lower ut s) = to_lower ut s"
  by (simp add: to_lower_ascii is_ascii_lower)

subsection \<open>Cut, Split and Join\<close>

text \<open>\<^verbatim>\<open>strings.Cut\<close> with a one-byte separator.\<close>

fun cut :: "char \<Rightarrow> string \<Rightarrow> string \<times> string \<times> bool" where
  "cut sep [] = ([], [], False)"
| "cut sep (c # s) =
     (if c = sep then ([], s, True)
      else case cut sep s of (before, after, found) \<Rightarrow> (c # before, after, found))"

text \<open>\<^verbatim>\<open>strings.Split\<close> with a one-byte separator: one more part than there are separators.\<close>

fun split :: "char \<Rightarrow> string \<Rightarrow> string list" where
  "split sep [] = [[]]"
| "split sep (c # s) =
     (if c = sep then [] # split sep s
      else case split sep s of [] \<Rightarrow> [[c]] | p # ps \<Rightarrow> (c # p) # ps)"

fun join :: "string \<Rightarrow> string list \<Rightarrow> string" where
  "join sep [] = []"
| "join sep [p] = p"
| "join sep (p # ps) = p @ sep @ join sep ps"

lemma split_nonempty [simp]: "split sep s \<noteq> []"
  by (induction s) (auto split: list.splits)

lemma join_Cons: "ps \<noteq> [] \<Longrightarrow> join sep (p # ps) = p @ sep @ join sep ps"
  by (cases ps) auto

lemma join_split: "join [sep] (split sep s) = s"
proof (induction s)
  case (Cons c s)
  then show ?case
    by (cases "split sep s"; cases "tl (split sep s)") (auto simp: join_Cons)
qed simp

lemma split_no_sep: "sep \<notin> set s \<Longrightarrow> split sep s = [s]"
  by (induction s) auto

lemma split_append: "sep \<notin> set p \<Longrightarrow> split sep (p @ sep # s) = p # split sep s"
  by (induction p) auto

lemma split_parts_no_sep: "p \<in> set (split sep s) \<Longrightarrow> sep \<notin> set p"
  by (induction s arbitrary: p) (auto split: if_splits list.splits)

lemma split_join:
  "ps \<noteq> [] \<Longrightarrow> \<forall>p\<in>set ps. sep \<notin> set p \<Longrightarrow> split sep (join [sep] ps) = ps"
proof (induction ps)
  case (Cons p ps)
  then show ?case by (cases "ps = []") (simp_all add: split_no_sep join_Cons split_append)
qed simp

lemma cut_found: "cut sep s = (a, b, True) \<Longrightarrow> s = a @ sep # b \<and> sep \<notin> set a"
  by (induction s arbitrary: a) (auto split: if_splits prod.splits)

lemma cut_not_found: "cut sep s = (a, b, False) \<Longrightarrow> a = s \<and> b = [] \<and> sep \<notin> set s"
  by (induction s arbitrary: a) (auto split: if_splits prod.splits)

subsection \<open>Decimal numbers\<close>

definition digit :: "nat \<Rightarrow> char" where
  "digit n = char_of (48 + n mod 10)"

fun format_nat :: "nat \<Rightarrow> string" where
  "format_nat n = (if n < 10 then [digit n] else format_nat (n div 10) @ [digit n])"

definition format_int :: "int \<Rightarrow> string" where
  "format_int i = (if i < 0 then CHR ''-'' # format_nat (nat (- i)) else format_nat (nat i))"

declare format_nat.simps [simp del]

definition is_digit :: "char \<Rightarrow> bool" where
  "is_digit c \<longleftrightarrow> 48 \<le> byte c \<and> byte c \<le> 57"

definition digits_value :: "string \<Rightarrow> nat" where
  "digits_value s = foldl (\<lambda>a c. 10 * a + (byte c - 48)) 0 s"

lemma byte_digit [simp]: "byte (digit n) = 48 + n mod 10"
  by (simp add: byte_def digit_def)

lemma is_digit_digit [simp]: "is_digit (digit n)"
  by (simp add: is_digit_def)

lemma format_nat_nonempty [simp]: "format_nat n \<noteq> []"
  by (simp add: format_nat.simps [of n])

lemma format_nat_digits: "list_all is_digit (format_nat n)"
proof (induction n rule: format_nat.induct)
  case (1 n)
  then show ?case by (simp add: format_nat.simps [of n])
qed

lemma digits_value_format: "digits_value (format_nat n) = n"
proof (induction n rule: format_nat.induct)
  case (1 n)
  show ?case
  proof (cases "n < 10")
    case True
    then show ?thesis by (simp add: format_nat.simps [of n] digits_value_def)
  next
    case False
    with 1 have "foldl (\<lambda>a c. 10 * a + (byte c - 48)) 0 (format_nat (n div 10)) = n div 10"
      by (simp add: digits_value_def)
    with False show ?thesis by (simp add: format_nat.simps [of n] digits_value_def)
  qed
qed

end
