(* ===== verification/Protocol.thy ===== *)
theory Protocol
  imports GoStrings
begin

text \<open>
  \<^verbatim>\<open>internal/signaling/protocol.go\<close>: the frames of the signaling protocol.  \<open>encode\<close> is
  \<^verbatim>\<open>json.Marshal\<close> of an \<^verbatim>\<open>Outbound\<close>: fields in declaration order, \<^verbatim>\<open>omitempty\<close>, strings quoted
  with HTML escaping.  A \<^verbatim>\<open>json.RawMessage\<close> payload is copied through the validating compaction of
  \<^verbatim>\<open>encoding/json\<close>, the argument \<open>jcompact\<close> (\<open>None\<close> when the bytes are not JSON); decoding a client
  frame into the fields of \<^verbatim>\<open>Inbound\<close> is the argument \<open>unmarshal\<close>.
\<close>

definition TypeOffer :: string where "TypeOffer = ''offer''"
definition TypeAnswer :: string where "TypeAnswer = ''answer''"
definition TypeCandidate :: string where "TypeCandidate = ''candidate''"
definition TypeBye :: string where "TypeBye = ''bye''"
definition TypeChat :: string where "TypeChat = ''chat''"
definition TypeWelcome :: string where "TypeWelcome = ''welcome''"
definition TypePeerJoined :: string where "TypePeerJoined = ''peer-joined''"
definition TypePeerLeft :: string where "TypePeerLeft = ''peer-left''"

lemmas type_defs = TypeOffer_def TypeAnswer_def TypeCandidate_def TypeBye_def TypeChat_def
  TypeWelcome_def TypePeerJoined_def TypePeerLeft_def

record Peer =
  peer_ID :: string
  peer_DisplayName :: string

record Inbound =
  in_Type :: string
  in_To :: string
  in_Payload :: string

record Outbound =
  out_Type :: string
  out_From :: string
  out_Payload :: string
  out_Peers :: "Peer list"

datatype parse_error = DecodeError | UnknownType string

definition client_types :: "string list" where
  "client_types = [TypeOffer, TypeAnswer, TypeCandidate, TypeBye, TypeChat]"

definition parseInbound :: "(string \<Rightarrow> Inbound option) \<Rightarrow> string \<Rightarrow> parse_error + Inbound" where
  "parseInbound unmarshal data = (case unmarshal data of
     None \<Rightarrow> Inl DecodeError
   | Some inb \<Rightarrow> if in_Type inb \<in> set client_types then Inr inb else Inl (UnknownType (in_Type inb)))"

subsection \<open>Writing JSON\<close>

definition hex_digit :: "nat \<Rightarrow> char" where
  "hex_digit n = ''0123456789abcdef'' ! (n mod 16)"

text \<open>The escaping of one rune inside a JSON string, as \<^verbatim>\<open>encoding/json\<close> does it with HTML escaping on.\<close>

definition escape_ascii :: "char \<Rightarrow> string" where
  "escape_ascii c = (let b = byte c in
     if c = CHR 0x5C \<or> c = CHR 0x22 then [CHR 0x5C, c]
     else if b = 0x08 then CHR 0x5C # ''b''
     else if b = 0x0C then CHR 0x5C # ''f''
     else if b = 0x0A then CHR 0x5C # ''n''
     else if b = 0x0D then CHR 0x5C # ''r''
     else if b = 0x09 then CHR 0x5C # ''t''
     else if b < 0x20 \<or> c = CHR ''<'' \<or> c = CHR ''>'' \<or> c = CHR ''&''
       then CHR 0x5C # ''u00'' @ [hex_digit (b div 16), hex_digit b]
     else [c])"

definition escape_segment :: "string \<Rightarrow> string" where
  "escape_segment seg = (case seg of
     [c] \<Rightarrow> if byte c < 0x80 then escape_ascii c else CHR 0x5C # ''ufffd''
   | _ \<Rightarrow>
     if seg = [CHR 0xE2, CHR 0x80, CHR 0xA8] then CHR 0x5C # ''u2028''
     else if seg = [CHR 0xE2, CHR 0x80, CHR 0xA9] then CHR 0x5C # ''u2029''
     else seg)"

definition quote :: "string \<Rightarrow> string" where
  "quote s = CHR 0x22 # concat (map escape_segment (segments s)) @ [CHR 0x22]"

definition json_field :: "string \<Rightarrow> string \<Rightarrow> string" where
  "json_field k v = quote k @ '':'' @ v"

definition json_object :: "string list \<Rightarrow> string" where
  "json_object fs = ''{'' @ join '','' fs @ ''}''"

definition json_array :: "string list \<Rightarrow> string" where
  "json_array vs = ''['' @ join '','' vs @ '']''"

definition encode_peer :: "Peer \<Rightarrow> string" where
  "encode_peer p = json_object
     [json_field ''id'' (quote (peer_ID p)), json_field ''display_name'' (quote (peer_DisplayName p))]"

definition encode :: "(string \<Rightarrow> string option) \<Rightarrow> Outbound \<Rightarrow> string option" where
  "encode jcompact out =
     (let payload = (if out_Payload out = [] then Some []
                     else map_option (\<lambda>p. [json_field ''payload'' p]) (jcompact (out_Payload out)))
      in case payload of
           None \<Rightarrow> None
         | Some pl \<Rightarrow> Some (json_object
             ([json_field ''type'' (quote (out_Type out))] @
              (if out_From out = [] then [] else [json_field ''from'' (quote (out_From out))]) @
              pl @
              (if out_Peers out = [] then []
               else [json_field ''peers'' (json_array (map encode_peer (out_Peers out)))]))))"

lemma encode_no_payload: "out_Payload out = [] \<Longrightarrow> \<exists>d. encode jcompact out = Some d"
  by (simp add: encode_def)

subsection \<open>What a client can say\<close>

lemma parseInbound_Inr_iff:
  "parseInbound unmarshal data = Inr inb \<longleftrightarrow>
   unmarshal data = Some inb \<and> in_Type inb \<in> set client_types"
  by (auto simp: parseInbound_def split: option.splits)

lemma server_types_not_client:
  "TypeWelcome \<notin> set client_types" "TypePeerJoined \<notin> set client_types" "TypePeerLeft \<notin> set client_types"
  by (simp_all add: client_types_def type_defs)

end
