(* ===== verification/SignalingHub.thy ===== *)
theory SignalingHub
  imports Channel Protocol
begin

text \<open>
  \<^verbatim>\<open>internal/signaling/hub.go\<close>: the hub that relays frames inside rooms.  A \<^verbatim>\<open>*Client\<close> is a
  reference into the store \<open>h_heap\<close>; \<open>h_rooms\<close> is the map from a room id to its members.  A hub
  operation runs in the one goroutine that owns the map, but two things are outside its control: the
  order in which Go ranges over a map, and how far each client's writer goroutine has drained the
  send channel by the time the hub offers a frame.  Both are chosen by a schedule \<open>S\<close>, an argument
  of every operation.  A send on a closed channel and a second close, which would bring the process
  down, set \<open>h_panic\<close>.
\<close>

type_synonym cref = nat

record client =
  c_id :: string
  c_userID :: string
  c_displayName :: string
  c_roomID :: string
  c_send :: "string chan"

record message =
  m_room :: string
  m_sender :: cref
  m_to :: string
  m_data :: string

record hub =
  h_rooms :: "(string \<times> cref list) list"
  h_heap :: "cref \<Rightarrow> client"
  h_next :: cref
  h_count :: int
  h_done :: bool
  h_panic :: bool

record sched =
  iter_order :: "hub \<Rightarrow> cref list \<Rightarrow> cref list"
  drained :: "hub \<Rightarrow> cref \<Rightarrow> nat"

text \<open>Every schedule the runtime can produce visits each member exactly once.\<close>

definition valid_sched :: "sched \<Rightarrow> bool" where
  "valid_sched S \<longleftrightarrow> (\<forall>h xs. mset (iter_order S h xs) = mset xs)"

type_synonym encoder = "Outbound \<Rightarrow> string option"

definition NewHub :: "(cref \<Rightarrow> client) \<Rightarrow> hub" where
  "NewHub heap = \<lparr>h_rooms = [], h_heap = heap, h_next = 0, h_count = 0, h_done = False, h_panic = False\<rparr>"

definition room_members :: "string \<Rightarrow> hub \<Rightarrow> cref list" where
  "room_members r h = members_of (h_rooms h) r"

definition set_send :: "cref \<Rightarrow> string chan \<Rightarrow> hub \<Rightarrow> hub" where
  "set_send c ch h = h\<lparr>h_heap := (h_heap h)(c := (h_heap h c)\<lparr>c_send := ch\<rparr>)\<rparr>"

definition close_send :: "cref \<Rightarrow> hub \<Rightarrow> hub" where
  "close_send c h = (case close_chan (c_send (h_heap h c)) of
     None \<Rightarrow> h\<lparr>h_panic := True\<rparr>
   | Some ch \<Rightarrow> set_send c ch h)"

subsection \<open>Operations\<close>

definition push :: "sched \<Rightarrow> string \<Rightarrow> cref \<Rightarrow> hub \<Rightarrow> hub \<times> bool" where
  "push S data c h =
     (let h1 = set_send c (drain (drained S h c) (c_send (h_heap h c))) h
      in case try_send data (c_send (h_heap h1 c)) of
           Sent ch \<Rightarrow> (set_send c ch h1, True)
         | Full \<Rightarrow> (h1, False)
         | SendOnClosed \<Rightarrow> (h1\<lparr>h_panic := True\<rparr>, False))"

definition peer_of :: "client \<Rightarrow> Peer" where
  "peer_of cl = \<lparr>peer_ID = c_userID cl, peer_DisplayName = c_displayName cl\<rparr>"

definition peer_left :: "client \<Rightarrow> Outbound" where
  "peer_left cl = \<lparr>out_Type = TypePeerLeft, out_From = c_userID cl, out_Payload = [], out_Peers = [peer_of cl]\<rparr>"

definition peer_joined :: "client \<Rightarrow> Outbound" where
  "peer_joined cl = \<lparr>out_Type = TypePeerJoined, out_From = c_userID cl, out_Payload = [], out_Peers = [peer_of cl]\<rparr>"

definition welcome_frame :: "client \<Rightarrow> Peer list \<Rightarrow> Outbound" where
  "welcome_frame cl ps = \<lparr>out_Type = TypeWelcome, out_From = c_userID cl, out_Payload = [], out_Peers = ps\<rparr>"

text \<open>The state change of \<^verbatim>\<open>leave\<close> before it announces anything.\<close>

definition unlink :: "cref \<Rightarrow> hub \<Rightarrow> hub" where
  "unlink c h =
     (let r = c_roomID (h_heap h c);
          ms = removeAll c (room_members r h);
          h1 = h\<lparr>h_rooms := AList.update r ms (h_rooms h)\<rparr>;
          h2 = close_send c h1;
          h3 = h2\<lparr>h_count := h_count h2 - 1\<rparr>
      in if ms = [] then h3\<lparr>h_rooms := AList.delete r (h_rooms h3)\<rparr> else h3)"

definition is_member :: "cref \<Rightarrow> hub \<Rightarrow> bool" where
  "is_member c h \<longleftrightarrow> c \<in> set (room_members (c_roomID (h_heap h c)) h)"

definition hub_size :: "hub \<Rightarrow> nat" where
  "hub_size h = total_len (h_rooms h)"

lemma h_rooms_set_send [hub_simps]: "h_rooms (set_send c ch h) = h_rooms h"
  by (simp add: set_send_def)

lemma h_rooms_close_send [hub_simps]: "h_rooms (close_send c h) = h_rooms h"
  by (simp add: close_send_def hub_simps split: option.splits)

lemma h_rooms_push [hub_simps]: "push S d c h = (h', ok) \<Longrightarrow> h_rooms h' = h_rooms h"
  by (auto simp: push_def Let_def hub_simps split: send_result.splits)

lemma hub_size_fan_out: "fan_out (push S d) skip cs h = (h', st) \<Longrightarrow> hub_size h' = hub_size h"
  by (induction cs arbitrary: h h' st)
    (auto simp: hub_size_def h_rooms_push split: if_splits prod.splits)

lemma hub_size_unlink: "is_member c h \<Longrightarrow> hub_size (unlink c h) < hub_size h"
proof -
  assume m: "is_member c h"
  let ?r = "c_roomID (h_heap h c)"
  let ?ms = "removeAll c (room_members ?r h)"
  let ?al = "AList.update ?r ?ms (h_rooms h)"
  have "length ?ms < length (room_members ?r h)"
    using m length_removeAll_less by (simp add: is_member_def)
  then have "total_len ?al < total_len (h_rooms h)"
    using total_len_update [of ?r ?ms "h_rooms h"] by (simp add: room_members_def)
  moreover have "hub_size (unlink c h) \<le> total_len ?al"
    by (simp add: hub_size_def unlink_def Let_def hub_simps total_len_delete_le)
  ultimately show ?thesis by (simp add: hub_size_def)
qed

text \<open>
  \<^verbatim>\<open>leave\<close>, \<^verbatim>\<open>announce\<close> and \<^verbatim>\<open>dropStalled\<close> call each other: announcing a departure may find
  another client that does not drain its channel, whose eviction is announced in turn.  The three are
  one recursive function whose termination is proved below: every level removes a member.
\<close>

function leave :: "sched \<Rightarrow> encoder \<Rightarrow> cref \<Rightarrow> hub \<Rightarrow> hub \<times> bool"
  and announce :: "sched \<Rightarrow> encoder \<Rightarrow> string \<Rightarrow> string \<Rightarrow> cref \<Rightarrow> hub \<Rightarrow> hub"
  and dropStalled :: "sched \<Rightarrow> encoder \<Rightarrow> cref list \<Rightarrow> hub \<Rightarrow> hub" where
  "leave S enc c h =
     (if \<not> is_member c h then (h, False)
      else let h1 = unlink c h
           in case enc (peer_left (h_heap h c)) of
                None \<Rightarrow> (h1, True)
              | Some left \<Rightarrow> (announce S enc (c_roomID (h_heap h c)) left c h1, True))"
| "announce S enc r data except h =
     (case fan_out (push S data) (\<lambda>c. c = except) (iter_order S h (room_members r h)) h of
        (h1, stalled) \<Rightarrow> dropStalled S enc stalled h1)"
| "dropStalled S enc [] h = h"
| "dropStalled S enc (c # cs) h = dropStalled S enc cs (fst (leave S enc c h))"
  by pat_completeness auto

termination
proof (relation "measures
    [\<lambda>x. case x of Inl (S, enc, c, h) \<Rightarrow> hub_size h
         | Inr (Inl (S, enc, r, d, e, h)) \<Rightarrow> hub_size h
         | Inr (Inr (S, enc, cs, h)) \<Rightarrow> hub_size h,
     \<lambda>x. case x of Inl _ \<Rightarrow> 0
         | Inr (Inl (S, enc, r, d, e, h)) \<Rightarrow> Suc (Suc (length (iter_order S h (room_members r h))))
         | Inr (Inr (S, enc, cs, h)) \<Rightarrow> Suc (length cs)]", goal_cases)
  case (3 S enc r data e h h1 st)
  note f = 3 [symmetric]
  have "length st \<le> length (iter_order S h (room_members r h))"
    using fan_out_stalled_length [of "push S data" "\<lambda>c. c = e" "iter_order S h (room_members r h)" h] f
    by simp
  then show ?case using hub_size_fan_out [OF f] by auto
next
  case (5 S enc c cs h)
  have shrinks: "leave_announce_dropStalled_dom (Inl (S, enc, c, h)) \<Longrightarrow>
      hub_size (fst (leave S enc c h)) \<le> hub_size h"
  and "leave_announce_dropStalled_dom (Inr (Inl (S, enc, r, d, e, h))) \<Longrightarrow>
      hub_size (announce S enc r d e h) \<le> hub_size h"
  and "leave_announce_dropStalled_dom (Inr (Inr (S, enc, cs, h))) \<Longrightarrow>
      hub_size (dropStalled S enc cs h) \<le> hub_size h"
    for S enc c h r d e cs
  proof (induct S enc c h and S enc r d e h and S enc cs h rule: leave_announce_dropStalled.pinduct)
    case (1 S enc c h)
    then show ?case
      using hub_size_unlink [of c h]
      by (fastforce simp: leave.psimps Let_def split: option.splits dest: le_less_trans)
  next
    case (2 S enc r data except h)
    then show ?case by (auto simp: announce.psimps hub_size_fan_out split: prod.splits)
  next
    case (3 S enc h)
    then show ?case by (simp add: dropStalled.psimps)
  next
    case (4 S enc c cs h)
    then show ?case by (auto simp: dropStalled.psimps intro: order.trans)
  qed
  from shrinks [OF 5] show ?case by auto
qed (auto simp: hub_size_unlink)

declare leave.simps [simp del] announce.simps [simp del]

lemma hub_size_mono:
  "hub_size (fst (leave S enc c h)) \<le> hub_size h"
  "hub_size (announce S enc r d e h) \<le> hub_size h"
  "hub_size (dropStalled S enc cs h) \<le> hub_size h"
proof (induction S enc c h and S enc r d e h and S enc cs h rule: leave_announce_dropStalled.induct)
  case (1 S enc c h)
  then show ?case
    using hub_size_unlink [of c h]
    by (fastforce simp: leave.simps Let_def split: option.splits dest: le_less_trans)
next
  case (2 S enc r data except h)
  then show ?case
    by (auto simp: announce.simps hub_size_fan_out split: prod.splits)
next
  case (4 S enc c cs h)
  then show ?case by (auto intro: order.trans)
qed simp

definition hub_join :: "sched \<Rightarrow> encoder \<Rightarrow> cref \<Rightarrow> hub \<Rightarrow> hub" where
  "hub_join S enc c h =
     (let cl = h_heap h c; r = c_roomID cl;
          h0 = (if map_of (h_rooms h) r = None then h\<lparr>h_rooms := AList.update r [] (h_rooms h)\<rparr> else h);
          peers = map (\<lambda>other. peer_of (h_heap h0 other)) (iter_order S h0 (room_members r h0));
          h1 = h0\<lparr>h_rooms := AList.update r (List.insert c (room_members r h0)) (h_rooms h0),
                   h_count := h_count h0 + 1\<rparr>
      in case enc (welcome_frame cl peers) of
           None \<Rightarrow> h1
         | Some w \<Rightarrow>
             (case push S w c h1 of (h2, ok) \<Rightarrow>
                if \<not> ok then fst (leave S enc c h2)
                else case enc (peer_joined cl) of
                       None \<Rightarrow> h2
                     | Some joined \<Rightarrow> announce S enc r joined c h2))"

definition deliver :: "sched \<Rightarrow> encoder \<Rightarrow> message \<Rightarrow> hub \<Rightarrow> hub" where
  "deliver S enc m h =
     (case fan_out (push S (m_data m))
             (\<lambda>c. c = m_sender m \<or> (m_to m \<noteq> [] \<and> c_userID (h_heap h c) \<noteq> m_to m))
             (iter_order S h (room_members (m_room m) h)) h of
        (h1, stalled) \<Rightarrow> dropStalled S enc stalled h1)"

definition closeAll :: "hub \<Rightarrow> hub" where
  "closeAll h =
     (let h1 = fold close_send (concat (map snd (h_rooms h))) h
      in h1\<lparr>h_rooms := [], h_count := 0\<rparr>)"

definition ClientCount :: "hub \<Rightarrow> int" where
  "ClientCount h = h_count h"

subsection \<open>Views of the hub's state\<close>

text \<open>\<open>clog h c\<close>: every frame ever enqueued for a client, in order.\<close>

definition clog :: "hub \<Rightarrow> cref \<Rightarrow> string list" where
  "clog h c = history (c_send (h_heap h c))"

definition live :: "hub \<Rightarrow> cref \<Rightarrow> bool" where
  "live h c \<longleftrightarrow> \<not> ch_closed (c_send (h_heap h c))"

definition static :: "client \<Rightarrow> string \<times> string \<times> string \<times> string \<times> nat" where
  "static cl = (c_id cl, c_userID cl, c_displayName cl, c_roomID cl, ch_cap (c_send cl))"

definition same_static :: "hub \<Rightarrow> hub \<Rightarrow> bool" where
  "same_static h h' \<longleftrightarrow>
     h_next h' = h_next h \<and> h_done h' = h_done h \<and> (\<forall>c. static (h_heap h' c) = static (h_heap h c))"

definition room_ok :: "hub \<Rightarrow> string \<Rightarrow> cref list \<Rightarrow> bool" where
  "room_ok h r ms \<longleftrightarrow>
     ms \<noteq> [] \<and> distinct ms \<and> (\<forall>c\<in>set ms. c < h_next h \<and> c_roomID (h_heap h c) = r \<and> live h c)"

definition hub_inv :: "hub \<Rightarrow> bool" where
  "hub_inv h \<longleftrightarrow>
     distinct (map fst (h_rooms h)) \<and>
     (\<forall>r ms. map_of (h_rooms h) r = Some ms \<longrightarrow> room_ok h r ms) \<and>
     h_count h = int (hub_size h) \<and>
     (\<forall>c. chan_ok (c_send (h_heap h c))) \<and>
     \<not> h_panic h"

lemma hub_invD:
  assumes "hub_inv h"
  shows "distinct (map fst (h_rooms h))" "h_count h = int (hub_size h)"
    "chan_ok (c_send (h_heap h c))" "\<not> h_panic h"
    "distinct (room_members r h)"
    "c \<in> set (room_members r h) \<Longrightarrow> c < h_next h \<and> c_roomID (h_heap h c) = r \<and> live h c"
  using assms mem_members_of [of c "h_rooms h" r]
  by (auto simp: hub_inv_def room_ok_def room_members_def members_of_def split: option.splits)

lemma is_member_iff: "hub_inv h \<Longrightarrow> c \<in> set (room_members r h) \<longleftrightarrow> is_member c h \<and> c_roomID (h_heap h c) = r"
  by (auto simp: is_member_def dest: hub_invD(6))

lemma same_staticD:
  assumes "same_static h h'"
  shows "c_id (h_heap h' c) = c_id (h_heap h c)" "c_userID (h_heap h' c) = c_userID (h_heap h c)"
    "c_displayName (h_heap h' c) = c_displayName (h_heap h c)"
    "c_roomID (h_heap h' c) = c_roomID (h_heap h c)"
    "ch_cap (c_send (h_heap h' c)) = ch_cap (c_send (h_heap h c))"
    "h_next h' = h_next h" "h_done h' = h_done h"
  using assms by (auto simp: same_static_def static_def)

lemma same_static_refl [simp]: "same_static h h"
  by (simp add: same_static_def)

lemma same_static_trans: "same_static h h1 \<Longrightarrow> same_static h1 h2 \<Longrightarrow> same_static h h2"
  by (simp add: same_static_def)

lemma same_static_frames:
  assumes "same_static h h'"
  shows "peer_left (h_heap h' c) = peer_left (h_heap h c)"
    "peer_joined (h_heap h' c) = peer_joined (h_heap h c)" "peer_of (h_heap h' c) = peer_of (h_heap h c)"
  using same_staticD [OF assms] by (simp_all add: peer_left_def peer_joined_def peer_of_def)

text \<open>An update of one channel that keeps its capacity.\<close>

lemma set_send_views:
  "h_heap (set_send c ch h) = (h_heap h)(c := (h_heap h c)\<lparr>c_send := ch\<rparr>)"
  "clog (set_send c ch h) = (clog h)(c := history ch)"
  "live (set_send c ch h) = (live h)(c := \<not> ch_closed ch)"
  "h_next (set_send c ch h) = h_next h" "h_count (set_send c ch h) = h_count h"
  "h_done (set_send c ch h) = h_done h" "h_panic (set_send c ch h) = h_panic h"
  "ch_cap ch = ch_cap (c_send (h_heap h c)) \<Longrightarrow> same_static h (set_send c ch h)"
  by (auto simp: set_send_def clog_def live_def fun_eq_iff same_static_def static_def)

lemma hub_inv_cong:
  assumes "hub_inv h" "h_rooms h' = h_rooms h" "same_static h h'" "h_count h' = h_count h"
    "live h' = live h" "\<forall>c. chan_ok (c_send (h_heap h' c))" "\<not> h_panic h'"
  shows "hub_inv h'"
  using assms same_staticD [OF assms(3)] by (auto simp: hub_inv_def room_ok_def hub_size_def)

lemma push_spec:
  assumes "push S d c h = (h', ok)" "live h c"
  shows "clog h' = (clog h)(c := clog h c @ (if ok then [d] else [])) \<and> live h' = live h \<and>
    same_static h h' \<and> h_count h' = h_count h \<and> h_panic h' = h_panic h \<and>
    (\<forall>x. x \<noteq> c \<longrightarrow> h_heap h' x = h_heap h x) \<and>
    ((\<forall>x. chan_ok (c_send (h_heap h x))) \<longrightarrow> (\<forall>x. chan_ok (c_send (h_heap h' x))))"
proof -
  let ?ch = "drain (drained S h c) (c_send (h_heap h c))"
  let ?h1 = "set_send c ?ch h"
  have open_ch: "\<not> ch_closed ?ch" using assms(2) by (simp add: live_def)
  have s1: "same_static h ?h1" by (simp add: set_send_views)
  consider (sent) ch where "try_send d ?ch = Sent ch" "h' = set_send c ch ?h1" "ok"
    | (full) "try_send d ?ch = Full" "h' = ?h1" "\<not> ok"
    using assms(1) open_ch by (auto simp: push_def Let_def set_send_views split: send_result.splits)
  then show ?thesis
  proof cases
    case sent
    have "same_static ?h1 (set_send c ch ?h1)"
      using try_send_Sent [OF sent(1)] by (simp add: set_send_views)
    with s1 have "same_static h (set_send c ch ?h1)" by (rule same_static_trans)
    then show ?thesis
      using sent try_send_Sent [OF sent(1)] assms(2)
      by (auto simp: set_send_views clog_def live_def fun_eq_iff)
  next
    case full
    then show ?thesis
      using s1 assms(2) by (auto simp: set_send_views clog_def live_def fun_eq_iff)
  qed
qed

interpretation hub_push: fanout "push S" clog live for S
  by unfold_locales (auto dest: push_spec)

end
