(* ===== verification/HubProofs.thy ===== *)
theory HubProofs
  imports SignalingHub
begin

text \<open>
  Correctness of the signaling hub.  \<open>room_step enc r pre gone h h'\<close> says what the hub's work in
  one room amounts to, whatever the schedule: the clients in \<open>gone\<close> were evicted, every survivor
  \<open>c\<close> got \<open>pre c\<close> followed by one peer-left frame for each evicted client in the same order, and
  nothing outside the room changed.  The three mutually recursive operations are shown to be such
  steps by one induction, and the properties of the whole hub follow.
\<close>

definition left_data :: "encoder \<Rightarrow> hub \<Rightarrow> cref \<Rightarrow> string" where
  "left_data enc h c = the (enc (peer_left (h_heap h c)))"

definition encodes_left :: "encoder \<Rightarrow> bool" where
  "encodes_left enc \<longleftrightarrow> (\<forall>cl. enc (peer_left cl) \<noteq> None)"

definition room_step ::
    "encoder \<Rightarrow> string \<Rightarrow> (cref \<Rightarrow> string list) \<Rightarrow> cref list \<Rightarrow> hub \<Rightarrow> hub \<Rightarrow> bool" where
  "room_step enc r pre gone h h' \<longleftrightarrow>
     same_static h h' \<and> distinct gone \<and> set gone \<subseteq> set (room_members r h) \<and>
     room_members r h' = filter (\<lambda>c. c \<notin> set gone) (room_members r h) \<and>
     (\<forall>r'. r' \<noteq> r \<longrightarrow> room_members r' h' = room_members r' h) \<and>
     (\<forall>c. live h' c \<longleftrightarrow> live h c \<and> c \<notin> set gone) \<and>
     (\<forall>c. c \<notin> set (room_members r h) \<longrightarrow> h_heap h' c = h_heap h c) \<and>
     (\<forall>c\<in>set (room_members r h'). clog h' c = clog h c @ pre c @ map (left_data enc h) gone)"

lemma left_data_static: "same_static h h' \<Longrightarrow> left_data enc h' = left_data enc h"
  by (simp add: left_data_def fun_eq_iff same_static_frames)

lemma room_step_refl: "room_step enc r (\<lambda>_. []) [] h h"
  by (simp add: room_step_def)

lemma room_step_trans:
  assumes "room_step enc r pre g1 h h1" "room_step enc r (\<lambda>_. []) g2 h1 h2"
  shows "room_step enc r pre (g1 @ g2) h h2"
proof -
  have l: "left_data enc h1 = left_data enc h"
    using assms(1) by (auto simp: room_step_def left_data_static)
  have "same_static h h2"
    using assms same_static_trans by (auto simp: room_step_def)
  then show ?thesis
    using assms l by (auto simp: room_step_def filter_filter conj_commute)
qed

subsection \<open>One offer, one loop\<close>

lemma valid_sched_set:
  assumes "valid_sched S"
  shows "set (iter_order S h xs) = set xs" "distinct (iter_order S h xs) = distinct xs"
    "length (iter_order S h xs) = length xs"
proof -
  have m: "mset (iter_order S h xs) = mset xs" using assms by (simp add: valid_sched_def)
  show "set (iter_order S h xs) = set xs" using m by (rule mset_eq_setD)
  show "distinct (iter_order S h xs) = distinct xs" using m by (rule mset_eq_distinct)
  show "length (iter_order S h xs) = length xs" using m by (rule mset_eq_length)
qed

lemma fan_out_frame:
  assumes "fan_out (push S d) skip cs h = (h', st)" "\<forall>c\<in>set cs. live h c" "hub_inv h"
  shows "hub_inv h' \<and> h_rooms h' = h_rooms h \<and> same_static h h' \<and> live h' = live h \<and>
    (\<forall>c. c \<notin> set cs \<longrightarrow> h_heap h' c = h_heap h c)"
  using assms
proof (induction cs arbitrary: h h' st)
  case Nil
  then show ?case by simp
next
  case (Cons c cs)
  show ?case
  proof (cases "skip c")
    case True
    with Cons show ?thesis by simp
  next
    case False
    obtain h1 ok where p: "push S d c h = (h1, ok)" by (cases "push S d c h")
    obtain st' where r: "fan_out (push S d) skip cs h1 = (h', st')"
      using Cons.prems(1) False p by (auto split: prod.splits)
    have "live h c" using Cons.prems by simp
    note ps = push_spec [OF p this] h_rooms_push [OF p]
    then have "hub_inv h1"
      using hub_inv_cong [OF Cons.prems(3), of h1] hub_invD(3,4) [OF Cons.prems(3)] by auto
    from Cons.IH [OF r _ this] Cons.prems ps show ?thesis
      by (auto intro: same_static_trans)
  qed
qed

lemma fan_out_room:
  assumes "fan_out (push S d) skip (iter_order S h (room_members r h)) h = (h1, st)"
    "hub_inv h" "valid_sched S"
  shows "hub_inv h1 \<and> h_rooms h1 = h_rooms h \<and> same_static h h1 \<and> live h1 = live h \<and>
    (\<forall>c. c \<notin> set (room_members r h) \<longrightarrow> h_heap h1 c = h_heap h c) \<and>
    set st \<subseteq> {c \<in> set (room_members r h). \<not> skip c} \<and>
    (\<forall>c\<in>set (room_members r h). c \<notin> set st \<longrightarrow> clog h1 c = clog h c @ (if skip c then [] else [d]))"
proof -
  note v = valid_sched_set [OF assms(3)]
  have l: "\<forall>c\<in>set (iter_order S h (room_members r h)). live h c"
    using hub_invD(6) [OF assms(2)] v by auto
  have "distinct (iter_order S h (room_members r h))"
    using hub_invD(5) [OF assms(2)] v by simp
  from hub_push.fan_out_contract [OF assms(1) this l] fan_out_frame [OF assms(1) l assms(2)] v
  show ?thesis by auto
qed

subsection \<open>Removing one client\<close>

lemma close_send_open:
  "\<not> ch_closed (c_send (h_heap h c)) \<Longrightarrow>
   close_send c h = set_send c ((c_send (h_heap h c))\<lparr>ch_closed := True\<rparr>) h"
  by (simp add: close_send_def close_chan_def)

lemma unlink_fields:
  assumes "live h c"
  shows "h_heap (unlink c h) = (h_heap h)(c := (h_heap h c)\<lparr>c_send := (c_send (h_heap h c))\<lparr>ch_closed := True\<rparr>\<rparr>)"
    "h_next (unlink c h) = h_next h" "h_done (unlink c h) = h_done h" "h_panic (unlink c h) = h_panic h"
    "h_count (unlink c h) = h_count h - 1"
    "room_members r (unlink c h) =
       (if r = c_roomID (h_heap h c) then removeAll c (room_members r h) else room_members r h)"
  using assms
  by (simp_all add: live_def unlink_def Let_def close_send_open set_send_views room_members_def h_rooms_set_send)

lemma is_member_live: "hub_inv h \<Longrightarrow> is_member c h \<Longrightarrow> live h c"
  unfolding is_member_def by (drule (1) hub_invD(6)) simp

lemma unlink_rooms:
  "map_of (h_rooms (unlink c h)) r =
     (if r \<noteq> c_roomID (h_heap h c) then map_of (h_rooms h) r
      else if removeAll c (room_members r h) = [] then None else Some (removeAll c (room_members r h)))"
  by (simp add: unlink_def Let_def hub_simps delete_conv' update_conv')

lemma hub_size_unlink_eq:
  assumes "hub_inv h" "is_member c h"
  shows "Suc (hub_size (unlink c h)) = hub_size h"
proof -
  let ?r = "c_roomID (h_heap h c)"
  let ?ms = "room_members ?r h"
  let ?al = "AList.update ?r (removeAll c ?ms) (h_rooms h)"
  have d: "distinct (map fst ?al)" using hub_invD(1) [OF assms(1)] by (rule distinct_update)
  have "length (removeAll c ?ms) + 1 = length ?ms"
    using assms hub_invD(5) [OF assms(1)] length_filter_removed [of ?ms "[c]"]
    by (simp add: is_member_def removeAll_filter)
  then have s: "Suc (total_len ?al) = total_len (h_rooms h)"
    using total_len_update [of ?r "removeAll c ?ms" "h_rooms h"] by (simp add: room_members_def)
  have "hub_size (unlink c h) = total_len ?al"
    using total_len_delete_Nil [OF d, of ?r]
    by (simp add: hub_size_def unlink_def Let_def hub_simps)
  with s show ?thesis by (simp add: hub_size_def)
qed

lemma distinct_rooms_unlink: "distinct (map fst (h_rooms h)) \<Longrightarrow> distinct (map fst (h_rooms (unlink c h)))"
  by (simp add: unlink_def Let_def hub_simps distinct_update delete_keys distinct_removeAll)

lemma unlink_inv:
  assumes "hub_inv h" "is_member c h"
  shows "hub_inv (unlink c h)"
proof -
  have l: "live h c" using assms by (rule is_member_live)
  note u = unlink_fields [OF l]
  have "room_ok (unlink c h) r ms" if "map_of (h_rooms (unlink c h)) r = Some ms" for r ms
  proof -
    have "\<exists>ms0. map_of (h_rooms h) r = Some ms0 \<and> ms = removeAll c ms0"
    proof (cases "r = c_roomID (h_heap h c)")
      case True
      with that assms(2) show ?thesis
        using mem_members_of by (fastforce simp: unlink_rooms is_member_def room_members_def split: if_splits)
    next
      case False
      then have "c \<notin> set ms" and "map_of (h_rooms h) r = Some ms"
        using that assms(1) by (auto simp: unlink_rooms hub_inv_def room_ok_def)
      then show ?thesis by (simp add: removeAll_id)
    qed
    then obtain ms0 where "map_of (h_rooms h) r = Some ms0" and ms: "ms = removeAll c ms0" by blast
    then have "room_ok h r ms0" using assms(1) by (simp add: hub_inv_def)
    moreover have "ms \<noteq> []"
      using that \<open>room_ok h r ms0\<close> \<open>map_of (h_rooms h) r = Some ms0\<close>
      by (auto simp: unlink_rooms room_ok_def split: if_splits)
    ultimately show ?thesis
      using ms u by (auto simp: room_ok_def live_def distinct_removeAll)
  qed
  moreover have "h_count (unlink c h) = int (hub_size (unlink c h))"
    using u(5) hub_size_unlink_eq [OF assms] hub_invD(2) [OF assms(1)] by simp
  moreover have "chan_ok (c_send (h_heap (unlink c h) x))" for x
    using u(1) hub_invD(3) [OF assms(1)] by (auto simp: chan_ok_def)
  ultimately show ?thesis
    using distinct_rooms_unlink hub_invD(1,4) [OF assms(1)] u(4) by (auto simp: hub_inv_def)
qed

lemma unlink_step:
  assumes "hub_inv h" "is_member c h" "r = c_roomID (h_heap h c)"
  shows "same_static h (unlink c h)" "room_members r (unlink c h) = filter (\<lambda>x. x \<noteq> c) (room_members r h)"
    "r' \<noteq> r \<Longrightarrow> room_members r' (unlink c h) = room_members r' h"
    "live (unlink c h) x \<longleftrightarrow> live h x \<and> x \<noteq> c"
    "x \<noteq> c \<Longrightarrow> h_heap (unlink c h) x = h_heap h x"
    "clog (unlink c h) x = clog h x"
proof -
  have "live h c" using assms(1,2) by (rule is_member_live)
  note u = unlink_fields [OF this]
  show "same_static h (unlink c h)" by (simp add: same_static_def static_def u(1,2,3))
  show "room_members r (unlink c h) = filter (\<lambda>x. x \<noteq> c) (room_members r h)"
    by (simp add: u(6) assms(3) removeAll_filter)
  show "r' \<noteq> r \<Longrightarrow> room_members r' (unlink c h) = room_members r' h" by (simp add: u(6) assms(3))
  show "live (unlink c h) x \<longleftrightarrow> live h x \<and> x \<noteq> c" by (simp add: live_def u(1))
  show "x \<noteq> c \<Longrightarrow> h_heap (unlink c h) x = h_heap h x" by (simp add: u(1))
  show "clog (unlink c h) x = clog h x" by (simp add: clog_def history_def u(1))
qed

subsection \<open>The recursive operations are room steps\<close>

lemma room_step_unlink:
  assumes "hub_inv h" "is_member c h" "r = c_roomID (h_heap h c)"
    "room_step enc r (\<lambda>x. if x = c then [] else [left_data enc h c]) gone (unlink c h) h'"
  shows "room_step enc r (\<lambda>_. []) (c # gone) h h'"
proof -
  note u = unlink_step [OF assms(1,2,3)]
  have c: "c \<in> set (room_members r h)" using assms(2,3) by (simp add: is_member_def)
  have s: "same_static h h'" using u(1) assms(4) same_static_trans by (auto simp: room_step_def)
  have l: "left_data enc (unlink c h) = left_data enc h" using u(1) by (rule left_data_static)
  have "room_members r h' = filter (\<lambda>x. x \<notin> set (c # gone)) (room_members r h)"
    using assms(4) u(2) by (simp add: room_step_def filter_filter conj_commute)
  moreover have "\<forall>x. x \<notin> set (room_members r h) \<longrightarrow> h_heap (unlink c h) x = h_heap h x"
    using u(5) c by metis
  ultimately show ?thesis
    using assms(4) u c s l by (auto simp: room_step_def)
qed

lemma room_step_fan_out:
  assumes "fan_out (push S d) skip (iter_order S h (room_members r h)) h = (h1, st)"
    "hub_inv h" "valid_sched S" "room_step enc r (\<lambda>_. []) gone h1 h'"
    "set st \<inter> set (room_members r h1) \<subseteq> set gone"
  shows "room_step enc r (\<lambda>c. if skip c then [] else [d]) gone h h'"
proof -
  note f = fan_out_room [OF assms(1,2,3)]
  have m: "room_members r' h1 = room_members r' h" for r' using f by (simp add: room_members_def)
  have "same_static h h'" using f assms(4) same_static_trans by (auto simp: room_step_def)
  moreover have "left_data enc h1 = left_data enc h" using f left_data_static by blast
  moreover have "c \<notin> set st" if "c \<in> set (room_members r h')" for c
    using that assms(4,5) by (auto simp: room_step_def)
  ultimately show ?thesis
    using assms(4) f m by (auto simp: room_step_def)
qed

lemma hub_recursion:
  "valid_sched S \<Longrightarrow> encodes_left enc \<Longrightarrow> hub_inv h \<Longrightarrow> is_member c h \<Longrightarrow>
   \<exists>gone. hub_inv (fst (leave S enc c h)) \<and>
     room_step enc (c_roomID (h_heap h c)) (\<lambda>_. []) (c # gone) h (fst (leave S enc c h))"
  "valid_sched S \<Longrightarrow> encodes_left enc \<Longrightarrow> hub_inv h \<Longrightarrow>
   \<exists>gone. hub_inv (announce S enc r d e h) \<and>
     room_step enc r (\<lambda>c. if c = e then [] else [d]) gone h (announce S enc r d e h)"
  "valid_sched S \<Longrightarrow> encodes_left enc \<Longrightarrow> hub_inv h \<Longrightarrow> \<forall>c\<in>set cs. c_roomID (h_heap h c) = r' \<Longrightarrow>
   \<exists>gone. hub_inv (dropStalled S enc cs h) \<and> room_step enc r' (\<lambda>_. []) gone h (dropStalled S enc cs h) \<and>
     set cs \<inter> set (room_members r' h) \<subseteq> set gone"
proof (induction S enc c h and S enc r d e h and S enc cs h arbitrary: and and r' rule: leave_announce_dropStalled.induct)
  case (1 S enc c h)
  obtain d where d: "enc (peer_left (h_heap h c)) = Some d"
    using 1(3) by (auto simp: encodes_left_def)
  have ld: "d = left_data enc h c" using d by (simp add: left_data_def)
  have eq: "fst (leave S enc c h) = announce S enc (c_roomID (h_heap h c)) d c (unlink c h)"
    using 1(5) d by (simp add: leave.simps)
  obtain gone where g: "hub_inv (announce S enc (c_roomID (h_heap h c)) d c (unlink c h))"
    "room_step enc (c_roomID (h_heap h c)) (\<lambda>x. if x = c then [] else [d]) gone (unlink c h)
       (announce S enc (c_roomID (h_heap h c)) d c (unlink c h))"
    using 1(1) [OF _ refl d] 1(2,3,4,5) unlink_inv [OF 1(4,5)] by blast
  then show ?case
    using room_step_unlink [OF 1(4,5) refl] ld eq by auto
next
  case (2 S enc r data except h)
  obtain h1 st where f: "fan_out (push S data) (\<lambda>c. c = except) (iter_order S h (room_members r h)) h = (h1, st)"
    by (cases "fan_out (push S data) (\<lambda>c. c = except) (iter_order S h (room_members r h)) h")
  note fr = fan_out_room [OF f 2(4,2)]
  have "\<forall>c\<in>set st. c_roomID (h_heap h1 c) = r"
  proof
    fix c assume "c \<in> set st"
    with fr have "c \<in> set (room_members r h)" by blast
    with hub_invD(6) [OF 2(4) this] show "c_roomID (h_heap h1 c) = r"
      using fr same_staticD(4) [of h h1 c] by simp
  qed
  then obtain gone where g: "hub_inv (dropStalled S enc st h1)"
    "room_step enc r (\<lambda>_. []) gone h1 (dropStalled S enc st h1)"
    "set st \<inter> set (room_members r h1) \<subseteq> set gone"
    using 2(1) [OF f [symmetric], of r] 2(2,3) fr by blast
  moreover have "announce S enc r data except h = dropStalled S enc st h1"
    using f by (simp add: announce.simps)
  ultimately show ?case
    using room_step_fan_out [OF f 2(4,2) g(2,3)] by auto
next
  case (3 S enc h)
  then show ?case using room_step_refl by auto
next
  case (4 S enc c cs h)
  let ?h1 = "fst (leave S enc c h)"
  have "\<exists>g1. hub_inv ?h1 \<and> room_step enc r' (\<lambda>_. []) g1 h ?h1 \<and> {c} \<inter> set (room_members r' h) \<subseteq> set g1"
  proof (cases "is_member c h")
    case True
    with 4 show ?thesis by fastforce
  next
    case False
    then have "?h1 = h" by (simp add: leave.simps)
    moreover have "c \<notin> set (room_members r' h)" using False 4(6) by (simp add: is_member_def)
    ultimately show ?thesis using 4(5) room_step_refl [of enc r' h] by fastforce
  qed
  then obtain g1 where g1: "hub_inv ?h1" "room_step enc r' (\<lambda>_. []) g1 h ?h1"
    "{c} \<inter> set (room_members r' h) \<subseteq> set g1" by blast
  moreover have "\<forall>c\<in>set cs. c_roomID (h_heap ?h1 c) = r'"
  proof -
    have "same_static h ?h1" using g1(2) by (simp add: room_step_def)
    with 4(6) show ?thesis by (simp add: same_staticD(4))
  qed
  ultimately obtain g2 where g2: "hub_inv (dropStalled S enc cs ?h1)"
    "room_step enc r' (\<lambda>_. []) g2 ?h1 (dropStalled S enc cs ?h1)"
    "set cs \<inter> set (room_members r' ?h1) \<subseteq> set g2"
    using 4(2) [OF 4(3,4)] by blast
  have "set (c # cs) \<inter> set (room_members r' h) \<subseteq> set (g1 @ g2)"
    using g1(2,3) g2(3) by (auto simp: room_step_def)
  with g2 room_step_trans [OF g1(2) g2(2)] show ?case
    by (intro exI [of _ "g1 @ g2"]) simp
qed

subsection \<open>Delivery, departure, arrival\<close>

lemma encodes_left_encode [simp]: "encodes_left (encode jc)"
  using encode_no_payload by (auto simp: encodes_left_def peer_left_def)

abbreviation skips :: "message \<Rightarrow> hub \<Rightarrow> cref \<Rightarrow> bool" where
  "skips m h c \<equiv> c = m_sender m \<or> (m_to m \<noteq> [] \<and> c_userID (h_heap h c) \<noteq> m_to m)"

lemma deliver_step:
  assumes "hub_inv h" "valid_sched S" "encodes_left enc"
  shows "\<exists>gone. hub_inv (deliver S enc m h) \<and>
    room_step enc (m_room m) (\<lambda>c. if skips m h c then [] else [m_data m]) gone h (deliver S enc m h)"
proof -
  let ?r = "m_room m"
  obtain h1 st where f: "fan_out (push S (m_data m)) (skips m h) (iter_order S h (room_members ?r h)) h = (h1, st)"
    by (cases "fan_out (push S (m_data m)) (skips m h) (iter_order S h (room_members ?r h)) h")
  note fr = fan_out_room [OF f assms(1,2)]
  have "\<forall>c\<in>set st. c_roomID (h_heap h1 c) = ?r"
  proof
    fix c assume "c \<in> set st"
    with fr have "c \<in> set (room_members ?r h)" by blast
    with hub_invD(6) [OF assms(1) this] show "c_roomID (h_heap h1 c) = ?r"
      using fr same_staticD(4) [of h h1 c] by simp
  qed
  then obtain gone where g: "hub_inv (dropStalled S enc st h1)"
    "room_step enc ?r (\<lambda>_. []) gone h1 (dropStalled S enc st h1)"
    "set st \<inter> set (room_members ?r h1) \<subseteq> set gone"
    using hub_recursion(3) [OF assms(2,3)] fr by blast
  have "deliver S enc m h = dropStalled S enc st h1" using f by (simp add: deliver_def)
  with g(1) room_step_fan_out [OF f assms(1,2) g(2,3)] show ?thesis by auto
qed

lemma leave_not_member: "\<not> is_member c h \<Longrightarrow> leave S enc c h = (h, False)"
  by (simp add: leave.simps)

lemma snd_leave: "snd (leave S enc c h) = is_member c h"
  by (simp add: leave.simps Let_def split: option.splits)

lemma leave_inv:
  assumes "hub_inv h" "valid_sched S" "encodes_left enc"
  shows "hub_inv (fst (leave S enc c h))"
  using assms hub_recursion(1) [OF assms(2,3,1)] by (cases "is_member c h") (auto simp: leave_not_member)

text \<open>A client about to join: allocated, its channel open, not yet in its room.\<close>

definition joinable :: "cref \<Rightarrow> hub \<Rightarrow> bool" where
  "joinable c h \<longleftrightarrow> c < h_next h \<and> live h c \<and> \<not> is_member c h"

definition entered :: "cref \<Rightarrow> hub \<Rightarrow> hub" where
  "entered c h =
     (let r = c_roomID (h_heap h c);
          h0 = (if map_of (h_rooms h) r = None then h\<lparr>h_rooms := AList.update r [] (h_rooms h)\<rparr> else h)
      in h0\<lparr>h_rooms := AList.update r (List.insert c (room_members r h0)) (h_rooms h0),
            h_count := h_count h0 + 1\<rparr>)"

lemma entered_fields:
  "h_heap (entered c h) = h_heap h" "h_next (entered c h) = h_next h" "h_done (entered c h) = h_done h"
  "h_panic (entered c h) = h_panic h" "h_count (entered c h) = h_count h + 1"
  "room_members r (entered c h) =
     (if r = c_roomID (h_heap h c) then List.insert c (room_members r h) else room_members r h)"
  "map_of (h_rooms (entered c h)) r =
     (if r = c_roomID (h_heap h c) then Some (List.insert c (room_members r h)) else map_of (h_rooms h) r)"
  by (auto simp: entered_def Let_def room_members_def update_conv' members_of_def split: option.splits)

lemma entered_views:
  "live (entered c h) = live h" "clog (entered c h) = clog h" "same_static h (entered c h)"
  by (auto simp: live_def clog_def entered_fields same_static_def fun_eq_iff)

lemma total_len_update_Nil: "map_of al k = None \<Longrightarrow> total_len (AList.update k [] al) = total_len al"
  using total_len_update [of k "[]" al] by simp

lemma hub_size_entered:
  assumes "\<not> is_member c h"
  shows "hub_size (entered c h) = Suc (hub_size h)"
proof -
  let ?r = "c_roomID (h_heap h c)"
  let ?al = "if map_of (h_rooms h) ?r = None then AList.update ?r [] (h_rooms h) else h_rooms h"
  have m: "members_of ?al ?r = room_members ?r h"
    by (simp add: room_members_def)
  have "h_rooms (entered c h) = AList.update ?r (List.insert c (room_members ?r h)) ?al"
    using m by (auto simp: entered_def Let_def room_members_def)
  moreover have "length (List.insert c (room_members ?r h)) = Suc (length (room_members ?r h))"
    using assms by (simp add: is_member_def List.insert_def)
  ultimately show ?thesis
    using total_len_update [of ?r "List.insert c (room_members ?r h)" ?al] m
    by (auto simp: hub_size_def total_len_update_Nil split: if_splits)
qed

lemma entered_inv:
  assumes "hub_inv h" "joinable c h"
  shows "hub_inv (entered c h)"
proof -
  have "room_ok (entered c h) r ms" if "map_of (h_rooms (entered c h)) r = Some ms" for r ms
  proof (cases "r = c_roomID (h_heap h c)")
    case True
    with that have ms: "ms = List.insert c (room_members r h)" by (simp add: entered_fields)
    then have "c \<in> set ms" by simp
    then have "ms \<noteq> []" by auto
    with ms show ?thesis
      using True assms hub_invD(5,6) [OF assms(1), where r = r]
      by (auto simp: room_ok_def entered_fields entered_views joinable_def distinct_insert)
  next
    case False
    with that assms(1) show ?thesis
      by (auto simp: hub_inv_def room_ok_def entered_fields entered_views)
  qed
  moreover have "distinct (map fst (h_rooms (entered c h)))"
    using hub_invD(1) [OF assms(1)] by (simp add: entered_def Let_def distinct_update)
  moreover have "h_count (entered c h) = int (hub_size (entered c h))"
    using hub_invD(2) [OF assms(1)] hub_size_entered assms(2) by (simp add: entered_fields joinable_def)
  ultimately show ?thesis
    using hub_invD(3,4) [OF assms(1)] by (simp add: hub_inv_def entered_fields)
qed

definition join_peers :: "sched \<Rightarrow> cref \<Rightarrow> hub \<Rightarrow> Peer list" where
  "join_peers S c h =
     (let r = c_roomID (h_heap h c);
          h0 = (if map_of (h_rooms h) r = None then h\<lparr>h_rooms := AList.update r [] (h_rooms h)\<rparr> else h)
      in map (\<lambda>other. peer_of (h_heap h0 other)) (iter_order S h0 (room_members r h0)))"

lemma hub_join_eq:
  "hub_join S enc c h =
     (case enc (welcome_frame (h_heap h c) (join_peers S c h)) of
        None \<Rightarrow> entered c h
      | Some w \<Rightarrow>
          (case push S w c (entered c h) of (h2, ok) \<Rightarrow>
             if \<not> ok then fst (leave S enc c h2)
             else case enc (peer_joined (h_heap h c)) of
                    None \<Rightarrow> h2
                  | Some joined \<Rightarrow> announce S enc (c_roomID (h_heap h c)) joined c h2))"
  by (simp only: hub_join_def join_peers_def entered_def Let_def)

lemma join_peers_mset:
  assumes "valid_sched S"
  shows "mset (join_peers S c h) = mset (map (\<lambda>other. peer_of (h_heap h other)) (room_members (c_roomID (h_heap h c)) h))"
  using assms by (auto simp: join_peers_def Let_def valid_sched_def room_members_def)

lemma push_inv:
  assumes "hub_inv h" "live h c" "push S d c h = (h', ok)"
  shows "hub_inv h' \<and> (\<forall>r. room_members r h' = room_members r h) \<and> same_static h h'"
  using hub_inv_cong [OF assms(1), of h'] push_spec [OF assms(3,2)] h_rooms_push [OF assms(3)]
    hub_invD(3,4) [OF assms(1)] by (auto simp: room_members_def)

lemma push_ok:
  "live h c \<Longrightarrow> length (ch_buf (c_send (h_heap h c))) < ch_cap (c_send (h_heap h c)) \<Longrightarrow> snd (push S d c h)"
  by (auto simp: push_def Let_def live_def try_send_def set_send_views drain_def split: send_result.splits if_splits)

lemma join_inv:
  assumes "hub_inv h" "joinable c h" "valid_sched S" "encodes_left enc"
  shows "hub_inv (hub_join S enc c h)"
proof (cases "enc (welcome_frame (h_heap h c) (join_peers S c h))")
  case None
  then show ?thesis using entered_inv [OF assms(1,2)] by (simp add: hub_join_eq)
next
  case (Some w)
  obtain h2 ok where p: "push S w c (entered c h) = (h2, ok)" by (cases "push S w c (entered c h)")
  have "live (entered c h) c" using assms(2) by (simp add: entered_views joinable_def)
  with p entered_inv [OF assms(1,2)] have i: "hub_inv h2" using push_inv by blast
  show ?thesis
    using hub_recursion(2) [OF assms(3,4) i] leave_inv [OF i assms(3,4)] i Some p
    by (auto simp: hub_join_eq split: option.splits)
qed

lemma join_fresh:
  assumes "hub_inv h" "joinable c h" "valid_sched S"
    "length (ch_buf (c_send (h_heap h c))) < ch_cap (c_send (h_heap h c))"
    "r = c_roomID (h_heap h c)" "h' = hub_join S (encode jc) c h"
  shows "\<exists>peers w j gone.
    mset peers = mset (map (\<lambda>other. peer_of (h_heap h other)) (room_members r h)) \<and>
    encode jc (welcome_frame (h_heap h c) peers) = Some w \<and>
    encode jc (peer_joined (h_heap h c)) = Some j \<and>
    set (room_members r h') = insert c (set (room_members r h)) - set gone \<and>
    (\<forall>d\<in>set (room_members r h').
       clog h' d = clog h d @ [if d = c then w else j] @ map (left_data (encode jc) h) gone) \<and>
    (\<forall>d. d \<noteq> c \<and> d \<notin> set (room_members r h) \<longrightarrow> h_heap h' d = h_heap h d) \<and>
    (\<forall>r'. r' \<noteq> r \<longrightarrow> room_members r' h' = room_members r' h)"
proof -
  let ?peers = "join_peers S c h" and ?e = "entered c h"
  obtain w where w: "encode jc (welcome_frame (h_heap h c) ?peers) = Some w"
    using encode_no_payload by (metis Outbound.select_convs(3) welcome_frame_def)
  obtain j where j: "encode jc (peer_joined (h_heap h c)) = Some j"
    using encode_no_payload by (metis Outbound.select_convs(3) peer_joined_def)
  have l: "live ?e c" using assms(2) by (simp add: entered_views joinable_def)
  obtain h2 where p: "push S w c ?e = (h2, True)"
    using push_ok [OF l, of S w] assms(4) by (cases "push S w c ?e") (auto simp: entered_fields)
  note i = push_inv [OF entered_inv [OF assms(1,2)] l p] and ps = push_spec [OF p l]
  have h': "h' = announce S (encode jc) r j c h2"
    using w j p assms(5,6) by (simp add: hub_join_eq)
  obtain gone where g: "room_step (encode jc) r (\<lambda>x. if x = c then [] else [j]) gone h2 h'"
    using hub_recursion(2) [OF assms(3) encodes_left_encode] i h' by blast
  have s: "same_static h h2" using i entered_views(3) same_static_trans by blast
  have m: "room_members r h2 = List.insert c (room_members r h)"
    using i assms(5) by (simp add: entered_fields)
  have "clog h2 d = (if d = c then clog h c @ [w] else clog h d)" for d
    using ps by (simp add: entered_views)
  moreover have "h_heap h2 d = h_heap h d" if "d \<noteq> c" for d
    using ps that by (simp add: entered_fields)
  moreover have "room_members r' h2 = room_members r' h" if "r' \<noteq> r" for r'
    using i that assms(5) by (simp add: entered_fields)
  ultimately have "set (room_members r h') = insert c (set (room_members r h)) - set gone \<and>
    (\<forall>d\<in>set (room_members r h').
       clog h' d = clog h d @ [if d = c then w else j] @ map (left_data (encode jc) h) gone) \<and>
    (\<forall>d. d \<noteq> c \<and> d \<notin> set (room_members r h) \<longrightarrow> h_heap h' d = h_heap h d) \<and>
    (\<forall>r'. r' \<noteq> r \<longrightarrow> room_members r' h' = room_members r' h)"
    using g m left_data_static [OF s, of "encode jc"] by (auto simp: room_step_def)
  then show ?thesis
    using join_peers_mset [OF assms(3), of c h] w j assms(5) by blast
qed

subsection \<open>Shutdown\<close>

lemma fold_close_send:
  assumes "distinct cs" "\<forall>c\<in>set cs. live h c"
  shows "h_panic (fold close_send cs h) = h_panic h \<and>
    (\<forall>c. live (fold close_send cs h) c \<longleftrightarrow> live h c \<and> c \<notin> set cs) \<and>
    clog (fold close_send cs h) = clog h \<and> same_static h (fold close_send cs h) \<and>
    ((\<forall>x. chan_ok (c_send (h_heap h x))) \<longrightarrow> (\<forall>x. chan_ok (c_send (h_heap (fold close_send cs h) x))))"
  using assms
proof (induction cs arbitrary: h)
  case Nil
  then show ?case by simp
next
  case (Cons c cs)
  let ?h1 = "close_send c h"
  have e: "?h1 = set_send c ((c_send (h_heap h c))\<lparr>ch_closed := True\<rparr>) h"
    using Cons.prems by (simp add: live_def close_send_open)
  have l: "live ?h1 x \<longleftrightarrow> live h x \<and> x \<noteq> c" for x by (simp add: e set_send_views)
  have o: "clog ?h1 = clog h" "same_static h ?h1" "h_panic ?h1 = h_panic h"
    "(\<forall>x. chan_ok (c_send (h_heap h x))) \<longrightarrow> (\<forall>x. chan_ok (c_send (h_heap ?h1 x)))"
    by (auto simp: e set_send_views clog_def history_def chan_ok_def)
  have "\<forall>x\<in>set cs. live ?h1 x" using Cons.prems l by auto
  from Cons.IH [OF _ this] Cons.prems(1) l o show ?case
    using same_static_trans [OF o(2)] by auto
qed

lemma distinct_all_members:
  assumes "hub_inv h"
  shows "distinct (concat (map snd (h_rooms h)))"
proof -
  have "distinct ms \<and> (\<forall>c\<in>set ms. c_roomID (h_heap h c) = r)" if "(r, ms) \<in> set (h_rooms h)" for r ms
  proof -
    have "map_of (h_rooms h) r = Some ms" using that assms by (simp add: hub_inv_def map_of_is_SomeI)
    then show ?thesis using assms by (simp add: hub_inv_def room_ok_def)
  qed
  with hub_invD(1) [OF assms] show ?thesis by (rule distinct_concat_members)
qed

lemma all_members_iff:
  assumes "hub_inv h"
  shows "c \<in> set (concat (map snd (h_rooms h))) \<longleftrightarrow> is_member c h"
proof
  assume "c \<in> set (concat (map snd (h_rooms h)))"
  then obtain r ms where "(r, ms) \<in> set (h_rooms h)" "c \<in> set ms" by auto
  then have "map_of (h_rooms h) r = Some ms" using assms by (simp add: hub_inv_def map_of_is_SomeI)
  with \<open>c \<in> set ms\<close> have "c \<in> set (room_members r h)" by (simp add: room_members_def)
  with assms show "is_member c h" by (simp add: is_member_iff)
next
  assume "is_member c h"
  then obtain ms where "map_of (h_rooms h) (c_roomID (h_heap h c)) = Some ms" "c \<in> set ms"
    using mem_members_of [of c "h_rooms h" "c_roomID (h_heap h c)"]
    by (auto simp: is_member_def room_members_def)
  then show "c \<in> set (concat (map snd (h_rooms h)))" by (force dest: map_of_SomeD)
qed

lemma closeAll_spec:
  assumes "hub_inv h"
  shows "hub_inv (closeAll h) \<and> h_rooms (closeAll h) = [] \<and> clog (closeAll h) = clog h \<and>
    same_static h (closeAll h) \<and> (\<forall>c. live (closeAll h) c \<longleftrightarrow> live h c \<and> \<not> is_member c h)"
proof -
  let ?cs = "concat (map snd (h_rooms h))"
  have "\<forall>c\<in>set ?cs. live h c" using all_members_iff [OF assms] is_member_live [OF assms] by blast
  note f = fold_close_send [OF distinct_all_members [OF assms] this]
  have v: "live (closeAll h) = live (fold close_send ?cs h)" "clog (closeAll h) = clog (fold close_send ?cs h)"
    "same_static (fold close_send ?cs h) (closeAll h)"
    by (auto simp: closeAll_def Let_def live_def clog_def fun_eq_iff same_static_def)
  then show ?thesis
    using f hub_invD(3,4) [OF assms] same_static_trans [OF _ v(3)]
    unfolding all_members_iff [OF assms]
    by (auto simp: hub_inv_def hub_size_def closeAll_def Let_def)
qed

end
