(* ===== verification/TokenBucket.thy ===== *)
theory TokenBucket
  imports Prelude
begin

text \<open>
  \<^verbatim>\<open>internal/signaling/ratelimit.go\<close>: the inbound message budget of one connection.  The bucket's
  \<^verbatim>\<open>float64\<close> fields are exact real numbers here; \<^verbatim>\<open>Time.Sub\<close> saturates at the range of a 64-bit
  duration, as in Go.
\<close>

definition messageBurst :: real where "messageBurst = 120"
definition messagesPerSecond :: real where "messagesPerSecond = 60"

definition max_duration :: duration where "max_duration = 2 ^ 63 - 1"
definition min_duration :: duration where "min_duration = - (2 ^ 63)"

definition time_sub :: "gotime \<Rightarrow> gotime \<Rightarrow> duration" where
  "time_sub t u = max min_duration (min max_duration (t - u))"

definition seconds :: "duration \<Rightarrow> real" where
  "seconds d = real_of_int d / 1000000000"

record tokenBucket =
  tb_tokens :: real
  tb_capacity :: real
  tb_rate :: real
  tb_last :: gotime

definition newTokenBucket :: "real \<Rightarrow> real \<Rightarrow> gotime \<Rightarrow> tokenBucket" where
  "newTokenBucket capacity ratePerSecond now =
     \<lparr>tb_tokens = capacity, tb_capacity = capacity, tb_rate = ratePerSecond, tb_last = now\<rparr>"

definition allow :: "gotime \<Rightarrow> tokenBucket \<Rightarrow> tokenBucket \<times> bool" where
  "allow now b =
     (let elapsed = seconds (time_sub now (tb_last b));
          b1 = (if elapsed > 0
                then (let t = tb_tokens b + elapsed * tb_rate b
                      in b\<lparr>tb_tokens := (if t > tb_capacity b then tb_capacity b else t), tb_last := now\<rparr>)
                else b)
      in if tb_tokens b1 < 1 then (b1, False)
         else (b1\<lparr>tb_tokens := tb_tokens b1 - 1\<rparr>, True))"

text \<open>The calls of one connection, in order, and how many were granted.\<close>

fun run_bucket :: "gotime list \<Rightarrow> tokenBucket \<Rightarrow> tokenBucket \<times> nat" where
  "run_bucket [] b = (b, 0)"
| "run_bucket (t # ts) b =
     (case allow t b of (b1, ok) \<Rightarrow>
       (case run_bucket ts b1 of (b2, n) \<Rightarrow> (b2, if ok then Suc n else n)))"

definition bucket_ok :: "tokenBucket \<Rightarrow> bool" where
  "bucket_ok b \<longleftrightarrow> 0 \<le> tb_tokens b \<and> tb_tokens b \<le> tb_capacity b \<and> 0 \<le> tb_rate b"

lemma time_sub_le: "0 \<le> t - u \<Longrightarrow> time_sub t u \<le> t - u"
  by (simp add: time_sub_def min_duration_def max_duration_def)

lemma time_sub_pos: "0 < time_sub t u \<longleftrightarrow> u < t"
  by (simp add: time_sub_def min_duration_def max_duration_def max_def min_def)

lemma seconds_pos [simp]: "0 < seconds d \<longleftrightarrow> 0 < d"
  by (simp add: seconds_def)

lemma seconds_mono: "d \<le> e \<Longrightarrow> seconds d \<le> seconds e"
  by (simp add: seconds_def divide_right_mono)

lemma seconds_add: "seconds (d + e) = seconds d + seconds e"
  by (simp add: seconds_def add_divide_distrib)

text \<open>One call: the tokens left, plus the one handed out, are at most what was there plus what
  accrued; the clock of the bucket never goes back.\<close>

lemma allow_potential:
  assumes "bucket_ok b" "allow t b = (b', ok)"
  shows "bucket_ok b' \<and> tb_capacity b' = tb_capacity b \<and> tb_rate b' = tb_rate b \<and>
    tb_last b' = max (tb_last b) t \<and>
    tb_tokens b' + (if ok then 1 else 0) \<le> tb_tokens b + tb_rate b * seconds (tb_last b' - tb_last b)"
proof (cases "tb_last b < t")
  case True
  have s: "0 < seconds (time_sub t (tb_last b))" using True by (simp add: time_sub_pos)
  have "seconds (time_sub t (tb_last b)) \<le> seconds (t - tb_last b)"
    using True by (intro seconds_mono time_sub_le) simp
  then have r: "seconds (time_sub t (tb_last b)) * tb_rate b \<le> tb_rate b * seconds (t - tb_last b)"
    using assms(1) by (simp add: bucket_ok_def mult.commute mult_left_mono)
  have n: "0 \<le> seconds (time_sub t (tb_last b)) * tb_rate b"
    using s assms(1) by (intro mult_nonneg_nonneg) (auto simp: bucket_ok_def simp del: seconds_pos)
  show ?thesis
    using assms True s r n by (auto simp: allow_def Let_def bucket_ok_def max_def split: if_splits)
next
  case False
  then have "\<not> 0 < seconds (time_sub t (tb_last b))" by (simp add: time_sub_pos)
  then show ?thesis
    using assms False by (auto simp: allow_def Let_def bucket_ok_def max_def seconds_def split: if_splits)
qed

lemma run_bucket_potential:
  assumes "bucket_ok b" "run_bucket ts b = (b', n)"
  shows "bucket_ok b' \<and> tb_capacity b' = tb_capacity b \<and> tb_rate b' = tb_rate b \<and>
    tb_last b \<le> tb_last b' \<and> tb_last b' \<in> insert (tb_last b) (set ts) \<and>
    tb_tokens b' + real n \<le> tb_tokens b + tb_rate b * seconds (tb_last b' - tb_last b)"
  using assms
proof (induction ts arbitrary: b b' n)
  case Nil
  then show ?case by (simp add: seconds_def)
next
  case (Cons t ts)
  obtain b1 ok where a: "allow t b = (b1, ok)" by (cases "allow t b")
  obtain k where r: "run_bucket ts b1 = (b', k)" and n: "n = (if ok then Suc k else k)"
    using Cons.prems(2) a by (auto split: prod.splits)
  note p = allow_potential [OF Cons.prems(1) a]
  have ok1: "bucket_ok b1" using p by blast
  note q = Cons.IH [OF ok1 r]
  have "seconds (tb_last b' - tb_last b) = seconds (tb_last b' - tb_last b1) + seconds (tb_last b1 - tb_last b)"
    using seconds_add [of "tb_last b' - tb_last b1" "tb_last b1 - tb_last b"] by simp
  then have "tb_rate b * seconds (tb_last b' - tb_last b) =
      tb_rate b1 * seconds (tb_last b' - tb_last b1) + tb_rate b * seconds (tb_last b1 - tb_last b)"
    using p by (simp add: distrib_left)
  moreover have "real n = real k + (if ok then 1 else 0)" using n by simp
  ultimately have "tb_tokens b' + real n \<le> tb_tokens b + tb_rate b * seconds (tb_last b' - tb_last b)"
    using p q by linarith
  moreover have "tb_last b1 \<in> insert (tb_last b) (set (t # ts))" "tb_last b \<le> tb_last b1"
    using p by (simp_all add: max_def)
  ultimately show ?case using p q by auto
qed

text \<open>A call that comes at least one refill interval after the last is granted.\<close>

lemma allow_spaced:
  assumes "bucket_ok b" "1 \<le> tb_capacity b" "1 \<le> tb_rate b * seconds (t - tb_last b)"
    "t - tb_last b \<le> max_duration"
  shows "snd (allow t b)"
proof -
  have "0 < seconds (t - tb_last b)"
  proof (rule ccontr)
    assume "\<not> 0 < seconds (t - tb_last b)"
    then have "seconds (t - tb_last b) \<le> 0" by linarith
    then have "tb_rate b * seconds (t - tb_last b) \<le> 0"
      using assms(1) by (intro mult_nonneg_nonpos) (simp_all add: bucket_ok_def)
    with assms(3) show False by simp
  qed
  then have "time_sub t (tb_last b) = t - tb_last b"
    using assms(4) by (simp add: time_sub_def min_duration_def)
  with \<open>0 < seconds (t - tb_last b)\<close> assms show ?thesis
    by (auto simp: allow_def Let_def bucket_ok_def mult.commute)
qed

text \<open>While there are tokens nothing is refused, whenever the calls come.\<close>

lemma allow_burst:
  assumes "bucket_ok b" "1 \<le> tb_tokens b" "allow t b = (b', ok)"
  shows "ok \<and> tb_tokens b - 1 \<le> tb_tokens b'"
proof -
  have "0 \<le> seconds (time_sub t (tb_last b)) * tb_rate b" if "0 < seconds (time_sub t (tb_last b))"
    using that assms(1) by (intro mult_nonneg_nonneg) (auto simp: bucket_ok_def simp del: seconds_pos)
  then show ?thesis
    using assms by (auto simp: allow_def Let_def bucket_ok_def split: if_splits)
qed

lemma run_bucket_burst:
  assumes "bucket_ok b" "real (length ts) \<le> tb_tokens b"
  shows "snd (run_bucket ts b) = length ts"
  using assms
proof (induction ts arbitrary: b)
  case (Cons t ts)
  obtain b1 ok where a: "allow t b = (b1, ok)" by (cases "allow t b")
  have "ok \<and> tb_tokens b - 1 \<le> tb_tokens b1"
    using allow_burst [OF Cons.prems(1) _ a] Cons.prems(2) by simp
  moreover have "bucket_ok b1" using allow_potential [OF Cons.prems(1) a] by blast
  ultimately have "snd (run_bucket ts b1) = length ts" and ok
    using Cons.IH [of b1] Cons.prems(2) by simp_all
  with a show ?case by (cases "run_bucket ts b1") simp
qed simp

end
