(* ===== verification/WebSocket.thy ===== *)
theory WebSocket
  imports Prelude
begin

text \<open>
  What the two websocket packages use of the websocket library: the close codes they send, the
  events a connection's reader and writer see, and the frames a writer puts on the wire.  Whether a
  read or a write succeeds is decided by the network and is part of the events.
\<close>

datatype close_code = CloseNormalClosure | CloseGoingAway | CloseUnsupportedData | ClosePolicyViolation
datatype frame_type = TextMessage | BinaryMessage

datatype ws_read = ReadFrame frame_type string gotime | ReadError

datatype write_event = FromSend string | SendClosed | Tick
datatype wire = WireText string | WirePing | WireClose close_code string | WireEOF

end
