(* ===== verification/SignalingClient.thy ===== *)
theory SignalingClient
  imports HubProofs TokenBucket WebSocket "HOL-Library.Word"
begin

text \<open>
  \<^verbatim>\<open>internal/signaling/client.go\<close>: the websocket endpoint and the two goroutines of a connection.
  The pumps are functions over the events the connection produces (frames read with their arrival
  times, frames taken from the send channel, ticks); what the websocket library and the operating
  system decide, such as whether a read or write fails, is part of those events.
\<close>

definition writeWait :: duration where "writeWait = 10 * second"
definition pongWait :: duration where "pongWait = 60 * second"
definition pingPeriod :: duration where "pingPeriod = (pongWait * 9) div 10"
definition maxMessageSize :: nat where "maxMessageSize = 65536"
definition sendBufferSize :: nat where "sendBufferSize = 64"

datatype read_action = Publish message | WriteClose close_code string | Drop cref | CloseConn

datatype read_exit = StillReading | ReadFailed | NonText | RateExceeded

subsection \<open>The reader\<close>

text \<open>What one inbound text frame turns into: nothing when it does not parse, has a type a client may
  not send, or does not encode; otherwise the message handed to the hub, its sender stamped.\<close>

definition relayed ::
    "(string \<Rightarrow> string option) \<Rightarrow> (string \<Rightarrow> Inbound option) \<Rightarrow> cref \<Rightarrow> client \<Rightarrow> string \<Rightarrow> message option" where
  "relayed jc unmarshal c cl data =
     (case parseInbound unmarshal data of
        Inl _ \<Rightarrow> None
      | Inr inb \<Rightarrow>
          (case encode jc \<lparr>out_Type = in_Type inb, out_From = c_userID cl,
                           out_Payload = in_Payload inb, out_Peers = []\<rparr> of
             None \<Rightarrow> None
           | Some out \<Rightarrow> Some \<lparr>m_room = c_roomID cl, m_sender = c, m_to = in_To inb, m_data = out\<rparr>))"

text \<open>The loop of \<^verbatim>\<open>readPump\<close>; \<open>StillReading\<close> means the events so far did not end it.\<close>

fun read_loop ::
    "(string \<Rightarrow> string option) \<Rightarrow> (string \<Rightarrow> Inbound option) \<Rightarrow> cref \<Rightarrow> client \<Rightarrow> tokenBucket \<Rightarrow> ws_read list \<Rightarrow>
     read_action list \<times> read_exit" where
  "read_loop jc unmarshal c cl b [] = ([], StillReading)"
| "read_loop jc unmarshal c cl b (ReadError # evs) = ([], ReadFailed)"
| "read_loop jc unmarshal c cl b (ReadFrame ty data now # evs) =
     (if ty \<noteq> TextMessage then ([WriteClose CloseUnsupportedData ''text frames only''], NonText)
      else case allow now b of (b', ok) \<Rightarrow>
        if \<not> ok then ([WriteClose ClosePolicyViolation ''message rate exceeded''], RateExceeded)
        else case read_loop jc unmarshal c cl b' evs of (acts, ex) \<Rightarrow>
          (case relayed jc unmarshal c cl data of
             None \<Rightarrow> (acts, ex)
           | Some m \<Rightarrow> (Publish m # acts, ex)))"

text \<open>The whole goroutine: the deferred unregistration and close run on every exit.\<close>

definition readPump ::
    "(string \<Rightarrow> string option) \<Rightarrow> (string \<Rightarrow> Inbound option) \<Rightarrow> bool \<Rightarrow> gotime \<Rightarrow> cref \<Rightarrow> client \<Rightarrow> ws_read list \<Rightarrow>
     read_action list" where
  "readPump jc unmarshal deadline_ok now c cl evs =
     (if \<not> deadline_ok then [Drop c, CloseConn]
      else case read_loop jc unmarshal c cl (newTokenBucket messageBurst messagesPerSecond now) evs of
        (acts, ex) \<Rightarrow> acts @ (if ex = StillReading then [] else [Drop c, CloseConn]))"

subsection \<open>The writer\<close>

text \<open>\<^verbatim>\<open>writePump\<close>: each event comes with whether the write it causes succeeds; the last component
  says whether the goroutine has ended.\<close>

fun write_loop :: "(write_event \<times> bool) list \<Rightarrow> wire list \<times> bool" where
  "write_loop [] = ([], False)"
| "write_loop ((FromSend d, ok) # evs) =
     (if ok then (case write_loop evs of (ws, e) \<Rightarrow> (WireText d # ws, e)) else ([], True))"
| "write_loop ((SendClosed, ok) # evs) = (if ok then [WireClose CloseNormalClosure []] else [], True)"
| "write_loop ((Tick, ok) # evs) =
     (if ok then (case write_loop evs of (ws, e) \<Rightarrow> (WirePing # ws, e)) else ([], True))"

definition writePump :: "(write_event \<times> bool) list \<Rightarrow> wire list" where
  "writePump evs = (case write_loop evs of (ws, ended) \<Rightarrow> ws @ (if ended then [WireEOF] else []))"

subsection \<open>The hub's entry points\<close>

text \<open>\<^verbatim>\<open>add\<close>, \<^verbatim>\<open>drop\<close> and \<^verbatim>\<open>publish\<close> hand a request to the goroutine running \<^verbatim>\<open>Run\<close>, which performs
  it, or give up when \<^verbatim>\<open>done\<close> is closed.\<close>

definition hub_add :: "sched \<Rightarrow> encoder \<Rightarrow> cref \<Rightarrow> hub \<Rightarrow> hub \<times> bool" where
  "hub_add S enc c h = (if h_done h then (h, False) else (hub_join S enc c h, True))"

definition hub_drop :: "sched \<Rightarrow> encoder \<Rightarrow> cref \<Rightarrow> hub \<Rightarrow> hub" where
  "hub_drop S enc c h = (if h_done h then h else fst (leave S enc c h))"

definition hub_publish :: "sched \<Rightarrow> encoder \<Rightarrow> message \<Rightarrow> hub \<Rightarrow> hub" where
  "hub_publish S enc m h = (if h_done h then h else deliver S enc m h)"

text \<open>\<^verbatim>\<open>Run\<close> leaving its loop: the deferred \<^verbatim>\<open>closeAll\<close>, then \<^verbatim>\<open>close(h.done)\<close>.\<close>

definition hub_stop :: "hub \<Rightarrow> hub" where
  "hub_stop h = (closeAll h)\<lparr>h_done := True\<rparr>"

subsection \<open>The endpoint\<close>

datatype resolve_error = ErrRoomNotFound | ResolveFailed

datatype ws_result = Fail nat string | UpgradeFailed | Refused close_code string | Attached cref

definition new_client :: "string \<Rightarrow> string \<Rightarrow> string \<Rightarrow> string \<Rightarrow> hub \<Rightarrow> hub \<times> cref" where
  "new_client i userID displayName roomID h =
     (let c = h_next h;
          cl = \<lparr>c_id = i, c_userID = userID, c_displayName = displayName, c_roomID = roomID,
                c_send = make_chan sendBufferSize\<rparr>
      in (h\<lparr>h_heap := (h_heap h)(c := cl), h_next := Suc c\<rparr>, c))"

text \<open>
  \<open>auth\<close> is the result of \<^verbatim>\<open>AuthenticateWS\<close>, \<open>slug\<close> the \<^verbatim>\<open>room\<close> query parameter, \<open>resolve\<close> the
  room resolver, \<open>upgraded\<close> whether the websocket upgrade succeeded, \<open>ids\<close> the process-wide
  connection counter.
\<close>

definition ServeHTTP ::
    "sched \<Rightarrow> encoder \<Rightarrow> 'e + (string \<times> string) \<Rightarrow> string \<Rightarrow> (string \<Rightarrow> resolve_error + string) \<Rightarrow> bool \<Rightarrow>
     64 word \<Rightarrow> hub \<Rightarrow> hub \<times> 64 word \<times> ws_result" where
  "ServeHTTP S enc auth slug resolve upgraded ids h =
     (case auth of
        Inl _ \<Rightarrow> (h, ids, Fail 401 ''unauthenticated'')
      | Inr (userID, displayName) \<Rightarrow>
          if slug = [] then (h, ids, Fail 400 ''room_required'')
          else case resolve slug of
            Inl ErrRoomNotFound \<Rightarrow> (h, ids, Fail 404 ''room_not_found'')
          | Inl ResolveFailed \<Rightarrow> (h, ids, Fail 500 ''internal_error'')
          | Inr roomID \<Rightarrow>
              if \<not> upgraded then (h, ids, UpgradeFailed)
              else let ids' = ids + 1
                   in case new_client (format_nat (unat ids')) userID displayName roomID h of (h1, c) \<Rightarrow>
                     (case hub_add S enc c h1 of (h2, ok) \<Rightarrow>
                        (h2, ids', if ok then Attached c else Refused CloseGoingAway ''server shutting down'')))"

end
