(* ===== verification/SignalingSystem.thy ===== *)
theory SignalingSystem
  imports SignalingClient
begin

text \<open>
  The signaling server as a transition system: connections being accepted, the hub taking one
  request after the other, writers draining their channels, and shutdown, in any interleaving and
  under any schedule.  Then the properties of the signaling component.
\<close>

record sys =
  sy_hub :: hub
  sy_pending :: "cref set"
  sy_reading :: "cref set"

text \<open>
  \<open>sy_pending\<close>: connections \<^verbatim>\<open>ServeHTTP\<close> has created and is handing to the hub; \<open>sy_reading\<close>:
  connections whose \<^verbatim>\<open>readPump\<close> is running.
\<close>

inductive sys_step :: "(string \<Rightarrow> string option) \<Rightarrow> sys \<Rightarrow> sys \<Rightarrow> bool" for jc where
  accept: "new_client i u d r (sy_hub s) = (h', c) \<Longrightarrow>
     sys_step jc s (s\<lparr>sy_hub := h', sy_pending := insert c (sy_pending s)\<rparr>)"
| register: "c \<in> sy_pending s \<Longrightarrow> valid_sched S \<Longrightarrow> hub_add S (encode jc) c (sy_hub s) = (h', True) \<Longrightarrow>
     sys_step jc s (s\<lparr>sy_hub := h', sy_pending := sy_pending s - {c}, sy_reading := insert c (sy_reading s)\<rparr>)"
| refuse: "c \<in> sy_pending s \<Longrightarrow> hub_add S (encode jc) c (sy_hub s) = (h', False) \<Longrightarrow>
     sys_step jc s (s\<lparr>sy_hub := h', sy_pending := sy_pending s - {c}\<rparr>)"
| publish: "c \<in> sy_reading s \<Longrightarrow> valid_sched S \<Longrightarrow> m_sender m = c \<Longrightarrow>
     m_room m = c_roomID (h_heap (sy_hub s) c) \<Longrightarrow>
     sys_step jc s (s\<lparr>sy_hub := hub_publish S (encode jc) m (sy_hub s)\<rparr>)"
| unregister: "c \<in> sy_reading s \<Longrightarrow> valid_sched S \<Longrightarrow>
     sys_step jc s (s\<lparr>sy_hub := hub_drop S (encode jc) c (sy_hub s), sy_reading := sy_reading s - {c}\<rparr>)"
| writer: "sys_step jc s (s\<lparr>sy_hub := set_send c (drain n (c_send (h_heap (sy_hub s) c))) (sy_hub s)\<rparr>)"
| stop: "\<not> h_done (sy_hub s) \<Longrightarrow> sys_step jc s (s\<lparr>sy_hub := hub_stop (sy_hub s)\<rparr>)"

inductive sys_reach :: "(string \<Rightarrow> string option) \<Rightarrow> sys \<Rightarrow> bool" for jc where
  start: "(\<And>c. chan_ok (c_send (heap c))) \<Longrightarrow>
     sys_reach jc \<lparr>sy_hub = NewHub heap, sy_pending = {}, sy_reading = {}\<rparr>"
| more: "sys_reach jc s \<Longrightarrow> sys_step jc s s' \<Longrightarrow> sys_reach jc s'"

definition sys_inv :: "sys \<Rightarrow> bool" where
  "sys_inv s \<longleftrightarrow>
     hub_inv (sy_hub s) \<and>
     (\<forall>c\<in>sy_pending s. joinable c (sy_hub s)) \<and>
     sy_pending s \<inter> sy_reading s = {} \<and>
     (\<forall>c\<in>sy_reading s. c < h_next (sy_hub s)) \<and>
     (h_done (sy_hub s) \<longrightarrow> h_rooms (sy_hub s) = [])"

text \<open>An operation in one room leaves a waiting connection as it is.\<close>

lemma room_step_joinable:
  assumes "room_step enc r pre gone h h'" "hub_inv h" "hub_inv h'" "joinable c h"
  shows "joinable c h'"
proof -
  have s: "same_static h h'" using assms(1) by (simp add: room_step_def)
  have n: "c \<notin> set (room_members r h)"
    using assms(2,4) is_member_iff by (auto simp: joinable_def)
  then have "live h' c" using assms(1,4) by (auto simp: room_step_def joinable_def)
  moreover have "\<not> is_member c h'"
  proof
    assume "is_member c h'"
    then have "c \<in> set (room_members (c_roomID (h_heap h c)) h')"
      by (simp add: is_member_def same_staticD(4) [OF s])
    then have "c \<in> set (room_members (c_roomID (h_heap h c)) h)"
      using assms(1) n by (cases "c_roomID (h_heap h c) = r") (auto simp: room_step_def)
    with assms(4) show False by (simp add: joinable_def is_member_def)
  qed
  ultimately show ?thesis using assms(4) same_staticD(6) [OF s] by (simp add: joinable_def)
qed

lemma room_step_static: "room_step enc r pre gone h h' \<Longrightarrow> same_static h h'"
  by (simp add: room_step_def)

lemma deliver_keeps:
  assumes "hub_inv h" "valid_sched S" "encodes_left enc"
  shows "hub_inv (deliver S enc m h) \<and> same_static h (deliver S enc m h) \<and>
    (joinable c h \<longrightarrow> joinable c (deliver S enc m h))"
  using deliver_step [OF assms, of m] room_step_joinable assms(1) room_step_static by blast

lemma leave_keeps:
  assumes "hub_inv h" "valid_sched S" "encodes_left enc"
  shows "hub_inv (fst (leave S enc c h)) \<and> same_static h (fst (leave S enc c h)) \<and>
    (joinable d h \<longrightarrow> joinable d (fst (leave S enc c h)))"
proof (cases "is_member c h")
  case True
  from hub_recursion(1) [OF assms(2,3,1) this] show ?thesis
    using room_step_joinable assms(1) room_step_static by blast
next
  case False
  then show ?thesis using assms(1) by (simp add: leave_not_member)
qed

lemma joinable_cong:
  assumes "same_static h h'" "live h' d = live h d" "\<forall>r. room_members r h' = room_members r h"
  shows "joinable d h' = joinable d h"
  using assms same_staticD(4,6) [OF assms(1)] by (simp add: joinable_def is_member_def)

lemma join_keeps:
  assumes "hub_inv h" "joinable c h" "valid_sched S" "encodes_left enc" "d \<noteq> c"
  shows "same_static h (hub_join S enc c h) \<and> (joinable d h \<longrightarrow> joinable d (hub_join S enc c h))"
proof -
  let ?e = "entered c h"
  have e: "hub_inv ?e" "joinable d h \<longrightarrow> joinable d ?e" "live ?e c"
    using entered_inv [OF assms(1,2)] assms(2,5)
    by (auto simp: joinable_def is_member_def entered_fields entered_views)
  show ?thesis
  proof (cases "enc (welcome_frame (h_heap h c) (join_peers S c h))")
    case None
    then show ?thesis using e entered_views(3) by (simp add: hub_join_eq)
  next
    case (Some w)
    obtain h2 ok where p: "push S w c ?e = (h2, ok)" by (cases "push S w c ?e")
    note i = push_inv [OF e(1,3) p] and ps = push_spec [OF p e(3)]
    have j: "joinable d h \<longrightarrow> joinable d h2" using joinable_cong [of ?e h2 d] e(2) i ps by simp
    have s: "same_static h h2" using i entered_views(3) same_static_trans by blast
    have "same_static h2 (hub_join S enc c h) \<and> (joinable d h2 \<longrightarrow> joinable d (hub_join S enc c h))"
    proof (cases ok)
      case False
      with Some p show ?thesis using leave_keeps [OF _ assms(3,4)] i by (simp add: hub_join_eq)
    next
      case True
      show ?thesis
      proof (cases "enc (peer_joined (h_heap h c))")
        case None
        with Some p True show ?thesis by (simp add: hub_join_eq)
      next
        case j: (Some jd)
        from hub_recursion(2) [OF assms(3,4), of h2] i
        show ?thesis using j Some p True room_step_joinable room_step_static
          by (simp add: hub_join_eq) blast
      qed
    qed
    with j s show ?thesis using same_static_trans by blast
  qed
qed

lemma sys_inv_hub:
  assumes "sys_inv s" "hub_inv h'" "same_static (sy_hub s) h'" "\<not> h_done (sy_hub s)"
    "\<And>x. joinable x (sy_hub s) \<longrightarrow> joinable x h'" "R \<subseteq> sy_reading s"
  shows "sys_inv (s\<lparr>sy_hub := h', sy_reading := R\<rparr>)"
  using assms same_staticD(6,7) [OF assms(3)] by (auto simp: sys_inv_def)

lemma accept_inv:
  assumes hyp: "new_client i u d r (sy_hub s) = (h', c)" and prem: "sys_inv s"
  shows "sys_inv (s\<lparr>sy_hub := h', sy_pending := insert c (sy_pending s)\<rparr>)"
proof -
  have inv: "hub_inv (sy_hub s)" using prem by (simp add: sys_inv_def)
  have h': "c = h_next (sy_hub s)" "h_rooms h' = h_rooms (sy_hub s)" "h_next h' = Suc c"
    "h_count h' = h_count (sy_hub s)" "h_panic h' = h_panic (sy_hub s)" "h_done h' = h_done (sy_hub s)"
    "\<And>x. x \<noteq> c \<Longrightarrow> h_heap h' x = h_heap (sy_hub s) x" "c_send (h_heap h' c) = make_chan sendBufferSize"
    using hyp by (auto simp: new_client_def Let_def)
  have nm: "c \<notin> set (room_members r' (sy_hub s))" for r'
    using hub_invD(6) [OF inv, of c r'] h'(1) by auto
  have "room_ok h' r' ms" if "map_of (h_rooms h') r' = Some ms" for r' ms
  proof -
    have m: "map_of (h_rooms (sy_hub s)) r' = Some ms" using that h'(2) by simp
    then have "c \<notin> set ms" using nm [of r'] by (simp add: room_members_def)
    moreover have "room_ok (sy_hub s) r' ms" using m inv by (simp add: hub_inv_def)
    ultimately show ?thesis using h'(1,3,7) by (auto simp: room_ok_def live_def)
  qed
  moreover have "chan_ok (c_send (h_heap h' x))" for x
    using h'(7,8) hub_invD(3) [OF inv] by (cases "x = c") auto
  ultimately have "hub_inv h'" using inv h'(2,4,5) by (simp add: hub_inv_def hub_size_def)
  moreover have mem: "room_members r' h' = room_members r' (sy_hub s)" for r'
    using h'(2) by (simp add: room_members_def)
  have "joinable c h'" using h'(3,8) nm mem by (simp add: joinable_def live_def is_member_def)
  moreover have "joinable x h'" if "x \<in> sy_pending s" for x
  proof -
    have "joinable x (sy_hub s)" using that prem by (simp add: sys_inv_def)
    moreover then have "x \<noteq> c" using h'(1) by (auto simp: joinable_def)
    ultimately show ?thesis using h'(1,3,7) mem by (simp add: joinable_def is_member_def live_def)
  qed
  moreover have "c \<notin> sy_reading s" using prem h'(1) by (auto simp: sys_inv_def)
  ultimately show ?thesis using prem h'(1,2,3,6) by (auto simp: sys_inv_def)
qed

lemma sys_step_inv:
  assumes "sys_step jc s s'" "sys_inv s"
  shows "sys_inv s'"
  using assms
proof (induction rule: sys_step.induct)
  case (accept i u d r s h' c)
  then show ?case by (rule accept_inv)
next
  case (register c s S h')
  have inv: "hub_inv (sy_hub s)" and j: "joinable c (sy_hub s)"
    using register by (auto simp: sys_inv_def)
  have h': "h' = hub_join S (encode jc) c (sy_hub s)" "\<not> h_done (sy_hub s)"
    using register.hyps(3) by (auto simp: hub_add_def split: if_splits)
  note k = join_keeps [OF inv j register.hyps(2) encodes_left_encode]
  have s: "same_static (sy_hub s) h'" using k [of "Suc c"] h'(1) by auto
  have "hub_inv h'" using join_inv [OF inv j register.hyps(2) encodes_left_encode] h'(1) by simp
  moreover have "joinable x h'" if "x \<in> sy_pending s - {c}" for x
    using that register.prems k [of x] h'(1) by (auto simp: sys_inv_def)
  ultimately show ?case
    using register.prems h'(2) j same_staticD(6,7) [OF s] by (auto simp: sys_inv_def joinable_def)
next
  case (refuse c s S h')
  then show ?case by (auto simp: sys_inv_def hub_add_def split: if_splits)
next
  case (publish c s S m)
  show ?case
  proof (cases "h_done (sy_hub s)")
    case False
    then show ?thesis
      using publish.prems sys_inv_hub [of s "deliver S (encode jc) m (sy_hub s)" "sy_reading s"]
        deliver_keeps [OF _ publish.hyps(2) encodes_left_encode, of "sy_hub s" jc m]
      by (simp add: hub_publish_def sys_inv_def)
  qed (use publish in \<open>simp add: hub_publish_def\<close>)
next
  case (unregister c s S)
  show ?case
  proof (cases "h_done (sy_hub s)")
    case False
    then show ?thesis
      using unregister.prems
        sys_inv_hub [of s "fst (leave S (encode jc) c (sy_hub s))" "sy_reading s - {c}"]
        leave_keeps [OF _ unregister.hyps(2) encodes_left_encode, of "sy_hub s" jc c]
      by (simp add: hub_drop_def sys_inv_def)
  qed (use unregister in \<open>auto simp: hub_drop_def sys_inv_def\<close>)
next
  case (writer s c n)
  let ?ch = "drain n (c_send (h_heap (sy_hub s) c))"
  let ?h = "set_send c ?ch (sy_hub s)"
  have st: "same_static (sy_hub s) ?h" "live ?h = live (sy_hub s)" "h_rooms ?h = h_rooms (sy_hub s)"
    by (auto simp: set_send_views fun_eq_iff live_def hub_simps)
  have "hub_inv ?h"
    using writer hub_inv_cong [OF _ st(3,1) _ st(2)] hub_invD(3,4)
    by (auto simp: sys_inv_def set_send_views)
  moreover have "joinable x ?h = joinable x (sy_hub s)" for x
    using joinable_cong [OF st(1)] st by (simp add: room_members_def)
  ultimately show ?case using writer st(3) by (auto simp: sys_inv_def set_send_views)
next
  case (stop s)
  have inv: "hub_inv (sy_hub s)" using stop by (simp add: sys_inv_def)
  note ca = closeAll_spec [OF inv]
  have "hub_inv (hub_stop (sy_hub s))" using ca
    by (simp add: hub_stop_def hub_inv_def room_ok_def hub_size_def live_def)
  moreover have "joinable x (hub_stop (sy_hub s))" if "x \<in> sy_pending s" for x
  proof -
    have "joinable x (sy_hub s)" using that stop.prems by (simp add: sys_inv_def)
    then show ?thesis using ca same_staticD(6) [of "sy_hub s" "closeAll (sy_hub s)"]
      by (simp add: joinable_def hub_stop_def live_def is_member_def room_members_def members_of_def)
  qed
  ultimately show ?case
    using stop.prems ca same_staticD(6) [of "sy_hub s" "closeAll (sy_hub s)"]
    by (simp add: sys_inv_def hub_stop_def)
qed

lemma sys_reach_inv: "sys_reach jc s \<Longrightarrow> sys_inv s"
proof (induction rule: sys_reach.induct)
  case (start heap)
  then show ?case by (simp add: sys_inv_def hub_inv_def NewHub_def hub_size_def)
next
  case (more s s')
  then show ?case by (blast intro: sys_step_inv)
qed

end
