(* ===== verification/SignalingProps.thy ===== *)
theory SignalingProps
  imports SignalingSystem
begin

text \<open>
  The properties of the signaling component, each followed by a witness where it has hypotheses.
  The witnesses run the model on a hub with a few clients.
\<close>

subsection \<open>A small hub for the witnesses\<close>

definition demo_client :: "string \<Rightarrow> string \<Rightarrow> nat \<Rightarrow> client" where
  "demo_client u r n =
     \<lparr>c_id = u, c_userID = u, c_displayName = u, c_roomID = r, c_send = make_chan n\<rparr>"

definition demo_sched :: sched where
  "demo_sched = \<lparr>iter_order = (\<lambda>_ xs. xs), drained = (\<lambda>_ _. 0)\<rparr>"

text \<open>Clients 0 and 1 (whose channel has no room) are in room \<open>r\<close>, client 2 in room \<open>q\<close>; client 3
  is about to join \<open>r\<close>.\<close>

definition demo_heap :: "cref \<Rightarrow> client" where
  "demo_heap c =
     (if c = 0 then demo_client ''ann'' ''r'' 8
      else if c = 1 then demo_client ''bob'' ''r'' 0
      else if c = 2 then demo_client ''cyd'' ''q'' 8
      else demo_client ''dan'' ''r'' 8)"

definition demo_hub :: hub where
  "demo_hub = \<lparr>h_rooms = [(''r'', [0, 1]), (''q'', [2])], h_heap = demo_heap, h_next = 4,
               h_count = 3, h_done = False, h_panic = False\<rparr>"

lemma demo_sched_valid [simp]: "valid_sched demo_sched"
  by (simp add: valid_sched_def demo_sched_def)

lemma demo_hub_inv [simp]: "hub_inv demo_hub"
  by (auto simp: hub_inv_def room_ok_def demo_hub_def demo_heap_def demo_client_def hub_size_def live_def
      split: if_splits)

lemma demo_joinable [simp]: "joinable 3 demo_hub"
  by (simp add: joinable_def live_def is_member_def room_members_def members_of_def demo_hub_def
      demo_heap_def demo_client_def)

subsection \<open>Safety of every reachable state\<close>

text \<open>C1. In every state the signaling server can reach, under any interleaving of connections,
  messages, disconnections, writer progress and shutdown, no channel has been closed twice or sent to
  after its close, the client count is the number of members, no room is empty, and every member of
  a room has an open channel and asked for that room.\<close>

theorem hub_safety:
  assumes "sys_reach jc s"
  shows "\<not> h_panic (sy_hub s) \<and>
    ClientCount (sy_hub s) = int (total_len (h_rooms (sy_hub s))) \<and>
    (\<forall>r ms. map_of (h_rooms (sy_hub s)) r = Some ms \<longrightarrow>
       ms \<noteq> [] \<and> distinct ms \<and> (\<forall>c\<in>set ms. c_roomID (h_heap (sy_hub s) c) = r \<and> live (sy_hub s) c))"
  using sys_reach_inv [OF assms]
  by (auto simp: sys_inv_def hub_inv_def room_ok_def hub_size_def ClientCount_def)

lemma reach_accepted:
  "sys_reach jc \<lparr>sy_hub = fst (new_client i u d r (NewHub demo_heap)), sy_pending = {0}, sy_reading = {}\<rparr>"
proof -
  let ?s = "\<lparr>sy_hub = NewHub demo_heap, sy_pending = {}, sy_reading = {}\<rparr>"
  obtain h' c where n: "new_client i u d r (sy_hub ?s) = (h', c)" by (cases "new_client i u d r (sy_hub ?s)")
  then have c: "c = 0" by (auto simp: new_client_def NewHub_def Let_def)
  have "sys_reach jc ?s" by (rule sys_reach.start) (simp add: demo_heap_def demo_client_def)
  then have "sys_reach jc (?s\<lparr>sy_hub := h', sy_pending := insert c (sy_pending ?s)\<rparr>)"
    using sys_step.accept [OF n] by (rule sys_reach.more)
  with n c show ?thesis by simp
qed

lemma reach_joined:
  "\<exists>s. sys_reach jc s \<and> sy_reading s = {0} \<and>
     sy_hub s = hub_join demo_sched (encode jc) 0 (fst (new_client i u d r (NewHub demo_heap)))"
proof -
  let ?s = "\<lparr>sy_hub = fst (new_client i u d r (NewHub demo_heap)), sy_pending = {0}, sy_reading = {}\<rparr> :: sys"
  have a: "hub_add demo_sched (encode jc) 0 (sy_hub ?s) =
      (hub_join demo_sched (encode jc) 0 (sy_hub ?s), True)"
    by (simp add: hub_add_def new_client_def NewHub_def Let_def)
  have "0 \<in> sy_pending ?s" by simp
  from sys_reach.more [OF reach_accepted sys_step.register [OF this demo_sched_valid a]]
  show ?thesis by (intro exI conjI) auto
qed

theorem hub_safety_witness:
  "\<exists>s. sys_reach (\<lambda>_. None) s \<and> 0 \<in> sy_reading s \<and> \<not> h_panic (sy_hub s) \<and>
     ClientCount (sy_hub s) = int (total_len (h_rooms (sy_hub s)))"
  using reach_joined [of "\<lambda>_. None" "''1''" "''ann''" "''Ann''" "''r''"] hub_safety by blast

subsection \<open>Relaying\<close>

text \<open>C5. Delivering a message: whatever the schedule, the clients of the room that stay connected
  are those not evicted for failing to drain their channel; each of them gets the frame exactly once if
  it is addressed (every member but the sender, or the connections of the addressed user) and not at
  all otherwise, followed by one peer-left frame per evicted client, in the same order for
  everyone; every evicted client's channel is closed.\<close>

theorem deliver_exactly:
  assumes "hub_inv h" "valid_sched S" "h' = deliver S (encode jc) m h"
  shows "\<exists>gone. distinct gone \<and> set gone \<subseteq> set (room_members (m_room m) h) \<and>
    room_members (m_room m) h' = filter (\<lambda>c. c \<notin> set gone) (room_members (m_room m) h) \<and>
    (\<forall>c\<in>set gone. \<not> live h' c) \<and>
    (\<forall>c\<in>set (room_members (m_room m) h').
       clog h' c = clog h c @
         (if c \<noteq> m_sender m \<and> (m_to m = [] \<or> c_userID (h_heap h c) = m_to m) then [m_data m] else []) @
         map (left_data (encode jc) h) gone)"
proof -
  obtain gone where g: "room_step (encode jc) (m_room m) (\<lambda>c. if skips m h c then [] else [m_data m]) gone h h'"
    using deliver_step [OF assms(1,2) encodes_left_encode] assms(3) by blast
  have "(if skips m h c then [] else [m_data m]) =
      (if c \<noteq> m_sender m \<and> (m_to m = [] \<or> c_userID (h_heap h c) = m_to m) then [m_data m] else [])" for c
    by auto
  with g show ?thesis unfolding room_step_def by (intro exI [of _ gone]) auto
qed

theorem deliver_exactly_witness:
  "\<exists>gone. distinct gone \<and> set gone \<subseteq> set (room_members ''r'' demo_hub) \<and>
     room_members ''r''
       (deliver demo_sched (encode (\<lambda>_. None)) \<lparr>m_room = ''r'', m_sender = 0, m_to = [], m_data = ''x''\<rparr> demo_hub) =
       filter (\<lambda>c. c \<notin> set gone) (room_members ''r'' demo_hub)"
  using deliver_exactly [OF demo_hub_inv demo_sched_valid refl,
      where jc = "\<lambda>_. None" and m = "\<lparr>m_room = ''r'', m_sender = 0, m_to = [], m_data = ''x''\<rparr>"]
  by auto

text \<open>C7. Rooms are isolated: delivering a message in one room leaves every client outside it, and the
  membership of every other room, exactly as they were, evictions included.\<close>

theorem rooms_isolated:
  assumes "hub_inv h" "valid_sched S" "h' = deliver S (encode jc) m h"
  shows "(\<forall>c. c_roomID (h_heap h c) \<noteq> m_room m \<longrightarrow> h_heap h' c = h_heap h c) \<and>
    (\<forall>r. r \<noteq> m_room m \<longrightarrow> room_members r h' = room_members r h)"
proof -
  obtain gone where g: "room_step (encode jc) (m_room m) (\<lambda>c. if skips m h c then [] else [m_data m]) gone h h'"
    using deliver_step [OF assms(1,2) encodes_left_encode] assms(3) by blast
  have "c \<notin> set (room_members (m_room m) h)" if "c_roomID (h_heap h c) \<noteq> m_room m" for c
    using that hub_invD(6) [OF assms(1), of c "m_room m"] by blast
  with g show ?thesis by (simp add: room_step_def)
qed

theorem rooms_isolated_witness:
  "h_heap (deliver demo_sched (encode (\<lambda>_. None)) \<lparr>m_room = ''r'', m_sender = 0, m_to = [], m_data = ''x''\<rparr> demo_hub) 2
     = h_heap demo_hub 2"
  using rooms_isolated [OF demo_hub_inv demo_sched_valid refl,
      where jc = "\<lambda>_. None" and m = "\<lparr>m_room = ''r'', m_sender = 0, m_to = [], m_data = ''x''\<rparr>"]
  by (simp add: demo_hub_def demo_heap_def demo_client_def)


lemma fan_out_room_free:
  assumes "fan_out (push S d) skip cs h = (h', st)" "distinct cs" "\<forall>c\<in>set cs. live h c"
    "\<forall>c\<in>set cs. \<not> skip c \<longrightarrow> length (ch_buf (c_send (h_heap h c))) < ch_cap (c_send (h_heap h c))"
  shows "st = []"
  using assms
proof (induction cs arbitrary: h h' st)
  case (Cons c cs)
  show ?case
  proof (cases "skip c")
    case True
    with Cons show ?thesis by simp
  next
    case False
    have l: "live h c" using Cons.prems by simp
    obtain h1 where p: "push S d c h = (h1, True)"
      using push_ok [OF l, of S d] Cons.prems(4) False by (cases "push S d c h") auto
    note ps = push_spec [OF p l]
    obtain st' where r: "fan_out (push S d) skip cs h1 = (h', st')" and "st = st'"
      using Cons.prems(1) False p by (auto split: prod.splits)
    moreover have "\<forall>x\<in>set cs. h_heap h1 x = h_heap h x" using ps Cons.prems(2) by auto
    ultimately show ?thesis using Cons.IH [OF r] Cons.prems ps by auto
  qed
qed simp

text \<open>Nobody is evicted without cause: when every addressed member's channel has a free slot, a
  message is enqueued for each of them exactly once, and the room keeps all its members.\<close>

lemma deliver_reaches_all:
  assumes "hub_inv h" "valid_sched S" "h' = deliver S enc m h"
    "\<forall>c\<in>set (room_members (m_room m) h). length (ch_buf (c_send (h_heap h c))) < ch_cap (c_send (h_heap h c))"
  shows "room_members (m_room m) h' = room_members (m_room m) h \<and>
    (\<forall>c\<in>set (room_members (m_room m) h).
       clog h' c = clog h c @
         (if c \<noteq> m_sender m \<and> (m_to m = [] \<or> c_userID (h_heap h c) = m_to m) then [m_data m] else []))"
proof -
  let ?r = "m_room m" and ?it = "iter_order S h (room_members (m_room m) h)"
  obtain h1 st where f: "fan_out (push S (m_data m)) (skips m h) ?it h = (h1, st)"
    by (cases "fan_out (push S (m_data m)) (skips m h) ?it h")
  note v = valid_sched_set [OF assms(2), of h "room_members ?r h"]
  have "st = []"
    using fan_out_room_free [OF f] v hub_invD(5,6) [OF assms(1), where r = ?r] assms(4) by auto
  moreover from this have "h' = h1" using assms(3) f by (simp add: deliver_def)
  ultimately show ?thesis
    using fan_out_room [OF f assms(1,2)] by (auto simp: room_members_def)
qed

subsection \<open>Presence\<close>








subsection \<open>Shutdown\<close>

text \<open>When the hub stops, every member's channel is closed exactly once (no panic), frames
  already queued stay queued, no room is left, and from then on registering is refused while
  publishing and unregistering return without effect.\<close>

lemma shutdown_drains:
  assumes "hub_inv h" "h' = hub_stop h"
  shows "h_rooms h' = [] \<and> ClientCount h' = 0 \<and> \<not> h_panic h' \<and> clog h' = clog h \<and>
    (\<forall>c. is_member c h \<longrightarrow> \<not> live h' c) \<and>
    hub_add S enc c h' = (h', False) \<and> hub_drop S enc c h' = h' \<and> hub_publish S enc m h' = h'"
  using closeAll_spec [OF assms(1)] assms(2)
  by (auto simp: hub_stop_def ClientCount_def hub_inv_def hub_size_def clog_def live_def
      hub_add_def hub_drop_def hub_publish_def fun_eq_iff)

subsection \<open>What a connection can say\<close>

lemma relayed_Some:
  "relayed jc unmarshal c cl data = Some m \<Longrightarrow>
   m_room m = c_roomID cl \<and> m_sender m = c \<and>
   (\<exists>inb. unmarshal data = Some inb \<and> in_Type inb \<in> set client_types \<and> m_to m = in_To inb \<and>
     encode jc \<lparr>out_Type = in_Type inb, out_From = c_userID cl, out_Payload = in_Payload inb, out_Peers = []\<rparr>
       = Some (m_data m))"
  by (auto simp: relayed_def parseInbound_Inr_iff split: sum.splits option.splits)

lemma read_loop_published:
  "read_loop jc unmarshal c cl b evs = (acts, ex) \<Longrightarrow> Publish m \<in> set acts \<Longrightarrow>
   \<exists>data t. ReadFrame TextMessage data t \<in> set evs \<and> relayed jc unmarshal c cl data = Some m"
proof (induction evs arbitrary: b acts)
  case (Cons ev evs)
  show ?case
  proof (cases ev)
    case (ReadFrame ty data now)
    obtain b' ok where "allow now b = (b', ok)" by (cases "allow now b")
    moreover obtain acts' ex' where "read_loop jc unmarshal c cl b' evs = (acts', ex')"
      by (cases "read_loop jc unmarshal c cl b' evs")
    ultimately show ?thesis
      using Cons.prems Cons.IH [of b' acts'] ReadFrame
      by (fastforce split: if_splits option.splits)
  qed (use Cons.prems in simp)
qed simp

text \<open>C20. Everything a connection publishes is stamped by the server: the room and the sender are the
  connection's own, the \<^verbatim>\<open>from\<close> field is the authenticated user of the connection whatever the client
  wrote, and the type is one of the five a client may send, never a presence frame.\<close>

theorem published_frames_stamped:
  assumes "read_loop jc unmarshal c cl b evs = (acts, ex)" "Publish m \<in> set acts"
  shows "m_room m = c_roomID cl \<and> m_sender m = c \<and>
    (\<exists>inb data t. ReadFrame TextMessage data t \<in> set evs \<and> unmarshal data = Some inb \<and> m_to m = in_To inb \<and>
       in_Type inb \<in> {TypeOffer, TypeAnswer, TypeCandidate, TypeBye, TypeChat} - {TypeWelcome, TypePeerJoined, TypePeerLeft} \<and>
       encode jc \<lparr>out_Type = in_Type inb, out_From = c_userID cl, out_Payload = in_Payload inb, out_Peers = []\<rparr>
         = Some (m_data m))"
proof -
  obtain data t where ev: "ReadFrame TextMessage data t \<in> set evs"
    and r: "relayed jc unmarshal c cl data = Some m"
    using read_loop_published [OF assms] by blast
  from relayed_Some [OF r] obtain inb where
    "unmarshal data = Some inb" "in_Type inb \<in> set client_types" "m_to m = in_To inb"
    "encode jc \<lparr>out_Type = in_Type inb, out_From = c_userID cl, out_Payload = in_Payload inb, out_Peers = []\<rparr>
       = Some (m_data m)" by blast
  moreover have "set client_types = {TypeOffer, TypeAnswer, TypeCandidate, TypeBye, TypeChat} - {TypeWelcome, TypePeerJoined, TypePeerLeft}"
    by (auto simp: client_types_def type_defs)
  ultimately show ?thesis using relayed_Some [OF r] ev by blast
qed

theorem published_frames_stamped_witness:
  "m_sender (the (relayed Some (\<lambda>_. Some \<lparr>in_Type = ''chat'', in_To = [], in_Payload = ''1''\<rparr>) 7
     (demo_client ''ann'' ''r'' 8) ''frame'')) = 7"
proof -
  let ?um = "\<lambda>_. Some \<lparr>in_Type = ''chat'', in_To = [], in_Payload = ''1''\<rparr>"
  let ?cl = "demo_client ''ann'' ''r'' 8"
  obtain m where m: "relayed Some ?um 7 ?cl ''frame'' = Some m"
    by (auto simp: relayed_def parseInbound_def client_types_def type_defs encode_def)
  have "allow 0 (newTokenBucket messageBurst messagesPerSecond 0) =
      ((newTokenBucket messageBurst messagesPerSecond 0)\<lparr>tb_tokens := 119\<rparr>, True)"
    by (simp add: allow_def newTokenBucket_def messageBurst_def messagesPerSecond_def time_sub_def
        seconds_def Let_def min_duration_def max_duration_def)
  then have "read_loop Some ?um 7 ?cl (newTokenBucket messageBurst messagesPerSecond 0)
      [ReadFrame TextMessage ''frame'' 0] = ([Publish m], StillReading)"
    using m by simp
  from published_frames_stamped [OF this] m show ?thesis by simp
qed

subsection \<open>The message budget\<close>

definition frame_times :: "ws_read list \<Rightarrow> gotime set" where
  "frame_times evs = {t. \<exists>ty d. ReadFrame ty d t \<in> set evs}"

lemma frame_times_Cons: "frame_times (ReadFrame ty d t # evs) = insert t (frame_times evs)"
  by (auto simp: frame_times_def)

lemma read_loop_granted:
  "read_loop jc unmarshal c cl b evs = (acts, ex) \<Longrightarrow>
   \<exists>ts. length (filter (\<lambda>a. case a of Publish _ \<Rightarrow> True | _ \<Rightarrow> False) acts) \<le> snd (run_bucket ts b) \<and>
     set ts \<subseteq> frame_times evs"
proof (induction evs arbitrary: b acts)
  case (Cons ev evs)
  show ?case
  proof (cases ev)
    case (ReadFrame ty data now)
    obtain b' ok where a: "allow now b = (b', ok)" by (cases "allow now b")
    obtain acts' ex' where r: "read_loop jc unmarshal c cl b' evs = (acts', ex')"
      by (cases "read_loop jc unmarshal c cl b' evs")
    show ?thesis
    proof (cases "ty = TextMessage \<and> ok")
      case True
      then have ex: "ex' = ex" using Cons.prems ReadFrame a r by (auto split: option.splits)
      obtain ts where ts: "length (filter (\<lambda>a. case a of Publish _ \<Rightarrow> True | _ \<Rightarrow> False) acts') \<le> snd (run_bucket ts b')"
        "set ts \<subseteq> frame_times evs"
        using Cons.IH r ex by blast
      then have "set (now # ts) \<subseteq> frame_times (ev # evs)"
        using ReadFrame by (auto simp: frame_times_Cons)
      then show ?thesis
        using Cons.prems ReadFrame a r True ts(1)
        by (intro exI [of _ "now # ts"]) (auto split: option.splits prod.splits)
    next
      case False
      then show ?thesis
        using Cons.prems ReadFrame a by (intro exI [of _ "[]"]) (auto split: if_splits)
    qed
  qed (use Cons.prems in \<open>auto intro: exI [of _ "[]"]\<close>)
qed (auto intro: exI [of _ "[]"])




text \<open>The first 120 frames of a connection are never refused for their rate, and after that a
  frame that comes at least one sixtieth of a second after the last one counted is not either.\<close>

lemma budget_not_spurious:
  assumes "bucket_ok b" "1 \<le> tb_capacity b" "t - tb_last b \<le> max_duration"
  shows "(length ts \<le> 120 \<longrightarrow>
      snd (run_bucket ts (newTokenBucket messageBurst messagesPerSecond t0)) = length ts) \<and>
    (1 \<le> tb_rate b * seconds (t - tb_last b) \<longrightarrow> snd (allow t b))"
proof -
  have "bucket_ok (newTokenBucket messageBurst messagesPerSecond t0)"
    by (simp add: bucket_ok_def newTokenBucket_def messageBurst_def messagesPerSecond_def)
  then show ?thesis
    using run_bucket_burst [of "newTokenBucket messageBurst messagesPerSecond t0" ts] allow_spaced assms
    by (auto simp: newTokenBucket_def messageBurst_def)
qed

subsection \<open>The wire and the endpoint\<close>

lemma write_loop_text:
  "write_loop evs = (ws, e) \<Longrightarrow>
   \<exists>k. [d. WireText d \<leftarrow> ws] = take k [d. (FromSend d, _) \<leftarrow> evs]"
proof (induction evs arbitrary: ws rule: write_loop.induct)
  case (2 d ok evs)
  show ?case
  proof (cases ok)
    case True
    obtain ws' where "write_loop evs = (ws', e)" "ws = WireText d # ws'"
      using 2(2) True by (auto split: prod.splits)
    moreover from 2(1) [OF True this(1)] obtain k where
      "[d. WireText d \<leftarrow> ws'] = take k [d. (FromSend d, _) \<leftarrow> evs]" by blast
    ultimately show ?thesis by (intro exI [of _ "Suc k"]) simp
  next
    case False
    with 2(2) show ?thesis by (intro exI [of _ 0]) simp
  qed
next
  case (3 ok evs)
  then show ?case by (intro exI [of _ 0]) auto
next
  case (4 ok evs)
  show ?case
  proof (cases ok)
    case True
    obtain ws' where "write_loop evs = (ws', e)" "ws = WirePing # ws'"
      using 4(2) True by (auto split: prod.splits)
    with 4(1) [OF True this(1)] show ?thesis by simp
  next
    case False
    with 4(2) show ?thesis by (intro exI [of _ 0]) simp
  qed
qed simp

lemma write_loop_close:
  "write_loop evs = (ws, e) \<Longrightarrow>
   WireEOF \<notin> set ws \<and> (WireClose code reason \<in> set ws \<longrightarrow>
      code = CloseNormalClosure \<and> reason = [] \<and> SendClosed \<in> fst ` set evs \<and> e \<and>
      (\<exists>us. ws = us @ [WireClose code reason]))"
proof (induction evs arbitrary: ws rule: write_loop.induct)
  case (2 d ok evs)
  then show ?case by (cases "write_loop evs") (fastforce split: if_splits)
next
  case (4 ok evs)
  then show ?case by (cases "write_loop evs") (fastforce split: if_splits)
qed (auto split: if_splits)

text \<open>A connection's writer puts on the wire, as text frames, a prefix of what it took from the
  send channel, in order and unchanged; a clean close frame is written only after the hub closed the
  channel, and nothing but the end of the connection follows it.\<close>

lemma writer_in_order:
  "(\<exists>k. [d. WireText d \<leftarrow> writePump evs] = take k [d. (FromSend d, _) \<leftarrow> evs]) \<and>
   (WireClose code reason \<in> set (writePump evs) \<longrightarrow>
      code = CloseNormalClosure \<and> reason = [] \<and> SendClosed \<in> fst ` set evs \<and>
      (\<exists>ws. writePump evs = ws @ [WireClose code reason, WireEOF] \<and> WireEOF \<notin> set ws))"
proof -
  obtain ws e where l: "write_loop evs = (ws, e)" by (cases "write_loop evs")
  then have "\<exists>k. [d. WireText d \<leftarrow> writePump evs] = take k [d. (FromSend d, _) \<leftarrow> evs]"
    using write_loop_text [OF l] by (simp add: writePump_def)
  then show ?thesis
    using write_loop_close [OF l, of code reason] l by (auto simp: writePump_def split: if_splits)
qed

text \<open>The endpoint authenticates before it looks at anything else: without a valid identity the
  answer is 401 whatever room was asked for and whatever the resolver would say, so rooms cannot be
  probed; and no rejected request changes the hub.\<close>

lemma upgrade_authenticates_first:
  "ServeHTTP S enc (Inl err) slug resolve upgraded ids h = (h, ids, Fail 401 ''unauthenticated'') \<and>
   (ServeHTTP S enc auth slug resolve upgraded ids h = (h', ids', res) \<and> (\<forall>c. res \<noteq> Attached c) \<and>
      (\<forall>code reason. res \<noteq> Refused code reason) \<longrightarrow> h' = h \<and> ids' = ids)"
  by (auto simp: ServeHTTP_def Let_def hub_add_def split: sum.splits prod.splits if_splits resolve_error.splits)

text \<open>An accepted connection is in the room the slug resolved to, under the identity that was
  authenticated, and the first frame queued for it is its welcome.\<close>

lemma attach_spec:
  assumes "hub_inv h" "valid_sched S" "new_client i u d roomID h = (h1, c)" "hub_add S (encode jc) c h1 = (h', True)"
  shows "\<exists>peers w. hub_inv h' \<and>
    c_userID (h_heap h' c) = u \<and> c_displayName (h_heap h' c) = d \<and> c_roomID (h_heap h' c) = roomID \<and>
    mset peers = mset (map (\<lambda>other. peer_of (h_heap h other)) (room_members roomID h)) \<and>
    encode jc \<lparr>out_Type = TypeWelcome, out_From = u, out_Payload = [], out_Peers = peers\<rparr> = Some w \<and>
    (c \<in> set (room_members roomID h') \<longrightarrow> take 1 (clog h' c) = [w])"
proof -
  note n = assms(3)
  have h': "\<not> h_done h1" "h' = hub_join S (encode jc) c h1" using assms(4) by (auto simp: hub_add_def split: if_splits)
  have f: "h_heap h1 = (h_heap h)(c := \<lparr>c_id = i, c_userID = u, c_displayName = d, c_roomID = roomID,
      c_send = make_chan sendBufferSize\<rparr>)" "h_rooms h1 = h_rooms h" "c = h_next h"
    using n by (auto simp: new_client_def Let_def)
  have "sys_inv \<lparr>sy_hub = h1, sy_pending = {c}, sy_reading = {}\<rparr> \<or> h_done h"
    using accept_inv [of i u d roomID "\<lparr>sy_hub = h, sy_pending = {}, sy_reading = {}\<rparr>" h1 c] n assms(1)
    by (auto simp: sys_inv_def)
  moreover have "\<not> h_done h" using n h'(1) by (auto simp: new_client_def Let_def)
  ultimately have i: "hub_inv h1" "joinable c h1" by (auto simp: sys_inv_def)
  have "length (ch_buf (c_send (h_heap h1 c))) < ch_cap (c_send (h_heap h1 c))"
    using f by (simp add: make_chan_def sendBufferSize_def)
  note jf = join_fresh [OF i assms(2) this refl h'(2)]
  have s: "same_static h1 h'"
    using join_keeps [OF i assms(2) encodes_left_encode, of "Suc c" jc] h'(2) by simp
  have "c \<notin> set (room_members roomID h)" using hub_invD(6) [OF assms(1), of c roomID] f(3) by auto
  then have p: "map (\<lambda>other. peer_of (h_heap h1 other)) (room_members roomID h1) =
      map (\<lambda>other. peer_of (h_heap h other)) (room_members roomID h)"
    using f by (auto simp: room_members_def)
  have cl: "c_userID (h_heap h1 c) = u" "c_displayName (h_heap h1 c) = d" "c_roomID (h_heap h1 c) = roomID"
    "clog h1 c = []" using f by (simp_all add: clog_def)
  obtain peers w where
    "mset peers = mset (map (\<lambda>other. peer_of (h_heap h other)) (room_members roomID h))"
    "encode jc (welcome_frame (h_heap h1 c) peers) = Some w"
    "c \<in> set (room_members roomID h') \<longrightarrow> take 1 (clog h' c) = [w]"
    using jf unfolding cl(3) p by (auto simp: cl(4))
  then show ?thesis
    using cl same_staticD(2,3,4) [OF s] join_inv [OF i assms(2) encodes_left_encode] h'(2)
    by (auto simp: welcome_frame_def)
qed

end
