(* ===== verification/Inbox.thy ===== *)
theory Inbox
  imports Channel WebSocket Protocol "HOL-Library.Word"
begin

text \<open>
  \<^verbatim>\<open>internal/inbox\<close>: one websocket per signed-in client on which the server pushes events addressed to
  a user.  The hub is a map from user ids to open connections behind a mutex, so every operation is
  atomic; a \<^verbatim>\<open>*conn\<close> is a reference into the store \<open>ib_heap\<close>.  As in the signaling hub, a schedule
  decides the order of a map range and how far a writer has drained its channel, and \<open>ib_panic\<close>
  records a send on a closed channel or a second close.
\<close>

definition writeWait :: duration where "writeWait = 10 * second"
definition pongWait :: duration where "pongWait = 60 * second"
definition pingPeriod :: duration where "pingPeriod = (pongWait * 9) div 10"
definition maxMessageSize :: nat where "maxMessageSize = 512"
definition sendBufferSize :: nat where "sendBufferSize = 16"

definition TypeInvite :: string where "TypeInvite = ''invite''"
definition TypeInviteCancelled :: string where "TypeInviteCancelled = ''invite-cancelled''"
definition TypeInviteDeclined :: string where "TypeInviteDeclined = ''invite-declined''"

record Room =
  room_Slug :: string
  room_Name :: string

record Sender =
  sender_ID :: string
  sender_DisplayName :: string

record Event =
  ev_Type :: string
  ev_Room :: Room
  ev_From :: Sender

text \<open>\<^verbatim>\<open>json.Marshal\<close> of an \<^verbatim>\<open>Event\<close>: only strings, so it cannot fail.\<close>

definition Event_Encode :: "Event \<Rightarrow> string" where
  "Event_Encode e = json_object
     [json_field ''type'' (quote (ev_Type e)),
      json_field ''room'' (json_object
        (json_field ''slug'' (quote (room_Slug (ev_Room e))) #
         (if room_Name (ev_Room e) = [] then [] else [json_field ''name'' (quote (room_Name (ev_Room e)))]))),
      json_field ''from'' (json_object
        [json_field ''id'' (quote (sender_ID (ev_From e))),
         json_field ''display_name'' (quote (sender_DisplayName (ev_From e)))])]"

type_synonym conn_ref = nat

record conn =
  cn_id :: string
  cn_userID :: string
  cn_send :: "string chan"

record inbox =
  ib_users :: "(string \<times> conn_ref list) list"
  ib_heap :: "conn_ref \<Rightarrow> conn"
  ib_next :: conn_ref
  ib_closed :: bool
  ib_count :: int
  ib_panic :: bool

record ib_sched =
  ib_order :: "inbox \<Rightarrow> conn_ref list \<Rightarrow> conn_ref list"
  ib_drained :: "inbox \<Rightarrow> conn_ref \<Rightarrow> nat"

definition ib_valid :: "ib_sched \<Rightarrow> bool" where
  "ib_valid S \<longleftrightarrow> (\<forall>ib xs. mset (ib_order S ib xs) = mset xs)"

definition conns :: "string \<Rightarrow> inbox \<Rightarrow> conn_ref list" where
  "conns u ib = members_of (ib_users ib) u"

definition NewInbox :: "(conn_ref \<Rightarrow> conn) \<Rightarrow> inbox" where
  "NewInbox heap = \<lparr>ib_users = [], ib_heap = heap, ib_next = 0, ib_closed = False, ib_count = 0, ib_panic = False\<rparr>"

definition ib_set_send :: "conn_ref \<Rightarrow> string chan \<Rightarrow> inbox \<Rightarrow> inbox" where
  "ib_set_send c ch ib = ib\<lparr>ib_heap := (ib_heap ib)(c := (ib_heap ib c)\<lparr>cn_send := ch\<rparr>)\<rparr>"

definition ib_close_send :: "conn_ref \<Rightarrow> inbox \<Rightarrow> inbox" where
  "ib_close_send c ib = (case close_chan (cn_send (ib_heap ib c)) of
     None \<Rightarrow> ib\<lparr>ib_panic := True\<rparr>
   | Some ch \<Rightarrow> ib_set_send c ch ib)"

subsection \<open>Operations\<close>

definition ib_add :: "conn_ref \<Rightarrow> inbox \<Rightarrow> inbox \<times> bool" where
  "ib_add c ib =
     (if ib_closed ib then (ib, False)
      else let u = cn_userID (ib_heap ib c)
           in (ib\<lparr>ib_users := AList.update u (List.insert c (conns u ib)) (ib_users ib),
                   ib_count := ib_count ib + 1\<rparr>, True))"

definition removeLocked :: "conn_ref \<Rightarrow> inbox \<Rightarrow> inbox" where
  "removeLocked c ib =
     (let u = cn_userID (ib_heap ib c)
      in case map_of (ib_users ib) u of
           None \<Rightarrow> ib
         | Some cs \<Rightarrow>
             if c \<notin> set cs then ib
             else let cs' = removeAll c cs;
                      ib1 = ib\<lparr>ib_users := AList.update u cs' (ib_users ib)\<rparr>;
                      ib2 = ib_close_send c ib1;
                      ib3 = ib2\<lparr>ib_count := ib_count ib2 - 1\<rparr>
                  in if cs' = [] then ib3\<lparr>ib_users := AList.delete u (ib_users ib3)\<rparr> else ib3)"

definition ib_remove :: "conn_ref \<Rightarrow> inbox \<Rightarrow> inbox" where
  "ib_remove c ib = removeLocked c ib"

definition offer :: "ib_sched \<Rightarrow> string \<Rightarrow> conn_ref \<Rightarrow> inbox \<Rightarrow> inbox \<times> bool" where
  "offer S data c ib =
     (let ib1 = ib_set_send c (drain (ib_drained S ib c) (cn_send (ib_heap ib c))) ib
      in case try_send data (cn_send (ib_heap ib1 c)) of
           Sent ch \<Rightarrow> (ib_set_send c ch ib1, True)
         | Full \<Rightarrow> (ib1, False)
         | SendOnClosed \<Rightarrow> (ib1\<lparr>ib_panic := True\<rparr>, False))"

fun deliver_loop :: "ib_sched \<Rightarrow> string \<Rightarrow> conn_ref list \<Rightarrow> inbox \<Rightarrow> nat \<Rightarrow> inbox \<times> nat" where
  "deliver_loop S data [] ib delivered = (ib, delivered)"
| "deliver_loop S data (c # cs) ib delivered =
     (case offer S data c ib of (ib', ok) \<Rightarrow>
        if ok then deliver_loop S data cs ib' (delivered + 1)
        else deliver_loop S data cs (removeLocked c ib') delivered)"

definition Deliver :: "ib_sched \<Rightarrow> string \<Rightarrow> string \<Rightarrow> inbox \<Rightarrow> inbox \<times> nat" where
  "Deliver S userID data ib = deliver_loop S data (ib_order S ib (conns userID ib)) ib 0"

definition ib_Shutdown :: "inbox \<Rightarrow> inbox" where
  "ib_Shutdown ib =
     (let ib1 = fold ib_close_send (concat (map snd (ib_users ib))) (ib\<lparr>ib_closed := True\<rparr>)
      in ib1\<lparr>ib_users := [], ib_count := 0\<rparr>)"

definition ConnectionCount :: "inbox \<Rightarrow> int" where
  "ConnectionCount ib = ib_count ib"

subsection \<open>The endpoint and the two goroutines of a connection\<close>

datatype inbox_result = Unauthenticated | InboxUpgradeFailed | InboxRefused close_code string | InboxOpen conn_ref

definition new_conn :: "string \<Rightarrow> string \<Rightarrow> inbox \<Rightarrow> inbox \<times> conn_ref" where
  "new_conn i u ib =
     (let c = ib_next ib; cn = \<lparr>cn_id = i, cn_userID = u, cn_send = make_chan sendBufferSize\<rparr>
      in (ib\<lparr>ib_heap := (ib_heap ib)(c := cn), ib_next := Suc c\<rparr>, c))"

definition inbox_ServeHTTP ::
    "'e + (string \<times> string) \<Rightarrow> bool \<Rightarrow> 64 word \<Rightarrow> inbox \<Rightarrow> inbox \<times> 64 word \<times> inbox_result" where
  "inbox_ServeHTTP auth upgraded ids ib =
     (case auth of
        Inl _ \<Rightarrow> (ib, ids, Unauthenticated)
      | Inr (userID, _) \<Rightarrow>
          if \<not> upgraded then (ib, ids, InboxUpgradeFailed)
          else let ids' = ids + 1
               in case new_conn (format_nat (unat ids')) userID ib of (ib1, c) \<Rightarrow>
                 (case ib_add c ib1 of (ib2, ok) \<Rightarrow>
                    (ib2, ids', if ok then InboxOpen c
                                else InboxRefused CloseGoingAway ''server shutting down'')))"

text \<open>\<^verbatim>\<open>readPump\<close> discards every frame until the connection fails, then unregisters; it reports whether
  it has ended.\<close>

fun inbox_read_loop :: "ws_read list \<Rightarrow> bool" where
  "inbox_read_loop [] = False"
| "inbox_read_loop (ReadError # evs) = True"
| "inbox_read_loop (ReadFrame _ _ _ # evs) = inbox_read_loop evs"

definition inbox_readPump :: "bool \<Rightarrow> conn_ref \<Rightarrow> ws_read list \<Rightarrow> inbox \<Rightarrow> inbox \<times> bool" where
  "inbox_readPump deadline_ok c evs ib =
     (if \<not> deadline_ok \<or> inbox_read_loop evs then (ib_remove c ib, True) else (ib, False))"

fun inbox_write_loop :: "(write_event \<times> bool) list \<Rightarrow> wire list \<times> bool" where
  "inbox_write_loop [] = ([], False)"
| "inbox_write_loop ((ev, ok) # evs) =
     (case ev of
        FromSend d \<Rightarrow>
          if ok then (case inbox_write_loop evs of (ws, e) \<Rightarrow> (WireText d # ws, e)) else ([], True)
      | SendClosed \<Rightarrow> (if ok then [WireClose CloseNormalClosure []] else [], True)
      | Tick \<Rightarrow>
          if ok then (case inbox_write_loop evs of (ws, e) \<Rightarrow> (WirePing # ws, e)) else ([], True))"

definition inbox_writePump :: "(write_event \<times> bool) list \<Rightarrow> wire list" where
  "inbox_writePump evs =
     (case inbox_write_loop evs of (ws, ended) \<Rightarrow> ws @ (if ended then [WireEOF] else []))"

subsection \<open>The invariant and what each operation does to the views\<close>

definition ib_log :: "inbox \<Rightarrow> conn_ref \<Rightarrow> string list" where
  "ib_log ib c = history (cn_send (ib_heap ib c))"

definition ib_open :: "inbox \<Rightarrow> conn_ref \<Rightarrow> bool" where
  "ib_open ib c \<longleftrightarrow> \<not> ch_closed (cn_send (ib_heap ib c))"

definition ib_full :: "inbox \<Rightarrow> conn_ref \<Rightarrow> bool" where
  "ib_full ib c \<longleftrightarrow> length (ch_buf (cn_send (ib_heap ib c))) = ch_cap (cn_send (ib_heap ib c))"

definition ib_same :: "inbox \<Rightarrow> inbox \<Rightarrow> bool" where
  "ib_same ib ib' \<longleftrightarrow> ib_next ib' = ib_next ib \<and> ib_closed ib' = ib_closed ib \<and>
     (\<forall>c. cn_id (ib_heap ib' c) = cn_id (ib_heap ib c) \<and> cn_userID (ib_heap ib' c) = cn_userID (ib_heap ib c))"

definition ib_inv :: "inbox \<Rightarrow> bool" where
  "ib_inv ib \<longleftrightarrow>
     distinct (map fst (ib_users ib)) \<and>
     (\<forall>u cs. map_of (ib_users ib) u = Some cs \<longrightarrow>
        cs \<noteq> [] \<and> distinct cs \<and> (\<forall>c\<in>set cs. c < ib_next ib \<and> cn_userID (ib_heap ib c) = u \<and> ib_open ib c)) \<and>
     ib_count ib = int (total_len (ib_users ib)) \<and>
     (\<forall>c. chan_ok (cn_send (ib_heap ib c))) \<and>
     (ib_closed ib \<longrightarrow> ib_users ib = []) \<and>
     \<not> ib_panic ib"

lemma ib_invD:
  assumes "ib_inv ib"
  shows "distinct (map fst (ib_users ib))" "ib_count ib = int (total_len (ib_users ib))"
    "chan_ok (cn_send (ib_heap ib c))" "\<not> ib_panic ib" "distinct (conns u ib)"
    "ib_closed ib \<Longrightarrow> ib_users ib = []"
    "c \<in> set (conns u ib) \<Longrightarrow> c < ib_next ib \<and> cn_userID (ib_heap ib c) = u \<and> ib_open ib c"
  using assms mem_members_of [of c "ib_users ib" u]
  by (auto simp: ib_inv_def conns_def members_of_def split: option.splits)

lemma ib_same_refl [simp]: "ib_same ib ib"
  by (simp add: ib_same_def)

lemma ib_same_trans: "ib_same a b \<Longrightarrow> ib_same b c \<Longrightarrow> ib_same a c"
  by (simp add: ib_same_def)

lemma ib_set_send_views:
  "ib_users (ib_set_send c ch ib) = ib_users ib" "ib_count (ib_set_send c ch ib) = ib_count ib"
  "ib_panic (ib_set_send c ch ib) = ib_panic ib" "ib_closed (ib_set_send c ch ib) = ib_closed ib"
  "ib_next (ib_set_send c ch ib) = ib_next ib"
  "ib_heap (ib_set_send c ch ib) = (ib_heap ib)(c := (ib_heap ib c)\<lparr>cn_send := ch\<rparr>)"
  "ib_log (ib_set_send c ch ib) = (ib_log ib)(c := history ch)"
  "ib_open (ib_set_send c ch ib) = (ib_open ib)(c := \<not> ch_closed ch)"
  "ib_same ib (ib_set_send c ch ib)"
  by (auto simp: ib_set_send_def ib_log_def ib_open_def fun_eq_iff ib_same_def)

lemma ib_inv_set_send:
  assumes "ib_inv ib" "chan_ok ch" "ch_closed ch = ch_closed (cn_send (ib_heap ib c))"
  shows "ib_inv (ib_set_send c ch ib)"
  using assms by (auto simp: ib_inv_def ib_set_send_views ib_open_def)

end
