(* ===== verification/InboxProps.thy ===== *)
theory InboxProps
  imports Inbox
begin

text \<open>
  The inbox hub: what each operation does to the views, the transition system of all interleavings,
  and the properties of the component.
\<close>

subsection \<open>One connection leaving\<close>

definition registered :: "conn_ref \<Rightarrow> inbox \<Rightarrow> bool" where
  "registered c ib \<longleftrightarrow> c \<in> set (conns (cn_userID (ib_heap ib c)) ib)"

lemma registered_iff: "ib_inv ib \<Longrightarrow> c \<in> set (conns u ib) \<longleftrightarrow> registered c ib \<and> cn_userID (ib_heap ib c) = u"
  by (auto simp: registered_def dest: ib_invD(7))

lemma removeLocked_absent: "\<not> registered c ib \<Longrightarrow> removeLocked c ib = ib"
  by (auto simp: registered_def removeLocked_def conns_def Let_def split: option.splits)

lemma removeLocked_present:
  assumes "ib_inv ib" "registered c ib"
  defines "u \<equiv> cn_userID (ib_heap ib c)" and "ch \<equiv> (cn_send (ib_heap ib c))\<lparr>ch_closed := True\<rparr>"
  shows "removeLocked c ib =
    (ib_set_send c ch ib)
      \<lparr>ib_users := (if removeAll c (conns u ib) = [] then AList.delete u (ib_users ib)
                    else AList.update u (removeAll c (conns u ib)) (ib_users ib)),
       ib_count := ib_count ib - 1\<rparr>"
proof -
  have m: "c \<in> set (conns u ib)" using assms by (simp add: registered_def)
  then obtain cs where cs: "map_of (ib_users ib) u = Some cs" "conns u ib = cs" "c \<in> set cs"
    using mem_members_of [of c "ib_users ib" u] by (auto simp: conns_def)
  have "ib_open ib c" using ib_invD(7) [OF assms(1) m] by simp
  then show ?thesis
    using cs unfolding u_def ch_def
    by (auto simp: removeLocked_def Let_def ib_close_send_def close_chan_def ib_open_def
        ib_set_send_def conns_def fun_eq_iff AList.delete_update_same)
qed

lemma removeLocked_views:
  assumes inv: "ib_inv ib"
  shows "conns u (removeLocked c ib) = removeAll c (conns u ib) \<and>
    ib_log (removeLocked c ib) = ib_log ib \<and>
    ib_open (removeLocked c ib) = (if registered c ib then (ib_open ib)(c := False) else ib_open ib) \<and>
    ib_same ib (removeLocked c ib) \<and> (x \<noteq> c \<longrightarrow> ib_heap (removeLocked c ib) x = ib_heap ib x)"
proof (cases "registered c ib")
  case False
  then have "c \<notin> set (conns u ib)" using registered_iff [OF inv] by auto
  with False show ?thesis by (simp add: removeLocked_absent)
next
  case True
  have other: "u \<noteq> cn_userID (ib_heap ib c) \<Longrightarrow> c \<notin> set (conns u ib)"
    using registered_iff [OF inv] by auto
  then show ?thesis
    using True
    by (auto simp: removeLocked_present [OF inv True] conns_def ib_log_def ib_open_def ib_set_send_def
        history_def ib_same_def fun_eq_iff)
qed

lemma removeLocked_inv:
  assumes inv: "ib_inv ib"
  shows "ib_inv (removeLocked c ib)"
proof (cases "registered c ib")
  case False
  with inv show ?thesis by (simp add: removeLocked_absent)
next
  case True
  define u where "u = cn_userID (ib_heap ib c)"
  let ?cs = "conns u ib" and ?ib = "removeLocked c ib"
  have m: "c \<in> set ?cs" using True by (simp add: registered_def u_def)
  note eq = removeLocked_present [OF inv True, folded u_def]
  have d: "distinct (map fst (ib_users ib))" "distinct ?cs" using ib_invD [OF inv] by auto
  have len: "total_len (AList.update u (removeAll c ?cs) (ib_users ib)) + 1 = total_len (ib_users ib)"
    using total_len_update [of u "removeAll c ?cs" "ib_users ib"] m d(2)
      length_filter_removed [of ?cs "[c]"] by (simp add: removeAll_filter conns_def)
  have len2: "removeAll c ?cs = [] \<Longrightarrow>
      total_len (AList.delete u (ib_users ib)) = total_len (AList.update u (removeAll c ?cs) (ib_users ib))"
    using total_len_delete_Nil [of "AList.update u [] (ib_users ib)" u] d(1)
    by (simp add: distinct_update AList.delete_update_same)
  have users: "cs \<noteq> [] \<and> distinct cs \<and>
      (\<forall>x\<in>set cs. x < ib_next ?ib \<and> cn_userID (ib_heap ?ib x) = v \<and> ib_open ?ib x)"
    if v: "map_of (ib_users ?ib) v = Some cs" for v cs
  proof -
    have cs: "cs = removeAll c (conns v ib)"
      using v removeLocked_views [OF inv, of v c c] by (simp add: conns_def)
    have "map_of (ib_users ib) v = Some cs \<or> cs = removeAll c ?cs \<and> removeAll c ?cs \<noteq> []"
      using v by (auto simp: eq update_conv' delete_conv' split: if_splits)
    then have "cs \<noteq> []" using inv unfolding ib_inv_def by metis
    moreover have "x < ib_next ?ib \<and> cn_userID (ib_heap ?ib x) = v \<and> ib_open ?ib x" if "x \<in> set cs" for x
      using that cs ib_invD(7) [OF inv, of x v] removeLocked_views [OF inv, of v c x]
      by (auto simp: ib_same_def)
    ultimately show ?thesis using cs ib_invD(5) [OF inv] by (simp add: distinct_removeAll)
  qed
  have "ib_count ?ib = int (total_len (ib_users ?ib))"
    using ib_invD(2) [OF inv] len len2 by (cases "removeAll c ?cs = []") (auto simp: eq)
  moreover have "distinct (map fst (ib_users ?ib))"
    and "\<forall>x. chan_ok (cn_send (ib_heap ?ib x))" and "\<not> ib_panic ?ib"
    using ib_invD(1,3,4) [OF inv] d(1)
    by (simp_all add: eq ib_set_send_views distinct_update distinct_delete chan_ok_def)
  moreover have "ib_closed ?ib \<longrightarrow> ib_users ?ib = []"
    using ib_invD(6) [OF inv] m by (auto simp: eq ib_set_send_views conns_def)
  ultimately show ?thesis using users by (simp add: ib_inv_def)
qed

subsection \<open>One frame offered\<close>

lemma offer_spec:
  assumes "offer S d c ib = (ib', ok)" "ib_inv ib" "ib_open ib c"
  shows "ib_inv ib' \<and> ib_users ib' = ib_users ib \<and> ib_same ib ib' \<and> ib_open ib' = ib_open ib \<and>
    ib_log ib' = (ib_log ib)(c := ib_log ib c @ (if ok then [d] else [])) \<and>
    (\<not> ok \<longrightarrow> ib_full ib c) \<and> (\<forall>x. x \<noteq> c \<longrightarrow> ib_heap ib' x = ib_heap ib x)"
proof -
  let ?ch = "drain (ib_drained S ib c) (cn_send (ib_heap ib c))"
  let ?ib = "ib_set_send c ?ch ib"
  have ok: "chan_ok (cn_send (ib_heap ib c))" using ib_invD(3) [OF assms(2)] .
  have inv1: "ib_inv ?ib" using assms(2) ok by (simp add: ib_inv_set_send)
  consider (sent) ch where "try_send d ?ch = Sent ch" "ib' = ib_set_send c ch ?ib" "ok"
    | (full) "try_send d ?ch = Full" "ib' = ?ib" "\<not> ok"
    using assms(1,3)
    by (auto simp: offer_def Let_def ib_set_send_views ib_open_def split: send_result.splits)
  then show ?thesis
  proof cases
    case sent
    note s = try_send_Sent [OF sent(1)]
    have "ib_inv ib'" unfolding sent(2)
      using s assms(3) by (intro ib_inv_set_send [OF inv1]) (auto simp: ib_set_send_views ib_open_def)
    then show ?thesis
      using sent s assms(3) by (auto simp: ib_set_send_views ib_same_def ib_log_def ib_open_def fun_eq_iff)
  next
    case full
    then have "ib_full ib c"
      using ok by (auto simp: try_send_def ib_full_def chan_ok_def drain_def split: if_splits)
    with full show ?thesis
      using inv1 assms(3) by (auto simp: ib_set_send_views ib_log_def ib_open_def fun_eq_iff)
  qed
qed

subsection \<open>Delivery\<close>

text \<open>
  The abstract effect of a delivery over the connections \<open>cs\<close>: those in \<open>gone\<close> are unregistered and
  closed, the others are given the frame, and nothing else changes.
\<close>

definition delivered_to :: "string \<Rightarrow> conn_ref list \<Rightarrow> conn_ref set \<Rightarrow> inbox \<Rightarrow> inbox \<Rightarrow> bool" where
  "delivered_to d cs gone ib ib' \<longleftrightarrow>
     ib_same ib ib' \<and>
     (\<forall>u. conns u ib' = filter (\<lambda>c. c \<notin> gone) (conns u ib)) \<and>
     ib_open ib' = (\<lambda>c. ib_open ib c \<and> c \<notin> gone) \<and>
     ib_log ib' = (\<lambda>c. ib_log ib c @ (if c \<in> set cs - gone then [d] else [])) \<and>
     (\<forall>x. x \<notin> set cs \<longrightarrow> ib_heap ib' x = ib_heap ib x)"

lemma delivered_step:
  assumes "ib_inv ib" "offer S d c ib = (ib1, ok)" "ib_open ib c" "registered c ib" "c \<notin> set cs"
    and "delivered_to d cs gone (if ok then ib1 else removeLocked c ib1) ib'" "gone \<subseteq> set cs"
  shows "delivered_to d (c # cs) (if ok then gone else insert c gone) ib ib'"
proof -
  note o = offer_spec [OF assms(2,1,3)]
  have r: "registered c ib1" using o assms(4) by (auto simp: registered_def ib_same_def conns_def)
  show ?thesis
  proof (cases ok)
    case True
    with assms(5-7) o show ?thesis
      by (auto simp: delivered_to_def conns_def fun_eq_iff intro: ib_same_trans)
  next
    case False
    note v = removeLocked_views [of ib1 _ c]
    have "ib_same ib (removeLocked c ib1)" using o v ib_same_trans by blast
    with False assms(5-7) o r v show ?thesis
      by (auto simp: delivered_to_def conns_def fun_eq_iff removeAll_filter intro: ib_same_trans)
  qed
qed

lemma deliver_loop_spec:
  assumes "deliver_loop S d cs ib n = (ib', n')" "ib_inv ib" "distinct cs" "\<forall>c\<in>set cs. registered c ib"
  shows "\<exists>gone. set gone \<subseteq> {c \<in> set cs. ib_full ib c} \<and> distinct gone \<and> n' + length gone = n + length cs \<and>
    ib_inv ib' \<and> delivered_to d cs (set gone) ib ib'"
  using assms
proof (induction cs arbitrary: ib n)
  case Nil
  then show ?case by (auto simp: delivered_to_def)
next
  case (Cons c cs)
  obtain ib1 ok where o: "offer S d c ib = (ib1, ok)" by (cases "offer S d c ib")
  let ?ib = "if ok then ib1 else removeLocked c ib1"
  have c: "registered c ib" "ib_open ib c" "c \<notin> set cs" "distinct cs"
    using Cons.prems ib_invD(7) [OF Cons.prems(2)] by (auto simp: registered_def)
  note s = offer_spec [OF o Cons.prems(2) c(2)]
  have run: "deliver_loop S d cs ?ib (if ok then n + 1 else n) = (ib', n')"
    using Cons.prems(1) o by (auto split: if_splits)
  have inv: "ib_inv ?ib" using s removeLocked_inv by auto
  have views: "registered x ?ib \<and> (ib_full ?ib x \<longleftrightarrow> ib_full ib x)" if "x \<in> set cs" for x
  proof -
    have "x \<noteq> c" "registered x ib" using that c Cons.prems(4) by auto
    then show ?thesis
      using s removeLocked_views [of ib1 "cn_userID (ib_heap ib x)" c x]
      by (auto simp: registered_def conns_def ib_full_def)
  qed
  obtain gone where g: "set gone \<subseteq> {c \<in> set cs. ib_full ?ib c}" "distinct gone"
    "n' + length gone = (if ok then n + 1 else n) + length cs" "ib_inv ib'"
    "delivered_to d cs (set gone) ?ib ib'"
    using Cons.IH [OF run inv c(4)] views by blast
  have sub: "set gone \<subseteq> set cs" using g(1) by auto
  note step = delivered_step [OF Cons.prems(2) o c(2,1,3) g(5) sub]
  let ?gone = "if ok then gone else c # gone"
  have "set ?gone = (if ok then set gone else insert c (set gone))" by simp
  then have "delivered_to d (c # cs) (set ?gone) ib ib'" using step by presburger
  moreover have "set ?gone \<subseteq> {x \<in> set (c # cs). ib_full ib x}" using g(1) views s by auto
  ultimately show ?case using g(2-4) sub c(3) by (intro exI [of _ ?gone]) auto
qed

lemma Deliver_spec:
  assumes "ib_inv ib" "ib_valid S" "Deliver S u d ib = (ib', n)"
  shows "\<exists>gone. gone \<subseteq> {c \<in> set (conns u ib). ib_full ib c} \<and> n + card gone = length (conns u ib) \<and>
    ib_inv ib' \<and> delivered_to d (conns u ib) gone ib ib'"
proof -
  let ?cs = "ib_order S ib (conns u ib)"
  have m: "mset ?cs = mset (conns u ib)" using assms(2) by (simp add: ib_valid_def)
  then have cs: "set ?cs = set (conns u ib)" "distinct ?cs" "length ?cs = length (conns u ib)"
    using ib_invD(5) [OF assms(1), of u] by (metis mset_eq_setD mset_eq_distinct mset_eq_length)+
  have "\<forall>c\<in>set ?cs. registered c ib" using cs(1) registered_iff [OF assms(1)] by simp
  from deliver_loop_spec [OF assms(3) [unfolded Deliver_def] assms(1) cs(2) this]
  obtain gone where g: "set gone \<subseteq> {c \<in> set ?cs. ib_full ib c}" "distinct gone" "n + length gone = length ?cs"
    "ib_inv ib'" "delivered_to d ?cs (set gone) ib ib'" by auto
  from g(5) have "delivered_to d (conns u ib) (set gone) ib ib'" by (simp add: delivered_to_def cs(1))
  with g(1-4) cs show ?thesis by (intro exI [of _ "set gone"]) (simp add: distinct_card)
qed

lemma Deliver_counts:
  assumes "ib_inv ib" "ib_valid S" "Deliver S u d ib = (ib', n)"
  shows "n = length (conns u ib') \<and>
    (\<forall>c\<in>set (conns u ib'). c \<in> set (conns u ib) \<and> ib_log ib' c = ib_log ib c @ [d]) \<and>
    (\<forall>c\<in>set (conns u ib) - set (conns u ib'). ib_full ib c \<and> ib_log ib' c = ib_log ib c \<and> \<not> ib_open ib' c) \<and>
    ((\<forall>c\<in>set (conns u ib). \<not> ib_full ib c) \<longrightarrow> n = length (conns u ib)) \<and>
    (\<forall>v. v \<noteq> u \<longrightarrow> conns v ib' = conns v ib) \<and>
    (\<forall>c. c \<notin> set (conns u ib) \<longrightarrow> ib_heap ib' c = ib_heap ib c)"
proof -
  note inv = assms(1)
  obtain gone where g: "gone \<subseteq> {c \<in> set (conns u ib). ib_full ib c}" "n + card gone = length (conns u ib)"
    "ib_inv ib'" "delivered_to d (conns u ib) gone ib ib'"
    using Deliver_spec [OF inv assms(2,3)] by blast
  have cs: "conns v ib' = filter (\<lambda>c. c \<notin> gone) (conns v ib)" for v using g(4) by (simp add: delivered_to_def)
  obtain gs where gs: "set gs = gone" "distinct gs"
    using finite_distinct_list [of gone] finite_subset [OF g(1)] by auto
  have "set gs \<subseteq> set (conns u ib)" using g(1) gs(1) by auto
  from length_filter_removed [OF ib_invD(5) [OF inv, of u] gs(2) this]
  have "length (conns u ib') + card gone = length (conns u ib)"
    using gs cs by (auto simp: distinct_card)
  then have n: "n = length (conns u ib')" using g(2) by simp
  have "conns v ib' = conns v ib" if "v \<noteq> u" for v
    using that g(1) registered_iff [OF inv] by (auto simp: cs filter_id_conv)
  moreover have "gone = {}" if "\<forall>c\<in>set (conns u ib). \<not> ib_full ib c" using that g(1) by auto
  ultimately show ?thesis
    using n g(1,2,4) by (auto simp: cs delivered_to_def)
qed

subsection \<open>Registration, shutdown\<close>

text \<open>A connection that was created and is not registered yet.\<close>

definition waiting :: "conn_ref \<Rightarrow> inbox \<Rightarrow> bool" where
  "waiting c ib \<longleftrightarrow> c < ib_next ib \<and> ib_open ib c \<and> \<not> registered c ib"

lemma ib_add_spec:
  assumes "ib_inv ib" "waiting c ib" "\<not> ib_closed ib"
  defines "u \<equiv> cn_userID (ib_heap ib c)"
  shows "\<exists>ib'. ib_add c ib = (ib', True) \<and> ib_inv ib' \<and> ib_heap ib' = ib_heap ib \<and> ib_same ib ib' \<and>
    conns u ib' = c # conns u ib \<and> (\<forall>v. v \<noteq> u \<longrightarrow> conns v ib' = conns v ib)"
proof -
  let ?ib = "fst (ib_add c ib)"
  have n: "c \<notin> set (conns u ib)" using assms(2) by (simp add: waiting_def registered_def u_def)
  have eq: "?ib = ib\<lparr>ib_users := AList.update u (c # conns u ib) (ib_users ib), ib_count := ib_count ib + 1\<rparr>"
    using n assms(3) by (simp add: ib_add_def Let_def u_def)
  have "total_len (ib_users ?ib) = total_len (ib_users ib) + 1"
    using total_len_update [of u "c # conns u ib" "ib_users ib"] by (simp add: eq conns_def)
  moreover have "cs \<noteq> [] \<and> distinct cs \<and>
      (\<forall>x\<in>set cs. x < ib_next ib \<and> cn_userID (ib_heap ib x) = v \<and> ib_open ib x)"
    if "map_of (ib_users ?ib) v = Some cs" for v cs
  proof (cases "v = u")
    case True
    then show ?thesis
      using that n assms(2) ib_invD(5,7) [OF assms(1), where u = u]
      by (auto simp: eq update_conv' waiting_def u_def)
  next
    case False
    then show ?thesis using that assms(1) unfolding ib_inv_def by (simp add: eq update_conv')
  qed
  moreover have "ib_open ?ib = ib_open ib" by (simp add: eq ib_open_def fun_eq_iff)
  ultimately have "ib_inv ?ib"
    using ib_invD(1-4) [OF assms(1)] assms(3) by (simp add: ib_inv_def eq distinct_update)
  moreover have "snd (ib_add c ib)" using assms(3) by (simp add: ib_add_def Let_def)
  ultimately show ?thesis
    by (intro exI [of _ ?ib]) (auto simp: eq conns_def ib_same_def prod_eq_iff)
qed

lemma fold_close_spec:
  assumes "distinct cs" "\<forall>c\<in>set cs. ib_open ib c" "\<not> ib_panic ib"
  shows "\<not> ib_panic (fold ib_close_send cs ib) \<and> ib_same ib (fold ib_close_send cs ib) \<and>
    ib_open (fold ib_close_send cs ib) = (\<lambda>c. ib_open ib c \<and> c \<notin> set cs) \<and>
    ib_log (fold ib_close_send cs ib) = ib_log ib \<and>
    ((\<forall>c. chan_ok (cn_send (ib_heap ib c))) \<longrightarrow> (\<forall>c. chan_ok (cn_send (ib_heap (fold ib_close_send cs ib) c))))"
  using assms
proof (induction cs arbitrary: ib)
  case (Cons c cs)
  then obtain ch where ch: "close_chan (cn_send (ib_heap ib c)) = Some ch"
    by (cases "close_chan (cn_send (ib_heap ib c))") (auto simp: ib_open_def)
  note p = close_chan_Some [OF ch]
  let ?ib = "ib_set_send c ch ib"
  have v: "ib_open ?ib = (ib_open ib)(c := False)" "ib_log ?ib = ib_log ib" "ib_same ib ?ib"
    using p by (auto simp: ib_set_send_views ib_log_def fun_eq_iff)
  have c: "ib_close_send c ib = ?ib" by (simp add: ib_close_send_def ch)
  have "distinct cs" "\<forall>x\<in>set cs. ib_open ?ib x" "\<not> ib_panic ?ib"
    using Cons.prems v(1) by (auto simp: ib_set_send_views)
  note IH = Cons.IH [OF this]
  have same: "ib_same ib (fold ib_close_send cs ?ib)" using IH ib_same_trans [OF v(3)] by blast
  have ok: "\<forall>x. chan_ok (cn_send (ib_heap ib x)) \<Longrightarrow> \<forall>x. chan_ok (cn_send (ib_heap ?ib x))"
    using p by (simp add: ib_set_send_views)
  have "ib_open (fold ib_close_send cs ?ib) = (\<lambda>x. ib_open ib x \<and> x \<notin> set (c # cs))"
    using IH v(1) by (auto simp: fun_eq_iff)
  with IH same v(2) ok show ?case unfolding fold_simps c by metis
qed simp

lemma ib_Shutdown_spec:
  assumes "ib_inv ib"
  shows "ib_inv (ib_Shutdown ib) \<and> ib_closed (ib_Shutdown ib) \<and> ib_users (ib_Shutdown ib) = [] \<and>
    ib_open (ib_Shutdown ib) = (\<lambda>c. ib_open ib c \<and> \<not> registered c ib) \<and>
    ib_log (ib_Shutdown ib) = ib_log ib \<and> ib_next (ib_Shutdown ib) = ib_next ib \<and>
    (\<forall>c. cn_userID (ib_heap (ib_Shutdown ib) c) = cn_userID (ib_heap ib c))"
proof -
  let ?cs = "concat (map snd (ib_users ib))" and ?ib = "ib\<lparr>ib_closed := True\<rparr>"
  have al: "distinct cs \<and> (\<forall>c\<in>set cs. cn_userID (ib_heap ib c) = u) \<and> cs = conns u ib"
    if "(u, cs) \<in> set (ib_users ib)" for u cs
    using that assms by (auto simp: ib_inv_def conns_def)
  have d: "distinct ?cs"
    using al ib_invD(1) [OF assms] by (intro distinct_concat_members [where f = "\<lambda>c. cn_userID (ib_heap ib c)"]) auto
  have mem: "c \<in> set ?cs \<longleftrightarrow> registered c ib" for c
  proof
    assume "c \<in> set ?cs"
    then obtain u cs where "(u, cs) \<in> set (ib_users ib)" "c \<in> set cs" by auto
    with al [of u cs] show "registered c ib" by (auto simp: registered_def)
  next
    assume "registered c ib"
    then obtain cs where "map_of (ib_users ib) (cn_userID (ib_heap ib c)) = Some cs" "c \<in> set cs"
      using mem_members_of by (fastforce simp: registered_def conns_def)
    then show "c \<in> set ?cs" by (force dest: map_of_SomeD)
  qed
  have "\<forall>c\<in>set ?cs. ib_open ?ib c" using mem ib_invD(7) [OF assms] by (auto simp: registered_def ib_open_def)
  from fold_close_spec [OF d this] ib_invD(3,4) [OF assms]
  obtain ib1 where f: "ib1 = fold ib_close_send ?cs ?ib" "\<not> ib_panic ib1" "ib_same ?ib ib1"
    "ib_open ib1 = (\<lambda>c. ib_open ?ib c \<and> c \<notin> set ?cs)" "ib_log ib1 = ib_log ?ib"
    "\<forall>c. chan_ok (cn_send (ib_heap ib1 c))" by simp
  have sd: "ib_Shutdown ib = ib1\<lparr>ib_users := [], ib_count := 0\<rparr>"
    by (simp add: ib_Shutdown_def f(1))
  have v: "ib_open (ib_Shutdown ib) = ib_open ib1" "ib_log (ib_Shutdown ib) = ib_log ib1"
    "ib_open ?ib = ib_open ib" "ib_log ?ib = ib_log ib"
    by (simp_all add: sd ib_open_def ib_log_def fun_eq_iff)
  have "ib_closed ib1" "ib_next ib1 = ib_next ib"
    "\<forall>c. cn_userID (ib_heap ib1 c) = cn_userID (ib_heap ib c)" using f(3) by (simp_all add: ib_same_def)
  then show ?thesis
    unfolding v f(4,5) using f(2,6) mem by (simp add: sd ib_inv_def)
qed

subsection \<open>All interleavings\<close>

text \<open>
  \<open>ibs_pending\<close>: connections \<^verbatim>\<open>ServeHTTP\<close> has created and is about to register; \<open>ibs_reading\<close>:
  connections whose \<^verbatim>\<open>readPump\<close> runs.  A removal may be repeated, deliveries come from any handler.
\<close>

record inbox_sys =
  ibs_hub :: inbox
  ibs_pending :: "conn_ref set"
  ibs_reading :: "conn_ref set"

inductive inbox_step :: "inbox_sys \<Rightarrow> inbox_sys \<Rightarrow> bool" where
  accept: "new_conn i u (ibs_hub s) = (ib, c) \<Longrightarrow>
     inbox_step s (s\<lparr>ibs_hub := ib, ibs_pending := insert c (ibs_pending s)\<rparr>)"
| register: "c \<in> ibs_pending s \<Longrightarrow> ib_add c (ibs_hub s) = (ib, ok) \<Longrightarrow>
     inbox_step s (s\<lparr>ibs_hub := ib, ibs_pending := ibs_pending s - {c},
                     ibs_reading := (if ok then insert c (ibs_reading s) else ibs_reading s)\<rparr>)"
| read: "c \<in> ibs_reading s \<Longrightarrow> inbox_readPump dl c evs (ibs_hub s) = (ib, True) \<Longrightarrow>
     inbox_step s (s\<lparr>ibs_hub := ib\<rparr>)"
| event: "ib_valid S \<Longrightarrow> Deliver S u d (ibs_hub s) = (ib, n) \<Longrightarrow> inbox_step s (s\<lparr>ibs_hub := ib\<rparr>)"
| writer: "inbox_step s (s\<lparr>ibs_hub := ib_set_send c (drain n (cn_send (ib_heap (ibs_hub s) c))) (ibs_hub s)\<rparr>)"
| shutdown: "inbox_step s (s\<lparr>ibs_hub := ib_Shutdown (ibs_hub s)\<rparr>)"

inductive inbox_reach :: "inbox_sys \<Rightarrow> bool" where
  start: "(\<And>c. chan_ok (cn_send (heap c))) \<Longrightarrow>
     inbox_reach \<lparr>ibs_hub = NewInbox heap, ibs_pending = {}, ibs_reading = {}\<rparr>"
| more: "inbox_reach s \<Longrightarrow> inbox_step s s' \<Longrightarrow> inbox_reach s'"

inductive_cases inbox_stepE: "inbox_step s s'"

definition inbox_sys_inv :: "inbox_sys \<Rightarrow> bool" where
  "inbox_sys_inv s \<longleftrightarrow> ib_inv (ibs_hub s) \<and> (\<forall>c\<in>ibs_pending s. waiting c (ibs_hub s)) \<and>
     ibs_pending s \<inter> ibs_reading s = {} \<and> (\<forall>c\<in>ibs_reading s. c < ib_next (ibs_hub s))"

text \<open>An operation that neither registers nor closes a waiting connection keeps it waiting.\<close>

lemma waiting_cong:
  assumes "waiting c ib" "ib_same ib ib'" "ib_open ib' c" "\<And>u. set (conns u ib') \<subseteq> set (conns u ib)"
  shows "waiting c ib'"
  using assms by (auto simp: waiting_def registered_def ib_same_def)

lemma accept_spec:
  assumes "ib_inv ib" "new_conn i u ib = (ib', c)"
  shows "ib_inv ib' \<and> waiting c ib' \<and> c = ib_next ib \<and> cn_userID (ib_heap ib' c) = u \<and>
    ib_next ib' = Suc c \<and> ib_users ib' = ib_users ib \<and> ib_log ib' c = [] \<and> ib_closed ib' = ib_closed ib \<and>
    (\<forall>x. x \<noteq> c \<longrightarrow> ib_heap ib' x = ib_heap ib x) \<and> (\<forall>x. waiting x ib \<longrightarrow> waiting x ib')"
proof -
  have n: "c = ib_next ib" and eq: "ib' = ib\<lparr>ib_heap := (ib_heap ib)(c := \<lparr>cn_id = i, cn_userID = u,
      cn_send = make_chan sendBufferSize\<rparr>), ib_next := Suc c\<rparr>"
    using assms(2) by (auto simp: new_conn_def Let_def)
  have fresh: "c \<notin> set (conns v ib)" for v using ib_invD(7) [OF assms(1), of c v] n by auto
  have v: "conns v ib' = conns v ib" for v by (simp add: eq conns_def)
  have h: "x \<noteq> c \<longrightarrow> ib_heap ib' x = ib_heap ib x" for x by (simp add: eq)
  have new: "ib_open ib' c" "chan_ok (cn_send (ib_heap ib' c))" by (simp_all add: eq ib_open_def)
  have "cs \<noteq> [] \<and> distinct cs \<and>
      (\<forall>x\<in>set cs. x < ib_next ib' \<and> cn_userID (ib_heap ib' x) = w \<and> ib_open ib' x)"
    if "map_of (ib_users ib') w = Some cs" for w cs
  proof -
    have cs: "map_of (ib_users ib) w = Some cs" "conns w ib = cs" using that by (simp_all add: eq conns_def)
    moreover have "x < ib_next ib' \<and> cn_userID (ib_heap ib' x) = w \<and> ib_open ib' x" if "x \<in> set cs" for x
      using that cs fresh [of w] ib_invD(7) [OF assms(1), of x w] n by (auto simp: eq ib_open_def)
    ultimately show ?thesis using assms(1) unfolding ib_inv_def by blast
  qed
  then have "ib_inv ib'"
    using ib_invD(1-4,6) [OF assms(1)] new by (simp add: ib_inv_def eq)
  moreover have "waiting x ib \<longrightarrow> waiting x ib'" for x
    using n fresh by (auto simp: waiting_def registered_def conns_def eq ib_open_def)
  ultimately show ?thesis
    using n h new fresh v by (auto simp: waiting_def registered_def ib_log_def eq)
qed

lemma delivered_to_waiting:
  assumes "delivered_to d (conns u ib) gone ib ib'" "gone \<subseteq> set (conns u ib)" "waiting c ib" "ib_inv ib"
  shows "waiting c ib'"
proof (rule waiting_cong [OF assms(3)])
  have "c \<notin> set (conns u ib)" using assms(3,4) registered_iff by (auto simp: waiting_def)
  then show "ib_open ib' c" using assms by (auto simp: delivered_to_def waiting_def)
qed (use assms(1) in \<open>auto simp: delivered_to_def\<close>)

lemma register_inv:
  assumes "inbox_sys_inv s" "c \<in> ibs_pending s" "ib_add c (ibs_hub s) = (ib, ok)"
  shows "inbox_sys_inv (s\<lparr>ibs_hub := ib, ibs_pending := ibs_pending s - {c},
                     ibs_reading := (if ok then insert c (ibs_reading s) else ibs_reading s)\<rparr>)"
proof (cases "ib_closed (ibs_hub s)")
  case True
  with assms show ?thesis by (auto simp: inbox_sys_inv_def ib_add_def)
next
  case False
  let ?ib = "ibs_hub s"
  have w: "waiting c ?ib" "ib_inv ?ib" using assms by (auto simp: inbox_sys_inv_def)
  from ib_add_spec [OF w(2,1) False] assms(3)
  have a: "ok" "ib_inv ib" "ib_same ?ib ib" "ib_heap ib = ib_heap ?ib"
    and cs: "conns (cn_userID (ib_heap ?ib c)) ib = c # conns (cn_userID (ib_heap ?ib c)) ?ib"
      "\<And>v. v \<noteq> cn_userID (ib_heap ?ib c) \<Longrightarrow> conns v ib = conns v ?ib" by auto
  have sub: "set (conns v ib) \<subseteq> insert c (set (conns v ?ib))" for v
    using cs by (cases "v = cn_userID (ib_heap ?ib c)") auto
  have "waiting x ib" if "x \<in> ibs_pending s - {c}" for x
  proof -
    have "waiting x ?ib" "x \<noteq> c" using that assms(1) by (auto simp: inbox_sys_inv_def)
    then show ?thesis using a sub by (auto simp: waiting_def registered_def ib_same_def ib_open_def)
  qed
  then show ?thesis
    using a w(1) assms(1) by (auto simp: inbox_sys_inv_def waiting_def ib_same_def)
qed

lemma read_inv:
  assumes "inbox_sys_inv s" "c \<in> ibs_reading s"
  shows "inbox_sys_inv (s\<lparr>ibs_hub := removeLocked c (ibs_hub s)\<rparr>)"
proof -
  have inv: "ib_inv (ibs_hub s)" using assms(1) by (simp add: inbox_sys_inv_def)
  note v = removeLocked_views [OF inv, of _ c]
  have "waiting x (removeLocked c (ibs_hub s))" if "x \<in> ibs_pending s" for x
  proof (rule waiting_cong [of x "ibs_hub s"])
    have "waiting x (ibs_hub s)" "x \<noteq> c" using that assms by (auto simp: inbox_sys_inv_def)
    then show "waiting x (ibs_hub s)" "ib_open (removeLocked c (ibs_hub s)) x"
      using v by (auto simp: waiting_def)
  qed (use v in auto)
  then show ?thesis
    using assms(1) removeLocked_inv [OF inv, of c] v by (auto simp: inbox_sys_inv_def ib_same_def)
qed

lemma inbox_step_inv:
  assumes "inbox_step s s'" "inbox_sys_inv s"
  shows "inbox_sys_inv s'"
  using assms(1)
proof (cases rule: inbox_step.cases)
  case (accept i u ib c)
  then show ?thesis
    using accept_spec [of "ibs_hub s" i u ib c] assms(2) by (fastforce simp: inbox_sys_inv_def)
next
  case (register c ib ok)
  then show ?thesis using register_inv [OF assms(2)] by simp
next
  case (read c dl evs ib)
  then have "ib = removeLocked c (ibs_hub s)"
    by (auto simp: inbox_readPump_def ib_remove_def split: if_splits)
  then show ?thesis using read read_inv [OF assms(2), of c] by simp
next
  case (event S u d ib n)
  have inv: "ib_inv (ibs_hub s)" using assms(2) by (simp add: inbox_sys_inv_def)
  from Deliver_spec [OF inv event(2,3)]
  obtain gone where g: "gone \<subseteq> set (conns u (ibs_hub s))" "ib_inv ib"
    "delivered_to d (conns u (ibs_hub s)) gone (ibs_hub s) ib" by blast
  then have "ib_same (ibs_hub s) ib" by (simp add: delivered_to_def)
  with g event(1) assms(2) delivered_to_waiting [OF g(3,1) _ inv] show ?thesis
    by (auto simp: inbox_sys_inv_def ib_same_def)
next
  case (writer c n)
  then show ?thesis
    using assms(2) by (auto simp: inbox_sys_inv_def ib_set_send_views waiting_def registered_def conns_def
        ib_open_def intro!: ib_inv_set_send chan_ok_drain intro: ib_invD(3))
next
  case shutdown
  have inv: "ib_inv (ibs_hub s)" using assms(2) by (simp add: inbox_sys_inv_def)
  note ib_Shutdown_spec [OF inv]
  then show ?thesis
    using assms(2) shutdown by (auto simp: inbox_sys_inv_def waiting_def registered_def conns_def)
qed

lemma inbox_reach_inv: "inbox_reach s \<Longrightarrow> inbox_sys_inv s"
proof (induction rule: inbox_reach.induct)
  case (start heap)
  then show ?case by (simp add: inbox_sys_inv_def ib_inv_def NewInbox_def)
next
  case (more s s')
  then show ?case using inbox_step_inv by blast
qed

subsection \<open>Properties\<close>

text \<open>A state with one open connection, and a schedule, for the witnesses.\<close>

definition demo_conn :: conn where
  "demo_conn = \<lparr>cn_id = [], cn_userID = [], cn_send = make_chan 0\<rparr>"

definition demo_ids :: inbox_sys where
  "demo_ids = \<lparr>ibs_hub = fst (ib_add 0 (fst (new_conn ''1'' ''ann'' (NewInbox (\<lambda>_. demo_conn))))),
               ibs_pending = {}, ibs_reading = {0}\<rparr>"

definition demo_ib_sched :: ib_sched where
  "demo_ib_sched = \<lparr>ib_order = (\<lambda>ib xs. xs), ib_drained = (\<lambda>ib c. 0)\<rparr>"

lemma demo_ib_valid: "ib_valid demo_ib_sched"
  by (simp add: ib_valid_def demo_ib_sched_def)

lemmas demo_inbox_defs = demo_ids_def demo_conn_def demo_ib_sched_def new_conn_def ib_add_def NewInbox_def
  conns_def members_of_def Let_def make_chan_def sendBufferSize_def ib_set_send_def

lemma demo_ids_reach: "inbox_reach demo_ids"
proof -
  let ?s0 = "\<lparr>ibs_hub = NewInbox (\<lambda>_. demo_conn), ibs_pending = {}, ibs_reading = {}\<rparr>"
  let ?ib = "fst (new_conn ''1'' ''ann'' (NewInbox (\<lambda>_. demo_conn)))"
  have "inbox_reach ?s0" by (rule inbox_reach.start) (simp add: demo_conn_def)
  moreover have "inbox_step ?s0 (?s0\<lparr>ibs_hub := ?ib, ibs_pending := insert 0 {}\<rparr>)"
    using inbox_step.accept [of "''1''" "''ann''" ?s0 ?ib 0] by (simp add: new_conn_def Let_def NewInbox_def)
  moreover have "inbox_step (?s0\<lparr>ibs_hub := ?ib, ibs_pending := insert 0 {}\<rparr>) demo_ids"
    using inbox_step.register [of 0 "?s0\<lparr>ibs_hub := ?ib, ibs_pending := insert 0 {}\<rparr>" "fst (ib_add 0 ?ib)" True]
    by (simp add: demo_ids_def ib_add_def new_conn_def NewInbox_def Let_def)
  ultimately show ?thesis by (blast intro: inbox_reach.more)
qed

text \<open>C12. Whatever connections are opened, closed and written to, and in whatever interleaving, the
  inbox hub never sends on a closed channel or closes one twice; its connection count is the number of
  registered connections; and a user with an entry has at least one, each registered once, under its
  own user and with an open channel.\<close>

theorem inbox_safety:
  assumes "inbox_reach s"
  shows "\<not> ib_panic (ibs_hub s) \<and> ConnectionCount (ibs_hub s) = int (total_len (ib_users (ibs_hub s))) \<and>
    (\<forall>u cs. map_of (ib_users (ibs_hub s)) u = Some cs \<longrightarrow> cs \<noteq> [] \<and> distinct cs \<and>
      (\<forall>c\<in>set cs. cn_userID (ib_heap (ibs_hub s) c) = u \<and> \<not> ch_closed (cn_send (ib_heap (ibs_hub s) c))))"
  using inbox_reach_inv [OF assms]
  by (auto simp: inbox_sys_inv_def ib_inv_def ConnectionCount_def ib_open_def)

theorem inbox_safety_witness:
  "ConnectionCount (ibs_hub demo_ids) = 1 \<and> \<not> ib_panic (ibs_hub demo_ids)"
  using inbox_safety [OF demo_ids_reach] by (simp add: demo_inbox_defs ConnectionCount_def)

text \<open>C13. \<^verbatim>\<open>Deliver\<close> returns exactly the number of connections the user still has afterwards.  Each of
  those was given the event once; the others of that user were not draining (their buffer was full), were
  given nothing, and are closed; when none was full all are reached.  Connections and registrations of
  other users are untouched.\<close>

theorem deliver_reports_reachability:
  assumes "inbox_reach s" "ibs_hub s = ib" "ib_valid S" "Deliver S u d ib = (ib', n)"
  shows "n = length (conns u ib') \<and>
    (\<forall>c\<in>set (conns u ib'). c \<in> set (conns u ib) \<and> ib_log ib' c = ib_log ib c @ [d]) \<and>
    (\<forall>c\<in>set (conns u ib) - set (conns u ib'). ib_full ib c \<and> ib_log ib' c = ib_log ib c \<and> \<not> ib_open ib' c) \<and>
    ((\<forall>c\<in>set (conns u ib). \<not> ib_full ib c) \<longrightarrow> n = length (conns u ib)) \<and>
    (\<forall>v. v \<noteq> u \<longrightarrow> conns v ib' = conns v ib) \<and>
    (\<forall>c. c \<notin> set (conns u ib) \<longrightarrow> ib_heap ib' c = ib_heap ib c)"
proof (rule Deliver_counts [OF _ assms(3,4)])
  show "ib_inv ib" using inbox_reach_inv [OF assms(1)] assms(2) by (simp add: inbox_sys_inv_def)
qed

theorem deliver_reports_reachability_witness:
  "snd (Deliver demo_ib_sched ''ann'' ''hi'' (ibs_hub demo_ids)) = 1 \<and>
   snd (Deliver demo_ib_sched ''bob'' ''hi'' (ibs_hub demo_ids)) = 0"
  using deliver_reports_reachability [OF demo_ids_reach refl demo_ib_valid, of "''ann''" "''hi''"
      "fst (Deliver demo_ib_sched ''ann'' ''hi'' (ibs_hub demo_ids))" "snd (Deliver demo_ib_sched ''ann'' ''hi'' (ibs_hub demo_ids))"]
    deliver_reports_reachability [OF demo_ids_reach refl demo_ib_valid, of "''bob''" "''hi''"
      "fst (Deliver demo_ib_sched ''bob'' ''hi'' (ibs_hub demo_ids))" "snd (Deliver demo_ib_sched ''bob'' ''hi'' (ibs_hub demo_ids))"]
  by (simp add: demo_inbox_defs Deliver_def offer_def drain_def try_send_def)

text \<open>Opening an inbox makes the user reachable: once the endpoint has accepted a connection, the
  next event for that user is queued on it, as its first frame, and the delivery reports at least one.\<close>

lemma opened_inbox_receives:
  assumes "ib_inv ib" "ib_valid S" "inbox_ServeHTTP (Inr (u, name)) True ids ib = (ib1, ids', InboxOpen c)"
    and "Deliver S u d ib1 = (ib2, n)"
  shows "ids' = ids + 1 \<and> c \<in> set (conns u ib2) \<and> ib_log ib2 c = [d] \<and> 1 \<le> n"
proof -
  obtain ib0 where n0: "new_conn (format_nat (unat (ids + 1))) u ib = (ib0, c)" "ib_add c ib0 = (ib1, True)"
    and ids: "ids' = ids + 1"
    using assms(3) by (auto simp: inbox_ServeHTTP_def Let_def split: prod.splits if_splits)
  note a = accept_spec [OF assms(1) n0(1)]
  have "\<not> ib_closed ib0" using n0(2) by (auto simp: ib_add_def split: if_splits)
  with ib_add_spec [of ib0 c] a n0(2)
  have r: "ib_inv ib1" "ib_heap ib1 = ib_heap ib0" "c \<in> set (conns u ib1)" by auto
  have c: "cn_send (ib_heap ib0 c) = make_chan sendBufferSize" using n0(1) by (auto simp: new_conn_def Let_def)
  then have "\<not> ib_full ib1 c" by (simp add: ib_full_def r(2) make_chan_def sendBufferSize_def)
  moreover obtain gone where g: "gone \<subseteq> {c \<in> set (conns u ib1). ib_full ib1 c}"
    "delivered_to d (conns u ib1) gone ib1 ib2" "n + card gone = length (conns u ib1)"
    using Deliver_spec [OF r(1) assms(2,4)] by blast
  ultimately have "c \<notin> gone" by auto
  then have "c \<in> set (conns u ib2)" "ib_log ib2 c = [d]"
    using g(2) r(3) c by (auto simp: delivered_to_def ib_log_def r(2))
  moreover have "gone \<subset> set (conns u ib1)" using g(1) \<open>c \<notin> gone\<close> r(3) by auto
  then have "card gone < length (conns u ib1)"
    using psubset_card_mono [of "set (conns u ib1)" gone] ib_invD(5) [OF r(1), of u] by (simp add: distinct_card)
  ultimately show ?thesis using ids g(3) by simp
qed

text \<open>Shutting the inbox hub down closes every registered connection, loses no queued event, leaves
  no registration behind, and is final: later connections are refused, later deliveries reach nobody,
  and the readers' removals do nothing.\<close>

lemma inbox_shutdown_final:
  assumes "inbox_reach s" "ib' = ib_Shutdown (ibs_hub s)"
  shows "\<not> ib_panic ib' \<and> ConnectionCount ib' = 0 \<and> (\<forall>u. conns u ib' = []) \<and>
    (\<forall>u. \<forall>c\<in>set (conns u (ibs_hub s)). \<not> ib_open ib' c) \<and> ib_log ib' = ib_log (ibs_hub s) \<and>
    ib_add c ib' = (ib', False) \<and> ib_remove c ib' = ib' \<and> (ib_valid S \<longrightarrow> Deliver S u d ib' = (ib', 0))"
proof -
  have inv: "ib_inv (ibs_hub s)" using inbox_reach_inv [OF assms(1)] by (simp add: inbox_sys_inv_def)
  note sd = ib_Shutdown_spec [OF inv, folded assms(2)]
  have cs: "conns v ib' = []" for v using sd by (simp add: conns_def)
  have "ib_order S ib' [] = []" if "ib_valid S" using that by (metis ib_valid_def mset_zero_iff)
  then have "ib_valid S \<longrightarrow> Deliver S u d ib' = (ib', 0)" by (simp add: Deliver_def cs)
  moreover have "ib_remove c ib' = ib'" using sd by (simp add: ib_remove_def removeLocked_def Let_def)
  moreover have "ib_count ib' = 0" using sd ib_invD(2) [of ib'] by simp
  ultimately show ?thesis
    using sd cs ib_invD(4) registered_iff [OF inv] by (auto simp: ib_add_def ConnectionCount_def)
qed

end
