(* ===== verification/Redis.thy ===== *)
theory Redis
  imports GoStrings
begin

text \<open>
  The key-value server behind sessions, websocket tickets and rate limits, as the code sees it through
  its client library: a record of operations over an unknown server state \<open>'s\<close>.  Any call may fail.
  What the code relies on is the locale \<open>redis_server\<close>: a view \<open>entries\<close> of the state as a map from
  keys to values with their expiry, and what each successful command does to the live part of that view.
  A failed call leaves the keys it does not name alone; a failed transaction, none of whose commands can
  fail by itself, happened entirely (and the reply was lost) or not at all.  Operations are
  performed at a time \<open>t\<close>, the same clock the process reads.  \<open>mem_redis\<close> is an in-memory server that
  satisfies all of it.
\<close>

datatype redis_error = RedisError

datatype redis_cmd =
    CSet string string duration
  | CDel "string list"
  | CSAdd string "string list"
  | CSRem string "string list"
  | CExpire string duration

record 's redis =
  rd_get :: "string \<Rightarrow> gotime \<Rightarrow> 's \<Rightarrow> 's \<times> (redis_error + string option)"
  rd_getdel :: "string \<Rightarrow> gotime \<Rightarrow> 's \<Rightarrow> 's \<times> (redis_error + string option)"
  rd_smembers :: "string \<Rightarrow> gotime \<Rightarrow> 's \<Rightarrow> 's \<times> (redis_error + string list)"
  rd_exec :: "redis_cmd list \<Rightarrow> gotime \<Rightarrow> 's \<Rightarrow> 's \<times> redis_error option"
  rd_incr :: "string \<Rightarrow> gotime \<Rightarrow> 's \<Rightarrow> 's \<times> (redis_error + int)"
  rd_pexpire :: "string \<Rightarrow> int \<Rightarrow> gotime \<Rightarrow> 's \<Rightarrow> 's \<times> redis_error option"
  rd_pttl :: "string \<Rightarrow> gotime \<Rightarrow> 's \<Rightarrow> 's \<times> (redis_error + int)"

subsection \<open>What a command does\<close>

datatype rval = RStr string | RSet "string set" | RCount int

type_synonym entry = "rval \<times> gotime option"
type_synonym db = "string \<Rightarrow> entry option"

definition live_at :: "gotime \<Rightarrow> entry option \<Rightarrow> entry option" where
  "live_at t x = (case x of
     Some (v, Some d) \<Rightarrow> if t < d then Some (v, Some d) else None
   | _ \<Rightarrow> x)"

definition live :: "gotime \<Rightarrow> db \<Rightarrow> db" where
  "live t m = (\<lambda>k. live_at t (m k))"

text \<open>Expiry of \<^verbatim>\<open>SET\<close>: a positive duration, rounded to milliseconds; \<^verbatim>\<open>-1\<close> keeps the old one; zero or any
  other negative value means none at all.\<close>

definition ttl_spec :: "gotime \<Rightarrow> duration \<Rightarrow> entry option \<Rightarrow> gotime option \<Rightarrow> bool" where
  "ttl_spec t ttl old e \<longleftrightarrow>
     (if 0 < ttl then \<exists>d. e = Some d \<and> t < d \<and> d \<le> t + max ttl millisecond \<and> t + ttl < d + millisecond
      else if ttl = - 1 then e = (case old of Some (_, e') \<Rightarrow> e' | None \<Rightarrow> None)
      else e = None)"

text \<open>\<^verbatim>\<open>EXPIRE\<close> takes whole seconds.\<close>

definition expire_spec :: "gotime \<Rightarrow> duration \<Rightarrow> gotime \<Rightarrow> bool" where
  "expire_spec t d e \<longleftrightarrow> t < e \<and> (d mod second = 0 \<longrightarrow> e = t + d) \<and> e \<le> t + max d second"

fun cmd_spec :: "gotime \<Rightarrow> redis_cmd \<Rightarrow> db \<Rightarrow> db \<Rightarrow> bool" where
  "cmd_spec t (CSet k v ttl) m m' \<longleftrightarrow> (\<exists>e. ttl_spec t ttl (m k) e \<and> m' = m(k := Some (RStr v, e)))"
| "cmd_spec t (CDel ks) m m' \<longleftrightarrow> m' = (\<lambda>k. if k \<in> set ks then None else m k)"
| "cmd_spec t (CSAdd k xs) m m' \<longleftrightarrow>
     (\<exists>A e. (m k = Some (RSet A, e) \<or> m k = None \<and> A = {} \<and> e = None) \<and>
        m' = m(k := Some (RSet (A \<union> set xs), e)))"
| "cmd_spec t (CSRem k xs) m m' \<longleftrightarrow>
     m k = None \<and> m' = m \<or>
     (\<exists>A e. m k = Some (RSet A, e) \<and>
        m' = m(k := if A \<subseteq> set xs then None else Some (RSet (A - set xs), e)))"
| "cmd_spec t (CExpire k d) m m' \<longleftrightarrow>
     (case m k of
        None \<Rightarrow> m' = m
      | Some (v, _) \<Rightarrow> if d \<le> 0 then m' = m(k := None)
                      else \<exists>e. expire_spec t d e \<and> m' = m(k := Some (v, Some e)))"

fun cmds_spec :: "gotime \<Rightarrow> redis_cmd list \<Rightarrow> db \<Rightarrow> db \<Rightarrow> bool" where
  "cmds_spec t [] m m' \<longleftrightarrow> m' = m"
| "cmds_spec t (c # cs) m m' \<longleftrightarrow> (\<exists>m1. cmd_spec t c m m1 \<and> cmds_spec t cs m1 m')"

fun cmd_keys :: "redis_cmd \<Rightarrow> string set" where
  "cmd_keys (CSet k v ttl) = {k}"
| "cmd_keys (CDel ks) = set ks"
| "cmd_keys (CSAdd k xs) = {k}"
| "cmd_keys (CSRem k xs) = {k}"
| "cmd_keys (CExpire k d) = {k}"

definition cmds_keys :: "redis_cmd list \<Rightarrow> string set" where
  "cmds_keys cs = \<Union> (cmd_keys ` set cs)"

text \<open>Every set command meets a set or nothing: then no command of a transaction can fail by itself.\<close>

fun set_keys :: "redis_cmd \<Rightarrow> string set" where
  "set_keys (CSAdd k xs) = {k}"
| "set_keys (CSRem k xs) = {k}"
| "set_keys _ = {}"

fun set_or_none :: "entry option \<Rightarrow> bool" where
  "set_or_none None = True"
| "set_or_none (Some (RSet A, e)) = True"
| "set_or_none (Some _) = False"

definition cmds_typed :: "redis_cmd list \<Rightarrow> db \<Rightarrow> bool" where
  "cmds_typed cs m \<longleftrightarrow> (\<forall>c\<in>set cs. \<forall>k\<in>set_keys c. set_or_none (m k))"

definition agree_off :: "string set \<Rightarrow> db \<Rightarrow> db \<Rightarrow> bool" where
  "agree_off K m m' \<longleftrightarrow> (\<forall>k. k \<notin> K \<longrightarrow> m' k = m k)"

lemma agree_offD: "agree_off K m m' \<Longrightarrow> k \<notin> K \<Longrightarrow> m' k = m k"
  by (simp add: agree_off_def)

lemma agree_off_refl [simp]: "agree_off K m m"
  by (simp add: agree_off_def)

lemma agree_off_trans: "agree_off K a b \<Longrightarrow> agree_off L b c \<Longrightarrow> agree_off (K \<union> L) a c"
  by (simp add: agree_off_def)

lemma agree_off_mono: "agree_off K a b \<Longrightarrow> K \<subseteq> L \<Longrightarrow> agree_off L a b"
  by (auto simp: agree_off_def)

lemma live_live [simp]: "t \<le> t' \<Longrightarrow> live t' (live t m) = live t' m"
  by (auto simp: live_def live_at_def fun_eq_iff split: option.splits)

lemma live_later: "t \<le> t' \<Longrightarrow> live t' m k = live_at t' (live t m k)"
  by (auto simp: live_def live_at_def split: option.splits)

lemma live_at_None [simp]: "live_at t None = None"
  by (simp add: live_at_def)

lemma live_at_Some: "live_at t (Some (v, e)) = (if e = None \<or> t < the e then Some (v, e) else None)"
  by (auto simp: live_at_def split: option.splits)

lemma set_or_none_later: "set_or_none x \<Longrightarrow> set_or_none (live_at t x)"
  by (cases x rule: set_or_none.cases) (auto simp: live_at_Some)

lemma live_SomeD: "live t m k = Some (v, Some d) \<Longrightarrow> t < d"
  by (auto simp: live_def live_at_def split: option.splits if_splits)

lemma cmd_spec_agree: "cmd_spec t c m m' \<Longrightarrow> agree_off (cmd_keys c) m m'"
  by (cases c) (auto simp: agree_off_def split: option.splits if_splits prod.splits)

lemma cmds_spec_agree: "cmds_spec t cs m m' \<Longrightarrow> agree_off (cmds_keys cs) m m'"
proof (induction cs arbitrary: m)
  case (Cons c cs)
  then obtain m1 where "cmd_spec t c m m1" "cmds_spec t cs m1 m'" by auto
  with Cons.IH show ?case
    using agree_off_trans [OF cmd_spec_agree] by (fastforce simp: cmds_keys_def)
qed simp

subsection \<open>The interface\<close>

locale redis_server =
  fixes R :: "'s redis" and entries :: "'s \<Rightarrow> db"
  assumes get_ok: "rd_get R k t s = (s', Inr r) \<Longrightarrow> live t (entries s') = live t (entries s) \<and>
      (case live t (entries s) k of
         None \<Rightarrow> r = None
       | Some (RStr v, _) \<Rightarrow> r = Some v
       | Some _ \<Rightarrow> False)"
    and get_err: "rd_get R k t s = (s', Inl x) \<Longrightarrow> live t (entries s') = live t (entries s)"
    and getdel_ok: "rd_getdel R k t s = (s', Inr r) \<Longrightarrow> live t (entries s') = (live t (entries s))(k := None) \<and>
      (case live t (entries s) k of
         None \<Rightarrow> r = None
       | Some (RStr v, _) \<Rightarrow> r = Some v
       | Some _ \<Rightarrow> False)"
    and getdel_err: "rd_getdel R k t s = (s', Inl x) \<Longrightarrow>
      live t (entries s') = live t (entries s) \<or> live t (entries s') = (live t (entries s))(k := None)"
    and smembers_ok: "rd_smembers R k t s = (s', Inr xs) \<Longrightarrow> live t (entries s') = live t (entries s) \<and>
      distinct xs \<and>
      (case live t (entries s) k of
         None \<Rightarrow> xs = []
       | Some (RSet A, _) \<Rightarrow> set xs = A
       | Some _ \<Rightarrow> False)"
    and smembers_err: "rd_smembers R k t s = (s', Inl x) \<Longrightarrow> live t (entries s') = live t (entries s)"
    and exec_ok: "rd_exec R cs t s = (s', None) \<Longrightarrow> cmds_spec t cs (live t (entries s)) (live t (entries s'))"
    and exec_err: "rd_exec R cs t s = (s', Some x) \<Longrightarrow>
      agree_off (cmds_keys cs) (live t (entries s)) (live t (entries s')) \<and>
      (cmds_typed cs (live t (entries s)) \<longrightarrow>
         live t (entries s') = live t (entries s) \<or> cmds_spec t cs (live t (entries s)) (live t (entries s')))"
    and incr_ok: "rd_incr R k t s = (s', Inr n) \<Longrightarrow>
      (case live t (entries s) k of
         None \<Rightarrow> n = 1 \<and> live t (entries s') = (live t (entries s))(k := Some (RCount 1, None))
       | Some (RCount c, e) \<Rightarrow> n = c + 1 \<and> live t (entries s') = (live t (entries s))(k := Some (RCount (c + 1), e))
       | Some _ \<Rightarrow> False)"
    and incr_err: "rd_incr R k t s = (s', Inl x) \<Longrightarrow> agree_off {k} (live t (entries s)) (live t (entries s'))"
    and pexpire_ok: "rd_pexpire R k n t s = (s', None) \<Longrightarrow> live t (entries s') =
      (case live t (entries s) k of
         None \<Rightarrow> live t (entries s)
       | Some (v, _) \<Rightarrow> if n \<le> 0 then (live t (entries s))(k := None)
                       else (live t (entries s))(k := Some (v, Some (t + n * millisecond))))"
    and pexpire_err: "rd_pexpire R k n t s = (s', Some x) \<Longrightarrow> agree_off {k} (live t (entries s)) (live t (entries s'))"
    and pttl_ok: "rd_pttl R k t s = (s', Inr n) \<Longrightarrow> live t (entries s') = live t (entries s) \<and>
      (case live t (entries s) k of
         None \<Rightarrow> n = - 2
       | Some (_, None) \<Rightarrow> n = - 1
       | Some (_, Some d) \<Rightarrow> n = (d - t) div millisecond)"
    and pttl_err: "rd_pttl R k t s = (s', Inl x) \<Longrightarrow> live t (entries s') = live t (entries s)"
begin

lemma exec_cases:
  assumes "rd_exec R cs t s = (s', x)" "cmds_typed cs (live t (entries s))"
  shows "cmds_spec t cs (live t (entries s)) (live t (entries s')) \<or>
    x \<noteq> None \<and> live t (entries s') = live t (entries s)"
  using assms exec_ok [of cs t s s'] exec_err [of cs t s s'] by (cases x) auto

lemma exec_agree:
  "rd_exec R cs t s = (s', x) \<Longrightarrow> agree_off (cmds_keys cs) (live t (entries s)) (live t (entries s'))"
  by (cases x) (auto dest: exec_err exec_ok cmds_spec_agree)

lemma get_keeps: "rd_get R k t s = (s', x) \<Longrightarrow> live t (entries s') = live t (entries s)"
  by (cases x) (auto dest: get_err get_ok)

lemma smembers_keeps: "rd_smembers R k t s = (s', x) \<Longrightarrow> live t (entries s') = live t (entries s)"
  by (cases x) (auto dest: smembers_err smembers_ok)

lemma get_None: "rd_get R k t s = (s', Inr None) \<Longrightarrow> live t (entries s) k = None"
  by (auto dest!: get_ok split: option.splits rval.splits)

lemma get_Some: "rd_get R k t s = (s', Inr (Some v)) \<Longrightarrow> \<exists>e. live t (entries s) k = Some (RStr v, e)"
  by (auto dest!: get_ok split: option.splits rval.splits)

end

subsection \<open>An in-memory server\<close>

text \<open>\<open>up\<close> says when the server answers at all; its sets are lists.\<close>

datatype mem_val = MStr string | MSet "string list" | MCount int

record mem =
  mem_db :: "string \<Rightarrow> (mem_val \<times> gotime option) option"
  mem_up :: bool

fun mem_abs :: "mem_val \<Rightarrow> rval" where
  "mem_abs (MStr v) = RStr v"
| "mem_abs (MSet xs) = RSet (set xs)"
| "mem_abs (MCount n) = RCount n"

definition mem_entries :: "mem \<Rightarrow> db" where
  "mem_entries s = (\<lambda>k. map_option (\<lambda>(v, e). (mem_abs v, e)) (mem_db s k))"

definition mem_find :: "string \<Rightarrow> gotime \<Rightarrow> mem \<Rightarrow> (mem_val \<times> gotime option) option" where
  "mem_find k t s = (case mem_db s k of
     Some (v, e) \<Rightarrow> if e = None \<or> t < the e then Some (v, e) else None
   | None \<Rightarrow> None)"

definition mem_put :: "string \<Rightarrow> (mem_val \<times> gotime option) option \<Rightarrow> mem \<Rightarrow> mem" where
  "mem_put k x s = s\<lparr>mem_db := (mem_db s)(k := x)\<rparr>"

definition mem_ttl :: "gotime \<Rightarrow> duration \<Rightarrow> (mem_val \<times> gotime option) option \<Rightarrow> gotime option" where
  "mem_ttl t ttl old =
     (if 0 < ttl then Some (t + max millisecond (ttl - ttl mod millisecond))
      else if ttl = - 1 then (case old of Some (_, e) \<Rightarrow> e | None \<Rightarrow> None)
      else None)"

fun mem_cmd :: "gotime \<Rightarrow> redis_cmd \<Rightarrow> mem \<Rightarrow> mem option" where
  "mem_cmd t (CSet k v ttl) s = Some (mem_put k (Some (MStr v, mem_ttl t ttl (mem_find k t s))) s)"
| "mem_cmd t (CDel ks) s = Some (fold (\<lambda>k. mem_put k None) ks s)"
| "mem_cmd t (CSAdd k xs) s = (case mem_find k t s of
     None \<Rightarrow> Some (mem_put k (Some (MSet (remdups xs), None)) s)
   | Some (MSet ys, e) \<Rightarrow> Some (mem_put k (Some (MSet (remdups (ys @ xs)), e)) s)
   | Some _ \<Rightarrow> None)"
| "mem_cmd t (CSRem k xs) s = (case mem_find k t s of
     None \<Rightarrow> Some s
   | Some (MSet ys, e) \<Rightarrow>
       (let zs = filter (\<lambda>y. y \<notin> set xs) ys
        in Some (mem_put k (if zs = [] then None else Some (MSet zs, e)) s))
   | Some _ \<Rightarrow> None)"
| "mem_cmd t (CExpire k d) s = (case mem_find k t s of
     None \<Rightarrow> Some s
   | Some (v, _) \<Rightarrow> Some (mem_put k (if d \<le> 0 then None else Some (v, Some (t + max second (d - d mod second)))) s))"

fun mem_cmds :: "gotime \<Rightarrow> redis_cmd list \<Rightarrow> mem \<Rightarrow> mem option" where
  "mem_cmds t [] s = Some s"
| "mem_cmds t (c # cs) s = Option.bind (mem_cmd t c s) (mem_cmds t cs)"

definition mem_redis :: "mem redis" where
  "mem_redis = \<lparr>
     rd_get = (\<lambda>k t s. if \<not> mem_up s then (s, Inl RedisError) else
       (s, case mem_find k t s of None \<Rightarrow> Inr None | Some (MStr v, _) \<Rightarrow> Inr (Some v) | Some _ \<Rightarrow> Inl RedisError)),
     rd_getdel = (\<lambda>k t s. if \<not> mem_up s then (s, Inl RedisError) else
       (case mem_find k t s of
          None \<Rightarrow> (s, Inr None)
        | Some (MStr v, _) \<Rightarrow> (mem_put k None s, Inr (Some v))
        | Some _ \<Rightarrow> (s, Inl RedisError))),
     rd_smembers = (\<lambda>k t s. if \<not> mem_up s then (s, Inl RedisError) else
       (s, case mem_find k t s of None \<Rightarrow> Inr [] | Some (MSet xs, _) \<Rightarrow> Inr (remdups xs) | Some _ \<Rightarrow> Inl RedisError)),
     rd_exec = (\<lambda>cs t s. if \<not> mem_up s then (s, Some RedisError) else
       (case mem_cmds t cs s of None \<Rightarrow> (s, Some RedisError) | Some s' \<Rightarrow> (s', None))),
     rd_incr = (\<lambda>k t s. if \<not> mem_up s then (s, Inl RedisError) else
       (case mem_find k t s of
          None \<Rightarrow> (mem_put k (Some (MCount 1, None)) s, Inr 1)
        | Some (MCount c, e) \<Rightarrow> (mem_put k (Some (MCount (c + 1), e)) s, Inr (c + 1))
        | Some _ \<Rightarrow> (s, Inl RedisError))),
     rd_pexpire = (\<lambda>k n t s. if \<not> mem_up s then (s, Some RedisError) else
       (case mem_find k t s of
          None \<Rightarrow> (s, None)
        | Some (v, _) \<Rightarrow> (mem_put k (if n \<le> 0 then None else Some (v, Some (t + n * millisecond))) s, None))),
     rd_pttl = (\<lambda>k t s. if \<not> mem_up s then (s, Inl RedisError) else
       (s, case mem_find k t s of
             None \<Rightarrow> Inr (- 2)
           | Some (_, None) \<Rightarrow> Inr (- 1)
           | Some (_, Some d) \<Rightarrow> Inr ((d - t) div millisecond)))\<rparr>"

lemma mem_live: "live t (mem_entries s) k = map_option (\<lambda>(v, e). (mem_abs v, e)) (mem_find k t s)"
  by (auto simp: live_def mem_entries_def mem_find_def live_at_def split: option.splits)

lemma mem_live_put:
  "live t (mem_entries (mem_put k x s)) =
   (live t (mem_entries s))(k := live_at t (map_option (\<lambda>(v, e). (mem_abs v, e)) x))"
  by (auto simp: live_def mem_entries_def mem_put_def fun_eq_iff)

lemma mem_ttl_spec: "ttl_spec t ttl (map_option (\<lambda>(v, e). (mem_abs v, e)) old) (mem_ttl t ttl old)"
proof (cases "0 < ttl")
  case True
  have "0 \<le> ttl mod millisecond" "ttl mod millisecond < millisecond" by simp_all
  with True show ?thesis unfolding ttl_spec_def mem_ttl_def by (auto simp: max_def)
next
  case False
  then show ?thesis by (auto simp: ttl_spec_def mem_ttl_def split: option.splits)
qed

lemma mem_ttl_live: "mem_find k t s = old \<Longrightarrow>
  live_at t (Some (v, mem_ttl t ttl old)) = Some (v, mem_ttl t ttl old)"
  by (auto simp: live_at_Some mem_ttl_def mem_find_def split: option.splits if_splits)

lemma mem_expire_spec: "0 < d \<Longrightarrow> expire_spec t d (t + max second (d - d mod second))"
proof -
  assume d: "0 < d"
  have "0 \<le> d mod second" "d mod second < second" by simp_all
  moreover have "second \<le> d" if "d mod second = 0" using d that by (simp add: zdvd_imp_le mod_eq_0_iff_dvd)
  ultimately show ?thesis unfolding expire_spec_def by (auto simp: max_def)
qed

lemma mem_find_live: "mem_find k t s = Some (v, e) \<Longrightarrow> live_at t (Some (w, e)) = Some (w, e)"
  by (auto simp: live_at_Some mem_find_def split: option.splits if_splits)

lemma mem_del_live: "live t (mem_entries (fold (\<lambda>k. mem_put k None) ks s)) =
  (\<lambda>k. if k \<in> set ks then None else live t (mem_entries s) k)"
  by (induction ks arbitrary: s) (auto simp: mem_live_put fun_eq_iff)

lemma mem_cmd_spec:
  assumes "mem_cmd t c s = Some s'"
  shows "cmd_spec t c (live t (mem_entries s)) (live t (mem_entries s'))"
proof (cases c)
  case (CSet k v ttl)
  then show ?thesis
    using assms mem_ttl_spec [of t ttl "mem_find k t s"] mem_ttl_live [OF refl, of t "RStr v" ttl k s]
    by (auto simp: mem_live_put mem_live)
next
  case (CDel ks)
  then show ?thesis using assms by (auto simp: mem_del_live)
next
  case (CSAdd k xs)
  then show ?thesis
    using assms
    by (fastforce simp: mem_live_put mem_live live_at_Some [of t _ None] dest: mem_find_live
        split: option.splits mem_val.splits prod.splits)
next
  case (CSRem k xs)
  then consider (absent) "mem_find k t s = None" "s' = s"
    | (present) ys e where "mem_find k t s = Some (MSet ys, e)"
        "s' = mem_put k (if filter (\<lambda>y. y \<notin> set xs) ys = [] then None
                         else Some (MSet (filter (\<lambda>y. y \<notin> set xs) ys), e)) s"
    using assms by (auto simp: Let_def split: option.splits mem_val.splits prod.splits)
  then show ?thesis
  proof cases
    case absent
    then show ?thesis using CSRem by (simp add: mem_live)
  next
    case present
    have "filter (\<lambda>y. y \<notin> set xs) ys = [] \<longleftrightarrow> set ys \<subseteq> set xs" by (auto simp: filter_empty_conv)
    moreover have "{y \<in> set ys. y \<notin> set xs} = set ys - set xs" by auto
    ultimately show ?thesis
      using CSRem present mem_find_live [OF present(1)] by (simp add: mem_live_put mem_live)
  qed
next
  case (CExpire k d)
  have "live_at t (Some (w, Some (t + max second (d - d mod second)))) =
      Some (w, Some (t + max second (d - d mod second)))" for w
    by (simp add: live_at_Some)
  then show ?thesis
    using assms CExpire mem_expire_spec [of d t]
    by (auto simp: mem_live_put mem_live split: option.splits prod.splits if_splits)
qed

lemma mem_cmds_spec:
  "mem_cmds t cs s = Some s' \<Longrightarrow> cmds_spec t cs (live t (mem_entries s)) (live t (mem_entries s'))"
proof (induction cs arbitrary: s)
  case (Cons c cs)
  then obtain s1 where "mem_cmd t c s = Some s1" "mem_cmds t cs s1 = Some s'"
    by (auto simp: bind_eq_Some_conv)
  with Cons.IH mem_cmd_spec show ?case by fastforce
qed simp

lemmas mem_simps = mem_redis_def mem_live mem_live_put agree_off_def live_at_Some [of _ _ None]

lemmas mem_splits = if_splits option.splits mem_val.splits prod.splits

lemma mem_put_None_absent:
  "mem_find k t s = None \<Longrightarrow> (live t (mem_entries s))(k := None) = live t (mem_entries s)"
  by (auto simp: mem_live fun_eq_iff)

interpretation mem: redis_server mem_redis mem_entries
proof (unfold_locales, goal_cases)
  case (1 k t s s' r)
  then show ?case by (auto simp: mem_simps split: mem_splits)
next
  case (2 k t s s' x)
  then show ?case by (auto simp: mem_simps split: mem_splits)
next
  case (3 k t s s' r)
  then show ?case by (auto simp: mem_simps mem_put_None_absent split: mem_splits)
next
  case (4 k t s s' x)
  then show ?case by (auto simp: mem_simps split: mem_splits)
next
  case (5 k t s s' xs)
  then show ?case by (auto simp: mem_simps split: mem_splits)
next
  case (6 k t s s' x)
  then show ?case by (auto simp: mem_simps split: mem_splits)
next
  case (7 cs t s s')
  then show ?case using mem_cmds_spec by (auto simp: mem_redis_def split: mem_splits)
next
  case (8 cs t s s' x)
  then show ?case by (auto simp: mem_simps split: mem_splits)
next
  case (9 k t s s' n)
  then show ?case by (auto simp: mem_simps mem_find_live split: mem_splits)
next
  case (10 k t s s' x)
  then show ?case by (auto simp: mem_simps split: mem_splits)
next
  case (11 k n t s s')
  then show ?case by (auto simp: mem_simps live_at_Some split: mem_splits)
next
  case (12 k n t s s' x)
  then show ?case by (auto simp: mem_simps split: mem_splits)
next
  case (13 k t s s' n)
  then show ?case by (auto simp: mem_simps split: mem_splits)
next
  case (14 k t s s' x)
  then show ?case by (auto simp: mem_simps split: mem_splits)
qed

end
