(* ===== verification/RateLimiter.thy ===== *)
theory RateLimiter
  imports Redis
begin

text \<open>
  \<^verbatim>\<open>internal/auth/ratelimit.go\<close>: fixed-window quotas counted in the key-value server.  The Lua script
  runs atomically on the server; its three commands are the server's, in the script's order.
\<close>

record Limit =
  lim_Requests :: int
  lim_Window :: duration

definition LoginPerAccount :: Limit where "LoginPerAccount = \<lparr>lim_Requests = 5, lim_Window = 15 * minute\<rparr>"
definition LoginPerIP :: Limit where "LoginPerIP = \<lparr>lim_Requests = 20, lim_Window = 15 * minute\<rparr>"
definition RegisterPerIP :: Limit where "RegisterPerIP = \<lparr>lim_Requests = 5, lim_Window = hour\<rparr>"
definition PasswordChangeIP :: Limit where "PasswordChangeIP = \<lparr>lim_Requests = 10, lim_Window = hour\<rparr>"

definition incrementAndExpire :: "'s redis \<Rightarrow> string \<Rightarrow> int \<Rightarrow> gotime \<Rightarrow> 's \<Rightarrow> 's \<times> (redis_error + int list)" where
  "incrementAndExpire R k window t s =
     (case rd_incr R k t s of
        (s1, Inl e) \<Rightarrow> (s1, Inl e)
      | (s1, Inr n) \<Rightarrow>
          (case (if n = 1 then rd_pexpire R k window t s1 else (s1, None)) of
             (s2, Some e) \<Rightarrow> (s2, Inl e)
           | (s2, None) \<Rightarrow>
               (case rd_pttl R k t s2 of
                  (s3, Inl e) \<Rightarrow> (s3, Inl e)
                | (s3, Inr ttl) \<Rightarrow> (s3, Inr [n, ttl]))))"

datatype rl_error = RateLimitFailed string | UnexpectedReply string

definition rl_key :: "string \<Rightarrow> string" where
  "rl_key key = ''rl:'' @ key"

definition Allow ::
    "'s redis \<Rightarrow> string \<Rightarrow> Limit \<Rightarrow> gotime \<Rightarrow> 's \<Rightarrow> 's \<times> bool \<times> duration \<times> rl_error option" where
  "Allow R key limit t s =
     (case incrementAndExpire R (rl_key key) (lim_Window limit div millisecond) t s of
        (s', Inl _) \<Rightarrow> (s', False, 0, Some (RateLimitFailed key))
      | (s', Inr res) \<Rightarrow>
          if length res \<noteq> 2 then (s', False, 0, Some (UnexpectedReply key))
          else let n = res ! 0; ttlMillis = res ! 1
               in if n > lim_Requests limit
                  then let retryAfter = ttlMillis * millisecond
                       in (s', False, if retryAfter < 0 then lim_Window limit else retryAfter, None)
                  else (s', True, 0, None))"

definition Reset :: "'s redis \<Rightarrow> string \<Rightarrow> gotime \<Rightarrow> 's \<Rightarrow> 's \<times> rl_error option" where
  "Reset R key t s = (case rd_exec R [CDel [rl_key key]] t s of
     (s', None) \<Rightarrow> (s', None)
   | (s', Some _) \<Rightarrow> (s', Some (RateLimitFailed key)))"

text \<open>A sequence of attempts on one key, with whatever else happens to the server in between.\<close>

fun allow_run ::
    "'s redis \<Rightarrow> string \<Rightarrow> Limit \<Rightarrow> (gotime \<times> ('s \<Rightarrow> 's)) list \<Rightarrow> 's \<Rightarrow> (gotime \<times> bool \<times> duration \<times> rl_error option) list" where
  "allow_run R key limit [] s = []"
| "allow_run R key limit ((t, env) # evs) s =
     (case Allow R key limit t (env s) of (s', r) \<Rightarrow> (t, r) # allow_run R key limit evs s')"

definition leaves_key :: "('s \<Rightarrow> db) \<Rightarrow> string \<Rightarrow> gotime \<times> ('s \<Rightarrow> 's) \<Rightarrow> bool" where
  "leaves_key entries k ev \<longleftrightarrow>
     (\<forall>s. live (fst ev) (entries (snd ev s)) k = live (fst ev) (entries s) k)"

subsection \<open>Against any server\<close>

context redis_server
begin

text \<open>A counter that is running: \<open>c\<close> hits so far, its window ending at \<open>d\<close>.\<close>

lemma script_counts:
  assumes "incrementAndExpire R k w t s = (s', Inr res)" "0 < w"
    and "live t (entries s) k = None \<and> c = 0 \<and> d = t + w * millisecond \<or>
      live t (entries s) k = Some (RCount c, Some d) \<and> 1 \<le> c"
  shows "res = [c + 1, (d - t) div millisecond] \<and> t < d \<and>
    live t (entries s') = (live t (entries s))(k := Some (RCount (c + 1), Some d))"
proof -
  obtain s1 n where i: "rd_incr R k t s = (s1, Inr n)"
    using assms(1) by (auto simp: incrementAndExpire_def split: prod.splits sum.splits)
  have n: "n = c + 1" using incr_ok [OF i] assms(3) by auto
  obtain s2 where p: "(if n = 1 then rd_pexpire R k w t s1 else (s1, None)) = (s2, None)"
    using assms(1) i by (auto simp: incrementAndExpire_def split: prod.splits sum.splits option.splits)
  obtain ttl where q: "rd_pttl R k t s2 = (s', Inr ttl)" "res = [n, ttl]"
    using assms(1) i p by (auto simp: incrementAndExpire_def split: prod.splits sum.splits)
  have s2: "live t (entries s2) = (live t (entries s))(k := Some (RCount (c + 1), Some d))"
  proof (cases "c = 0")
    case True
    then show ?thesis
      using incr_ok [OF i] assms(2,3) p n pexpire_ok [of k w t s1 s2] by simp
  next
    case False
    then show ?thesis using incr_ok [OF i] assms(3) p n by auto
  qed
  have "t < d" using assms(2,3) live_SomeD [of t "entries s" k] by auto
  with pttl_ok [OF q(1)] s2 q(2) n show ?thesis by simp
qed

lemma allow_counts:
  assumes "Allow R key limit t s = (s', ok, ra, None)" "0 < lim_Window limit div millisecond"
    and "live t (entries s) (rl_key key) = None \<and> c = 0 \<and> d = t + (lim_Window limit div millisecond) * millisecond \<or>
      live t (entries s) (rl_key key) = Some (RCount c, Some d) \<and> 1 \<le> c"
  shows "(ok \<longleftrightarrow> c < lim_Requests limit) \<and> ra = (if ok then 0 else (d - t) div millisecond * millisecond) \<and> t < d \<and>
    live t (entries s') (rl_key key) = Some (RCount (c + 1), Some d)"
proof -
  obtain res where r: "incrementAndExpire R (rl_key key) (lim_Window limit div millisecond) t s = (s', Inr res)"
    using assms(1) by (auto simp: Allow_def Let_def split: prod.splits sum.splits if_splits)
  note c = script_counts [OF r assms(2,3)]
  then have "0 \<le> (d - t) div millisecond" by (simp add: pos_imp_zdiv_nonneg_iff)
  with c r assms(1) show ?thesis by (auto simp: Allow_def Let_def not_less split: if_splits)
qed

lemma allow_run_counts:
  assumes "0 < lim_Window limit div millisecond" "sorted (map fst evs)"
    and "\<forall>ev\<in>set evs. leaves_key entries (rl_key key) ev \<and> t \<le> fst ev \<and> fst ev < d"
    and "live t (entries s) (rl_key key) = Some (RCount c, Some d)" "1 \<le> c"
    and "allow_run R key limit evs s = rs" "\<forall>(_, _, _, err)\<in>set rs. err = None"
  shows "length rs = length evs \<and> (\<forall>i < length evs. (\<exists>ok ra. rs ! i = (fst (evs ! i), ok, ra, None) \<and>
    (ok \<longleftrightarrow> c + int i < lim_Requests limit) \<and>
    ra = (if ok then 0 else (d - fst (evs ! i)) div millisecond * millisecond)))"
  using assms(2-)
proof (induction evs arbitrary: t s c rs)
  case Nil
  then show ?case by simp
next
  case (Cons ev evs)
  obtain t' env where ev: "ev = (t', env)" by (cases ev)
  obtain s' ok ra err where a: "Allow R key limit t' (env s) = (s', ok, ra, err)" by (metis prod_cases4)
  have rs: "rs = (t', ok, ra, err) # allow_run R key limit evs s'" and e: "err = None"
    using Cons.prems(5,6) ev a by auto
  have "live t' (entries (env s)) (rl_key key) = Some (RCount c, Some d)"
    using Cons.prems(2,3) ev live_later [of t t' "entries s"] by (auto simp: leaves_key_def live_at_Some)
  with allow_counts [OF a [unfolded e] assms(1), of c d] Cons.prems(4)
  have h: "ok \<longleftrightarrow> c < lim_Requests limit" "ra = (if ok then 0 else (d - t') div millisecond * millisecond)"
    "live t' (entries s') (rl_key key) = Some (RCount (c + 1), Some d)" by auto
  have IH: "length (allow_run R key limit evs s') = length evs \<and> (\<forall>i < length evs. (\<exists>ok ra.
      allow_run R key limit evs s' ! i = (fst (evs ! i), ok, ra, None) \<and>
      (ok \<longleftrightarrow> c + 1 + int i < lim_Requests limit) \<and>
      ra = (if ok then 0 else (d - fst (evs ! i)) div millisecond * millisecond)))"
    using Cons.prems ev rs h(3) by (intro Cons.IH) auto
  show ?case
  proof (intro conjI allI impI)
    fix i assume i: "i < length (ev # evs)"
    show "\<exists>ok ra. rs ! i = (fst ((ev # evs) ! i), ok, ra, None) \<and> (ok \<longleftrightarrow> c + int i < lim_Requests limit) \<and>
      ra = (if ok then 0 else (d - fst ((ev # evs) ! i)) div millisecond * millisecond)"
    proof (cases i)
      case 0
      then show ?thesis using rs e h ev by simp
    next
      case (Suc j)
      with i have "j < length evs" by simp
      with IH Suc show ?thesis by (auto simp: rs algebra_simps)
    qed
  qed (use IH rs in simp)
qed

lemma quota_exact:
  assumes "millisecond \<le> lim_Window limit" "sorted (map fst evs)"
    and "\<forall>ev\<in>set evs. leaves_key entries (rl_key key) ev \<and>
      fst ev < fst (hd evs) + lim_Window limit div millisecond * millisecond"
    and "live (fst (hd evs)) (entries s) (rl_key key) = None"
    and "allow_run R key limit evs s = rs" "\<forall>(_, _, _, err)\<in>set rs. err = None"
  shows "length rs = length evs \<and> (\<forall>i < length evs. (\<exists>ok ra. rs ! i = (fst (evs ! i), ok, ra, None) \<and>
    (ok \<longleftrightarrow> int i < lim_Requests limit) \<and> 0 \<le> ra \<and>
    (\<not> ok \<longrightarrow> ra \<le> fst (hd evs) + lim_Window limit - fst (evs ! i))))"
proof (cases evs)
  case Nil
  with assms(5) show ?thesis by auto
next
  case (Cons ev evs')
  let ?w = "lim_Window limit div millisecond"
  obtain t env where ev: "ev = (t, env)" by (cases ev)
  define d where "d = t + ?w * millisecond"
  have w: "0 < ?w" "?w * millisecond \<le> lim_Window limit"
    using assms(1) by (simp_all add: pos_imp_zdiv_pos_iff minus_mod_eq_div_mult [symmetric])
  obtain s' ok ra err where a: "Allow R key limit t (env s) = (s', ok, ra, err)" by (metis prod_cases4)
  have rs: "rs = (t, ok, ra, err) # allow_run R key limit evs' s'" and e: "err = None"
    using assms(5,6) Cons ev a by auto
  have "live t (entries (env s)) (rl_key key) = None"
    using assms(3,4) Cons ev by (auto simp: leaves_key_def)
  with allow_counts [OF a [unfolded e] w(1), of 0 d]
  have h: "ok \<longleftrightarrow> 0 < lim_Requests limit" "ra = (if ok then 0 else (d - t) div millisecond * millisecond)"
    "live t (entries s') (rl_key key) = Some (RCount 1, Some d)" by (simp_all add: d_def)
  have tail: "length (allow_run R key limit evs' s') = length evs' \<and> (\<forall>i < length evs'. (\<exists>ok ra.
      allow_run R key limit evs' s' ! i = (fst (evs' ! i), ok, ra, None) \<and> (ok \<longleftrightarrow> 1 + int i < lim_Requests limit) \<and>
      ra = (if ok then 0 else (d - fst (evs' ! i)) div millisecond * millisecond)))"
    using assms(2,3,6) Cons ev rs h(3) by (intro allow_run_counts [OF w(1)]) (auto simp: d_def)
  have wait: "0 \<le> (d - x) div millisecond * millisecond \<and> (d - x) div millisecond * millisecond \<le> t + lim_Window limit - x"
    if "x < d" for x
    using that w(2) by (simp add: pos_imp_zdiv_nonneg_iff d_def)
  have early: "x \<in> set evs' \<Longrightarrow> fst x < d" for x using assms(3) Cons ev by (auto simp: d_def)
  show ?thesis
  proof (intro conjI allI impI)
    fix i assume i: "i < length evs"
    show "\<exists>ok ra. rs ! i = (fst (evs ! i), ok, ra, None) \<and> (ok \<longleftrightarrow> int i < lim_Requests limit) \<and> 0 \<le> ra \<and>
      (\<not> ok \<longrightarrow> ra \<le> fst (hd evs) + lim_Window limit - fst (evs ! i))"
    proof (cases i)
      case 0
      then show ?thesis using rs e h Cons ev wait [of t] w(1) by (auto simp: d_def)
    next
      case (Suc j)
      with i Cons have j: "j < length evs'" by simp
      with tail wait [OF early [OF nth_mem [OF j]]] Suc Cons ev show ?thesis by (auto simp: rs)
    qed
  qed (use tail rs Cons in simp)
qed

lemma window_reopen:
  assumes "live t0 (entries s) (rl_key key) = Some (RCount c, Some d)" "t0 \<le> d" "d \<le> t"
    and "millisecond \<le> lim_Window limit" "1 \<le> lim_Requests limit"
    and "Allow R key limit t s = (s', ok, ra, None)"
  shows "ok \<and> live t (entries s') (rl_key key) =
    Some (RCount 1, Some (t + lim_Window limit div millisecond * millisecond))"
proof -
  have "live t (entries s) (rl_key key) = None"
    using assms(1-3) live_later [of t0 t "entries s" "rl_key key"] by (simp add: live_at_Some)
  then show ?thesis
    using allow_counts [OF assms(6), of 0 "t + lim_Window limit div millisecond * millisecond"] assms(4,5)
    by (simp add: pos_imp_zdiv_pos_iff)
qed

lemma script_agree:
  "incrementAndExpire R k w t s = (s', x) \<Longrightarrow> agree_off {k} (live t (entries s)) (live t (entries s'))"
proof -
  assume a: "incrementAndExpire R k w t s = (s', x)"
  obtain s1 n where i: "rd_incr R k t s = (s1, n)" by (cases "rd_incr R k t s")
  obtain s2 y where p: "rd_pexpire R k w t s1 = (s2, y)" by (cases "rd_pexpire R k w t s1")
  have 1: "agree_off {k} (live t (entries s)) (live t (entries s1))"
  proof (cases n)
    case (Inl x)
    with i incr_err show ?thesis by auto
  next
    case (Inr n')
    note io = incr_ok [OF i [unfolded Inr]]
    show ?thesis
    proof (cases "live t (entries s) k")
      case None
      with io show ?thesis by (simp add: agree_off_def)
    next
      case (Some x)
      then show ?thesis using io by (cases x; cases "fst x") (auto simp: agree_off_def)
    qed
  qed
  have 2: "agree_off {k} (live t (entries s1)) (live t (entries s2))"
  proof (cases y)
    case None
    with pexpire_ok [of k w t s1 s2] p show ?thesis by (simp add: agree_off_def split: option.splits)
  next
    case (Some x)
    with p pexpire_err show ?thesis by auto
  qed
  have 3: "rd_pttl R k t s0 = (s3, z) \<Longrightarrow> live t (entries s3) = live t (entries s0)" for s0 s3 z
    by (cases z) (auto dest: pttl_ok pttl_err)
  have 4: "agree_off {k} (live t (entries s)) (live t (entries s2))" using agree_off_trans [OF 1 2] by simp
  consider "s' = s1" | "s' = s2" | z where "rd_pttl R k t s1 = (s', z)" | z where "rd_pttl R k t s2 = (s', z)"
    using a i p by (auto simp: incrementAndExpire_def split: sum.splits prod.splits option.splits if_splits)
  then show ?thesis using 1 4 3 by cases auto
qed

lemma allow_agree:
  "Allow R key limit t s = (s', r) \<Longrightarrow> agree_off {rl_key key} (live t (entries s)) (live t (entries s'))"
  by (auto simp: Allow_def Let_def dest: script_agree split: prod.splits sum.splits if_splits)

lemma reset_clears:
  "Reset R key t s = (s', None) \<Longrightarrow> live t (entries s') (rl_key key) = None"
  by (auto simp: Reset_def dest!: exec_ok split: prod.splits option.splits)

end

subsection \<open>Properties\<close>

definition demo_mem :: mem where
  "demo_mem = \<lparr>mem_db = (\<lambda>_. None), mem_up = True\<rparr>"

definition demo_limit :: Limit where
  "demo_limit = \<lparr>lim_Requests = 1, lim_Window = second\<rparr>"

definition demo_evs :: "(gotime \<times> (mem \<Rightarrow> mem)) list" where
  "demo_evs = [(0, id), (5, id), (7, id)]"

lemmas demo_rl_defs = demo_mem_def demo_limit_def Allow_def incrementAndExpire_def mem_redis_def mem_find_def
  mem_put_def Let_def rl_key_def

text \<open>C17. The quota of a window is exact: of the attempts on one key that fall into the window opened by
  the first of them, whatever happens to other keys in between, the first \<^verbatim>\<open>Requests\<close> are allowed and all
  later ones refused, each refusal telling the caller to wait no longer than the rest of the window.\<close>

theorem quota_window:
  assumes "redis_server R entries" "millisecond \<le> lim_Window limit" "sorted (map fst evs)"
    and "\<forall>ev\<in>set evs. leaves_key entries (rl_key key) ev \<and>
      fst ev < fst (hd evs) + lim_Window limit div millisecond * millisecond"
    and "live (fst (hd evs)) (entries s) (rl_key key) = None"
    and "allow_run R key limit evs s = rs" "\<forall>(_, _, _, err)\<in>set rs. err = None"
  shows "length rs = length evs \<and> (\<forall>i < length evs. (\<exists>ok ra. rs ! i = (fst (evs ! i), ok, ra, None) \<and>
    (ok \<longleftrightarrow> int i < lim_Requests limit) \<and> 0 \<le> ra \<and>
    (\<not> ok \<longrightarrow> ra \<le> fst (hd evs) + lim_Window limit - fst (evs ! i))))"
  using redis_server.quota_exact [OF assms] .

theorem quota_window_witness:
  "allow_run mem_redis ''k'' demo_limit demo_evs demo_mem =
     [(0, True, 0, None), (5, False, 999000000, None), (7, False, 999000000, None)] \<and>
   (\<exists>ra. allow_run mem_redis ''k'' demo_limit demo_evs demo_mem ! 2 = (7, False, ra, None) \<and> ra \<le> second - 7)"
proof -
  let ?rs = "[(0, True, 0, None), (5, False, 999000000, None), (7, False, 999000000, None)]"
  have r: "allow_run mem_redis ''k'' demo_limit demo_evs demo_mem = ?rs"
    by (simp add: demo_rl_defs demo_evs_def)
  have d: "millisecond \<le> lim_Window demo_limit" "sorted (map fst demo_evs)"
    "\<forall>ev\<in>set demo_evs. leaves_key mem_entries (rl_key ''k'') ev \<and>
      fst ev < fst (hd demo_evs) + lim_Window demo_limit div millisecond * millisecond"
    "live (fst (hd demo_evs)) (mem_entries demo_mem) (rl_key ''k'') = None"
    by (auto simp: demo_limit_def demo_evs_def leaves_key_def mem_live demo_mem_def mem_find_def)
  have "2 < length demo_evs" by (simp add: demo_evs_def)
  with quota_window [OF mem.redis_server_axioms d r] r show ?thesis
    by (auto simp: demo_limit_def demo_evs_def)
qed



text \<open>The limiter fails closed: when the server does not answer, the attempt is not allowed and an error
  is reported; and an attempt is never counted against another key.\<close>

lemma limiter_fails_closed:
  assumes "redis_server R entries" "Allow R key limit t s = (s', ok, ra, err)"
  shows "(err \<noteq> None \<longrightarrow> \<not> ok) \<and> (0 \<le> lim_Window limit \<longrightarrow> 0 \<le> ra) \<and>
    ((\<exists>x. snd (rd_incr R (rl_key key) t s) = Inl x) \<longrightarrow> err = Some (RateLimitFailed key)) \<and>
    (\<forall>k. k \<noteq> rl_key key \<longrightarrow> live t (entries s') k = live t (entries s) k)"
proof -
  have "(\<exists>x. snd (rd_incr R (rl_key key) t s) = Inl x) \<longrightarrow> err = Some (RateLimitFailed key)"
    using assms(2) by (auto simp: Allow_def incrementAndExpire_def split: prod.splits sum.splits)
  moreover have "(err \<noteq> None \<longrightarrow> \<not> ok) \<and> (0 \<le> lim_Window limit \<longrightarrow> 0 \<le> ra)"
    using assms(2) by (auto simp: Allow_def Let_def split: prod.splits sum.splits if_splits)
  ultimately show ?thesis
    using agree_offD [OF redis_server.allow_agree [OF assms]] by auto
qed

end
