(* ===== verification/Encoding.thy ===== *)
theory Encoding
  imports GoStrings
begin

text \<open>
  The encodings of the standard library that tokens, hashes and stored passwords go through: unpadded
  base64 in its standard and URL alphabets with the strict decoder, lower-case hexadecimal, and the
  integer verbs of \<^verbatim>\<open>fmt.Sscanf\<close>.
\<close>

subsection \<open>Base64 without padding\<close>

definition std_alphabet :: string where
  "std_alphabet = ''ABCDEFGHIJKLMNOPQRSTUVWXYZabcdefghijklmnopqrstuvwxyz0123456789+/''"

definition url_alphabet :: string where
  "url_alphabet = ''ABCDEFGHIJKLMNOPQRSTUVWXYZabcdefghijklmnopqrstuvwxyz0123456789-_''"

fun sextets :: "nat list \<Rightarrow> nat list" where
  "sextets [] = []"
| "sextets [a] = [a div 4, a mod 4 * 16]"
| "sextets [a, b] = [a div 4, a mod 4 * 16 + b div 16, b mod 16 * 4]"
| "sextets (a # b # c # r) =
     [a div 4, a mod 4 * 16 + b div 16, b mod 16 * 4 + c div 64, c mod 64] @ sextets r"

text \<open>The strict decoder: bits that do not make up a byte must be zero.\<close>

fun octets :: "nat list \<Rightarrow> nat list option" where
  "octets [] = Some []"
| "octets [p] = None"
| "octets [p, q] = (if q mod 16 = 0 then Some [p * 4 + q div 16] else None)"
| "octets [p, q, r] =
     (if r mod 4 = 0 then Some [p * 4 + q div 16, q mod 16 * 16 + r div 4] else None)"
| "octets (p # q # r # s # rest) =
     map_option (\<lambda>bs. [p * 4 + q div 16, q mod 16 * 16 + r div 4, r mod 4 * 64 + s] @ bs) (octets rest)"

fun index_of :: "char \<Rightarrow> string \<Rightarrow> nat option" where
  "index_of c [] = None"
| "index_of c (x # xs) = (if x = c then Some 0 else map_option Suc (index_of c xs))"

fun decode_chars :: "string \<Rightarrow> string \<Rightarrow> nat list option" where
  "decode_chars al [] = Some []"
| "decode_chars al (c # cs) =
     (case index_of c al of None \<Rightarrow> None | Some n \<Rightarrow> map_option (\<lambda>ns. n # ns) (decode_chars al cs))"

definition b64_encode :: "string \<Rightarrow> string \<Rightarrow> string" where
  "b64_encode al s = map (\<lambda>n. al ! n) (sextets (map byte s))"

text \<open>The decoder skips carriage returns and newlines.\<close>

definition b64_decode :: "string \<Rightarrow> string \<Rightarrow> string option" where
  "b64_decode al s =
     (case decode_chars al (filter (\<lambda>c. c \<noteq> CHR 0x0A \<and> c \<noteq> CHR 0x0D) s) of
        None \<Rightarrow> None
      | Some ns \<Rightarrow> map_option (map char_of) (octets ns))"

lemma sextets_bound: "\<forall>b\<in>set bs. b < 256 \<Longrightarrow> n \<in> set (sextets bs) \<Longrightarrow> n < 64"
  by (induction bs rule: sextets.induct) auto

lemma octets_sextets: "\<forall>b\<in>set bs. b < 256 \<Longrightarrow> octets (sextets bs) = Some bs"
proof (induction bs rule: sextets.induct)
  case (2 a)
  then show ?case by (auto simp: mult.commute)
next
  case (3 a b)
  have "(a mod 4 * 16 + b div 16) div 16 = a mod 4" "(a mod 4 * 16 + b div 16) mod 16 = b div 16"
    using 3 by auto
  then show ?case by (simp add: mult.commute)
next
  case (4 a b c r)
  have "(a mod 4 * 16 + b div 16) div 16 = a mod 4" "(a mod 4 * 16 + b div 16) mod 16 = b div 16"
    "(b mod 16 * 4 + c div 64) div 4 = b mod 16" "(b mod 16 * 4 + c div 64) mod 4 = c div 64"
    using 4 by auto
  with 4 show ?case by (simp add: mult.commute)
qed simp

lemma index_of_nth: "distinct xs \<Longrightarrow> n < length xs \<Longrightarrow> index_of (xs ! n) xs = Some n"
  by (induction xs arbitrary: n) (auto simp: nth_Cons split: nat.splits)

lemma decode_chars_map:
  "distinct al \<Longrightarrow> \<forall>n\<in>set ns. n < length al \<Longrightarrow> decode_chars al (map (\<lambda>n. al ! n) ns) = Some ns"
  by (induction ns) (auto simp: index_of_nth)

text \<open>A base64 alphabet: 64 different characters, no line breaks and no \<^verbatim>\<open>$\<close>.\<close>

definition alphabet :: "string \<Rightarrow> bool" where
  "alphabet al \<longleftrightarrow> distinct al \<and> length al = 64 \<and>
     (\<forall>c\<in>set al. c \<noteq> CHR 0x0A \<and> c \<noteq> CHR 0x0D \<and> c \<noteq> CHR ''$'')"

lemma alphabet_std: "alphabet std_alphabet"
  by (simp add: alphabet_def std_alphabet_def)

lemma alphabet_url: "alphabet url_alphabet"
  by (simp add: alphabet_def url_alphabet_def)

lemma bytes_bound: "b \<in> set (map byte s) \<Longrightarrow> b < 256"
  using byte_lt by auto

lemma b64_encode_set: "alphabet al \<Longrightarrow> set (b64_encode al s) \<subseteq> set al"
  using sextets_bound [of "map byte s"] bytes_bound by (fastforce simp: b64_encode_def alphabet_def)

lemma char_of_bytes [simp]: "map char_of (map byte s) = s"
  by (simp add: byte_def comp_def)

lemma b64_roundtrip: "alphabet al \<Longrightarrow> b64_decode al (b64_encode al s) = Some s"
proof -
  assume al: "alphabet al"
  have "filter (\<lambda>c. c \<noteq> CHR 0x0A \<and> c \<noteq> CHR 0x0D) (b64_encode al s) = b64_encode al s"
    using b64_encode_set [OF al, of s] al unfolding alphabet_def by (subst filter_id_conv) blast
  moreover have "\<forall>n\<in>set (sextets (map byte s)). n < length al"
    using sextets_bound [of "map byte s"] bytes_bound al by (auto simp: alphabet_def)
  ultimately show ?thesis
    using al octets_sextets [of "map byte s"] bytes_bound decode_chars_map [of al "sextets (map byte s)"]
    by (simp add: b64_decode_def b64_encode_def alphabet_def comp_def byte_def)
qed

lemma b64_encode_inj: "alphabet al \<Longrightarrow> b64_encode al s = b64_encode al s' \<Longrightarrow> s = s'"
  by (metis b64_roundtrip option.inject)

lemma length_b64_encode: "length (b64_encode al s) = (4 * length s + 2) div 3"
proof -
  have "length (sextets bs) = (4 * length bs + 2) div 3" for bs
    by (induction bs rule: sextets.induct) auto
  then show ?thesis by (simp add: b64_encode_def)
qed

subsection \<open>Hexadecimal\<close>

definition hexdigit :: "nat \<Rightarrow> char" where
  "hexdigit n = ''0123456789abcdef'' ! n"

definition hex_encode :: "string \<Rightarrow> string" where
  "hex_encode s = concat (map (\<lambda>c. [hexdigit (byte c div 16), hexdigit (byte c mod 16)]) s)"

lemma hexdigit_inj: "n < 16 \<Longrightarrow> m < 16 \<Longrightarrow> hexdigit n = hexdigit m \<Longrightarrow> n = m"
  using nth_eq_iff_index_eq [of "''0123456789abcdef''" n m] by (simp add: hexdigit_def)

lemma hex_encode_inj: "hex_encode s = hex_encode s' \<Longrightarrow> s = s'"
proof (induction s arbitrary: s')
  case Nil
  then show ?case by (cases s') (auto simp: hex_encode_def)
next
  case (Cons c s)
  then obtain d t where s': "s' = d # t" by (cases s') (auto simp: hex_encode_def)
  with Cons.prems have h: "hexdigit (byte c div 16) = hexdigit (byte d div 16)"
    "hexdigit (byte c mod 16) = hexdigit (byte d mod 16)" "hex_encode s = hex_encode t"
    by (simp_all add: hex_encode_def)
  have "byte c div 16 < 16" "byte d div 16 < 16" using byte_lt [of c] byte_lt [of d] by auto
  with h hexdigit_inj have "byte c div 16 = byte d div 16" "byte c mod 16 = byte d mod 16" by simp_all
  then have "byte c = byte d" by (metis mod_div_decomp)
  then show ?case using Cons.IH [OF h(3)] s' by (simp add: byte_def)
qed

lemma length_hex_encode: "length (hex_encode s) = 2 * length s"
  by (induction s) (auto simp: hex_encode_def)

end
