(* ===== verification/Password.thy ===== *)
theory Password
  imports Encoding "HOL-Library.Word"
begin

text \<open>
  \<^verbatim>\<open>internal/auth/password.go\<close> and \<^verbatim>\<open>commonpasswords.go\<close>: the password policy, and the PHC text form in
  which a hash is stored together with its parameters.  The key derivation is a library function, the
  argument \<open>argon2\<close>: password, salt, iterations, memory, lanes, key length; \<open>None\<close> when it panics.
  Random bytes and whether a hashing slot was obtained before the request was cancelled are arguments.
\<close>

subsection \<open>Integer verbs of Sscanf\<close>

text \<open>Leading white space is skipped, but a newline is an error.\<close>

function skip_space :: "string \<Rightarrow> string option" where
  "skip_space s =
     (if take 1 s = [CHR 0x0A] then None
      else case strip_prefix space_encodings s of None \<Rightarrow> Some s | Some t \<Rightarrow> skip_space t)"
  by pat_completeness auto
termination
  by (relation "measure length") (auto simp: strip_space_shorter)

declare skip_space.simps [simp del]

definition scan_digits :: "string \<Rightarrow> (nat \<times> string) option" where
  "scan_digits s =
     (let ds = takeWhile is_digit s
      in if ds = [] then None else Some (digits_value ds, dropWhile is_digit s))"

definition scan_uint :: "nat \<Rightarrow> string \<Rightarrow> (nat \<times> string) option" where
  "scan_uint bits s =
     (case skip_space s of
        None \<Rightarrow> None
      | Some t \<Rightarrow> (case scan_digits t of
          None \<Rightarrow> None
        | Some (n, r) \<Rightarrow> if 2 ^ 64 \<le> n \<or> 2 ^ bits \<le> n then None else Some (n, r)))"

definition scan_int :: "string \<Rightarrow> (int \<times> string) option" where
  "scan_int s =
     (case skip_space s of
        None \<Rightarrow> None
      | Some t \<Rightarrow>
          (let neg = (take 1 t = ''-''); u = (if take 1 t = ''-'' \<or> take 1 t = ''+'' then drop 1 t else t)
           in case scan_digits u of
                None \<Rightarrow> None
              | Some (n, r) \<Rightarrow>
                  if neg then (if 2 ^ 63 < n then None else Some (- int n, r))
                  else (if 2 ^ 63 \<le> n then None else Some (int n, r))))"

definition literal :: "string \<Rightarrow> string \<Rightarrow> string option" where
  "literal p s = (if take (length p) s = p then Some (drop (length p) s) else None)"

text \<open>The two calls of \<^verbatim>\<open>Sscanf\<close>; input left over after the format is not an error.\<close>

definition sscanf_version :: "string \<Rightarrow> int option" where
  "sscanf_version s = map_option fst (Option.bind (literal ''v='' s) scan_int)"

definition sscanf_params :: "string \<Rightarrow> (nat \<times> nat \<times> nat) option" where
  "sscanf_params s =
     Option.bind (Option.bind (literal ''m='' s) (scan_uint 32)) (\<lambda>(m, r).
     Option.bind (Option.bind (literal '',t='' r) (scan_uint 32)) (\<lambda>(t, r).
     Option.bind (Option.bind (literal '',p='' r) (scan_uint 8)) (\<lambda>(p, r). Some (m, t, p))))"

subsection \<open>Policy\<close>

definition MinPasswordLength :: nat where "MinPasswordLength = 12"
definition MaxPasswordLength :: nat where "MaxPasswordLength = 128"

datatype pw_error = ErrInvalidHash | ErrIncompatibleHash | ErrPasswordTooShort | ErrPasswordTooLong
  | ErrPasswordNotAllowed | ErrGenerateSalt | ErrHashCancelled | Argon2Panic

definition commonPasswords :: "string list" where
  "commonPasswords =
     [''123456789012'', ''1234567890'', ''qwertyuiop'', ''password'', ''password1'', ''password123'',
      ''passw0rd123'', ''password1234'', ''welcome123456'', ''qwerty123456'', ''iloveyou1234'',
      ''letmein12345'', ''administrator'', ''changeme1234'', ''secretpassword'', ''trustno1234567'',
      ''whatever12345'', ''111111111111'', ''000000000000'', ''abcdefghijkl'', ''aaaaaaaaaaaa'',
      ''videocall1234'', ''audiocall1234'', ''cbback123456'', ''monkey123456'', ''dragon123456'',
      ''sunshine1234'', ''princess1234'', ''football1234'', ''baseball1234'', ''superman1234'',
      ''starwars1234'', ''qazwsxedcrfv'', ''zaq12wsxcde3'', ''1qaz2wsx3edc'', ''asdfghjkl123'',
      ''loveyou123456'', ''myp@ssw0rd123'', ''p@ssword1234'', ''admin1234567'', ''welcome1234567'',
      ''letmein1234567'', ''qwertyuiop1234'', ''thisisapassword'', ''correcthorse'', ''correctbatteryhs'']"

definition isCommonPassword :: "(string \<Rightarrow> string) \<Rightarrow> string \<Rightarrow> bool" where
  "isCommonPassword ut password \<longleftrightarrow> to_lower ut (trim_space password) \<in> set commonPasswords"

definition ValidatePassword :: "(string \<Rightarrow> string) \<Rightarrow> string \<Rightarrow> pw_error option" where
  "ValidatePassword ut password =
     (let len = rune_count password
      in if len < MinPasswordLength then Some ErrPasswordTooShort
         else if len > MaxPasswordLength then Some ErrPasswordTooLong
         else if isCommonPassword ut password then Some ErrPasswordNotAllowed
         else None)"

subsection \<open>Hashes\<close>

record params =
  memoryKiB :: "32 word"
  iterations :: "32 word"
  parallelism :: "8 word"
  saltLength :: "32 word"
  keyLength :: "32 word"

definition argon2Params :: params where
  "argon2Params = \<lparr>memoryKiB = 19 * 1024, iterations = 2, parallelism = 1, saltLength = 16, keyLength = 32\<rparr>"

definition argon2_Version :: int where
  "argon2_Version = 19"

type_synonym argon2_fn = "string \<Rightarrow> string \<Rightarrow> 32 word \<Rightarrow> 32 word \<Rightarrow> 8 word \<Rightarrow> 32 word \<Rightarrow> string option"

definition deriveKey :: "argon2_fn \<Rightarrow> bool \<Rightarrow> string \<Rightarrow> string \<Rightarrow> params \<Rightarrow> pw_error + string" where
  "deriveKey argon2 slot password salt p =
     (if \<not> slot then Inl ErrHashCancelled
      else case argon2 password salt (iterations p) (memoryKiB p) (parallelism p) (keyLength p) of
             None \<Rightarrow> Inl Argon2Panic
           | Some key \<Rightarrow> Inr key)"

text \<open>The \<^verbatim>\<open>Sprintf\<close> of \<^verbatim>\<open>HashPassword\<close>.\<close>

definition phc :: "params \<Rightarrow> string \<Rightarrow> string \<Rightarrow> string" where
  "phc p salt key =
     ''$argon2id$v='' @ format_int argon2_Version @ ''$m='' @ format_nat (unat (memoryKiB p)) @ '',t='' @
     format_nat (unat (iterations p)) @ '',p='' @ format_nat (unat (parallelism p)) @ ''$'' @
     b64_encode std_alphabet salt @ ''$'' @ b64_encode std_alphabet key"

definition HashPassword :: "argon2_fn \<Rightarrow> string option \<Rightarrow> bool \<Rightarrow> string \<Rightarrow> pw_error + string" where
  "HashPassword argon2 rnd slot password =
     (case rnd of
        None \<Rightarrow> Inl ErrGenerateSalt
      | Some salt \<Rightarrow> sum_bind (deriveKey argon2 slot password salt argon2Params)
          (\<lambda>key. Inr (phc argon2Params salt key)))"

definition decodeHash :: "string \<Rightarrow> pw_error + (params \<times> string \<times> string)" where
  "decodeHash encoded =
     (let parts = split (CHR ''$'') encoded
      in if length parts \<noteq> 6 \<or> parts ! 0 \<noteq> [] then Inl ErrInvalidHash
         else if parts ! 1 \<noteq> ''argon2id'' then Inl ErrIncompatibleHash
         else case sscanf_version (parts ! 2) of
           None \<Rightarrow> Inl ErrInvalidHash
         | Some version \<Rightarrow>
             if version \<noteq> argon2_Version then Inl ErrIncompatibleHash
             else case sscanf_params (parts ! 3) of
               None \<Rightarrow> Inl ErrInvalidHash
             | Some (m, t, p) \<Rightarrow>
                 (case (b64_decode std_alphabet (parts ! 4), b64_decode std_alphabet (parts ! 5)) of
                    (Some salt, Some key) \<Rightarrow>
                      if salt = [] \<or> key = [] then Inl ErrInvalidHash
                      else Inr (\<lparr>memoryKiB = of_nat m, iterations = of_nat t, parallelism = of_nat p,
                                 saltLength = of_nat (length salt), keyLength = of_nat (length key)\<rparr>, salt, key)
                  | _ \<Rightarrow> Inl ErrInvalidHash))"

definition VerifyPassword :: "argon2_fn \<Rightarrow> bool \<Rightarrow> string \<Rightarrow> string \<Rightarrow> pw_error + (bool \<times> bool)" where
  "VerifyPassword argon2 slot encoded password =
     sum_bind (decodeHash encoded) (\<lambda>(stored, salt, key).
     sum_bind (deriveKey argon2 slot password salt stored) (\<lambda>candidate.
       if key \<noteq> candidate then Inr (False, False)
       else Inr (True, stored \<noteq> argon2Params)))"

definition dummySalt :: string where
  "dummySalt = ''cb-back-timing-eq''"

text \<open>\<^verbatim>\<open>DummyVerify\<close> returns nothing; its one effect is the call of the key derivation it makes.\<close>

definition DummyVerify :: "argon2_fn \<Rightarrow> bool \<Rightarrow> string \<Rightarrow> pw_error + string" where
  "DummyVerify argon2 slot password = deriveKey argon2 slot password dummySalt argon2Params"

subsection \<open>Reading back what was printed\<close>

lemma skip_space_digit: "s \<noteq> [] \<Longrightarrow> is_digit (hd s) \<Longrightarrow> skip_space s = Some s"
proof -
  assume s: "s \<noteq> []" "is_digit (hd s)"
  then obtain c r where c: "s = c # r" "is_digit c" by (cases s) auto
  have "byte (CHR 0x0A) = 10" by (simp add: byte_def)
  with c have "c \<noteq> CHR 0x0A" by (auto simp: is_digit_def)
  moreover have "strip_prefix space_encodings s = None"
    using c unfolding strip_prefix_None_iff
    by (auto simp: space_encodings_def is_digit_def byte_def)
  ultimately show ?thesis using c by (simp add: skip_space.simps [of "c # r"])
qed

lemma scan_digits_format:
  "r = [] \<or> \<not> is_digit (hd r) \<Longrightarrow> scan_digits (format_nat n @ r) = Some (n, r)"
proof -
  assume r: "r = [] \<or> \<not> is_digit (hd r)"
  have d: "\<forall>c\<in>set (format_nat n). is_digit c" using format_nat_digits [of n] by (simp add: list_all_iff)
  have "takeWhile is_digit (format_nat n @ r) = format_nat n" "dropWhile is_digit (format_nat n @ r) = r"
    using r d by (cases r; simp add: takeWhile_append dropWhile_append)+
  then show ?thesis by (simp add: scan_digits_def digits_value_format)
qed

lemma format_nat_hd: "format_nat n @ r \<noteq> [] \<and> is_digit (hd (format_nat n @ r))"
  using format_nat_digits [of n] by (cases "format_nat n") auto

lemma scan_uint_format:
  "r = [] \<or> \<not> is_digit (hd r) \<Longrightarrow> n < 2 ^ bits \<Longrightarrow> bits \<le> 64 \<Longrightarrow> scan_uint bits (format_nat n @ r) = Some (n, r)"
proof -
  assume a: "r = [] \<or> \<not> is_digit (hd r)" "n < 2 ^ bits" "bits \<le> 64"
  have "(2::nat) ^ bits \<le> 2 ^ 64" using a(3) by (rule power_increasing) simp
  with a(2) have "n < 2 ^ 64" by simp
  with a scan_digits_format [OF a(1)] skip_space_digit [of "format_nat n @ r"] format_nat_hd show ?thesis
    by (simp add: scan_uint_def)
qed

lemma scan_int_format:
  "r = [] \<or> \<not> is_digit (hd r) \<Longrightarrow> n < 2 ^ 63 \<Longrightarrow> scan_int (format_nat n @ r) = Some (int n, r)"
proof -
  assume a: "r = [] \<or> \<not> is_digit (hd r)" "n < 2 ^ 63"
  have "take 1 (format_nat n @ r) \<noteq> ''-''" "take 1 (format_nat n @ r) \<noteq> ''+''"
    using format_nat_hd [of n r] by (cases "format_nat n @ r"; auto simp: is_digit_def byte_def)+
  with a scan_digits_format [OF a(1)] skip_space_digit [of "format_nat n @ r"] format_nat_hd show ?thesis
    by (simp add: scan_int_def Let_def)
qed

lemma literal_append [simp]: "literal p (p @ s) = Some s"
  by (simp add: literal_def)

lemma no_dollar_digits: "CHR ''$'' \<notin> set (format_nat n)"
  using format_nat_digits [of n] by (auto simp: list_all_iff is_digit_def byte_def)

lemma no_dollar_b64: "CHR ''$'' \<notin> set (b64_encode std_alphabet s)"
  using b64_encode_set [OF alphabet_std, of s] alphabet_std by (auto simp: alphabet_def)

lemma sscanf_version_phc: "sscanf_version (''v='' @ format_int argon2_Version) = Some argon2_Version"
  using scan_int_format [of "[]" 19] literal_append [of "''v=''"]
  by (simp add: sscanf_version_def argon2_Version_def format_int_def)

lemma sscanf_params_phc:
  "m < 2 ^ 32 \<Longrightarrow> t < 2 ^ 32 \<Longrightarrow> p < 2 ^ 8 \<Longrightarrow>
   sscanf_params (''m='' @ format_nat m @ '',t='' @ format_nat t @ '',p='' @ format_nat p) = Some (m, t, p)"
proof -
  assume b: "m < 2 ^ 32" "t < 2 ^ 32" "p < 2 ^ 8"
  have "\<not> is_digit (CHR '','')" by (simp add: is_digit_def byte_def)
  then have "scan_uint 32 (format_nat m @ '',t='' @ format_nat t @ '',p='' @ format_nat p) =
      Some (m, '',t='' @ format_nat t @ '',p='' @ format_nat p)"
    "scan_uint 32 (format_nat t @ '',p='' @ format_nat p) = Some (t, '',p='' @ format_nat p)"
    "scan_uint 8 (format_nat p) = Some (p, [])"
    using b scan_uint_format [of "[]" p 8] by (simp_all add: scan_uint_format)
  then show ?thesis
    unfolding sscanf_params_def literal_append by (simp add: literal_append [of "'',t=''", simplified]
        literal_append [of "'',p=''", simplified])
qed

lemma split_phc:
  "split (CHR ''$'') (phc p salt key) =
     [[], ''argon2id'', ''v='' @ format_int argon2_Version,
      ''m='' @ format_nat (unat (memoryKiB p)) @ '',t='' @ format_nat (unat (iterations p)) @ '',p='' @
        format_nat (unat (parallelism p)),
      b64_encode std_alphabet salt, b64_encode std_alphabet key]"
proof -
  let ?d = "CHR ''$''"
  let ?v = "''v='' @ format_int argon2_Version"
  let ?m = "''m='' @ format_nat (unat (memoryKiB p)) @ '',t='' @ format_nat (unat (iterations p)) @ '',p='' @
        format_nat (unat (parallelism p))"
  have eq: "phc p salt key = [] @ ?d # (''argon2id'' @ ?d # (?v @ ?d # (?m @ ?d #
      (b64_encode std_alphabet salt @ ?d # b64_encode std_alphabet key))))"
    by (simp add: phc_def)
  have n: "?d \<notin> set ?v" "?d \<notin> set ?m" "?d \<notin> set ''argon2id''" "?d \<notin> set []"
    using no_dollar_digits by (simp_all add: format_int_def argon2_Version_def)
  show ?thesis
    unfolding eq split_append [OF n(4)] split_append [OF n(3)] split_append [OF n(1)] split_append [OF n(2)]
      split_append [OF no_dollar_b64] split_no_sep [OF no_dollar_b64] ..
qed

lemma decode_phc:
  assumes "salt \<noteq> []" "key \<noteq> []" "saltLength p = of_nat (length salt)" "keyLength p = of_nat (length key)"
  shows "decodeHash (phc p salt key) = Inr (p, salt, key)"
proof -
  have "unat (memoryKiB p) < 2 ^ 32" "unat (iterations p) < 2 ^ 32" "unat (parallelism p) < 2 ^ 8"
    using unsigned_less [of "memoryKiB p"] unsigned_less [of "iterations p"] unsigned_less [of "parallelism p"]
    by simp_all
  note m = sscanf_params_phc [OF this]
  have "p = \<lparr>memoryKiB = memoryKiB p, iterations = iterations p, parallelism = parallelism p,
      saltLength = of_nat (length salt), keyLength = of_nat (length key)\<rparr>"
    using assms(3,4) by simp
  then show ?thesis
    using assms(1,2) m
    by (simp add: decodeHash_def split_phc sscanf_version_phc [simplified] b64_roundtrip [OF alphabet_std])
qed

subsection \<open>Variants of common passwords\<close>

text \<open>The encodings of white space are prefix-free in both directions, so trimming removes any run of them.\<close>

lemma strip_prefix_free:
  assumes "list_all (\<lambda>p. list_all (\<lambda>q. take (length p) q = p \<longrightarrow> p = q) ps) ps" "p \<in> set ps"
  shows "strip_prefix ps (p @ s) = Some s"
proof -
  have free: "q = p" if "q \<in> set ps" "take (length q) (p @ s) = q" for q
  proof (cases "length q \<le> length p")
    case True
    with that have "take (length q) p = q" by simp
    with assms that show ?thesis by (auto simp: list_all_iff)
  next
    case False
    have "take (length p) q = take (length p) (take (length q) (p @ s))" using that by simp
    also have "\<dots> = p" using False by (simp add: min_def)
    finally have "take (length p) q = p" .
    with assms that show ?thesis by (auto simp: list_all_iff)
  qed
  show ?thesis
    using assms(2) free
  proof (induction ps)
    case (Cons q qs)
    show ?case
    proof (cases "take (length q) (p @ s) = q")
      case True
      then have "q = p" using Cons.prems(2) by simp
      then show ?thesis by simp
    next
      case False
      then have "p \<in> set qs" using Cons.prems(1) by auto
      with False Cons.IH Cons.prems(2) show ?thesis by simp
    qed
  qed simp
qed

lemma strip_space: "p \<in> set space_encodings \<Longrightarrow> strip_prefix space_encodings (p @ s) = Some s"
  by (rule strip_prefix_free) code_simp

lemma strip_space_rev: "p \<in> set space_encodings \<Longrightarrow> strip_prefix (map rev space_encodings) (rev p @ s) = Some s"
proof (rule strip_prefix_free)
  show "list_all (\<lambda>p. list_all (\<lambda>q. take (length p) q = p \<longrightarrow> p = q) (map rev space_encodings)) (map rev space_encodings)"
    by code_simp
qed simp

lemma trim_left_spaces: "set ps \<subseteq> set space_encodings \<Longrightarrow> trim_left (concat ps @ s) = trim_left s"
  by (induction ps) (auto simp: trim_left.simps [of "_ @ _ @ _"] strip_space)

lemma trim_rev_spaces: "set ps \<subseteq> set space_encodings \<Longrightarrow> trim_rev (rev (concat ps) @ s) = trim_rev s"
  by (induction ps rule: rev_induct) (auto simp: trim_rev.simps [of "rev _ @ _ @ _"] strip_space_rev)

text \<open>Printable ASCII without the space.\<close>

definition graphic :: "char \<Rightarrow> bool" where
  "graphic c \<longleftrightarrow> 0x20 < byte c \<and> byte c < 0x7F"

lemma space_not_graphic: "p \<in> set space_encodings \<Longrightarrow> p \<noteq> [] \<and> \<not> graphic (hd p) \<and> \<not> graphic (last p)"
proof -
  have "list_all (\<lambda>p. p \<noteq> [] \<and> \<not> graphic (hd p) \<and> \<not> graphic (last p)) space_encodings" by code_simp
  then show "p \<in> set space_encodings \<Longrightarrow> p \<noteq> [] \<and> \<not> graphic (hd p) \<and> \<not> graphic (last p)"
    by (simp add: list_all_iff)
qed

lemma graphic_no_space:
  assumes "graphic c"
  shows "strip_prefix space_encodings (c # s) = None" "strip_prefix (map rev space_encodings) (c # s) = None"
proof -
  have a: "\<not> prefix p (c # s)" if "p \<in> set space_encodings" for p
    using space_not_graphic [OF that] assms by (cases p) auto
  have "\<not> prefix (rev p) (c # s)" if "p \<in> set space_encodings" for p
    using space_not_graphic [OF that] assms by (cases p rule: rev_cases) auto
  with a show "strip_prefix space_encodings (c # s) = None" "strip_prefix (map rev space_encodings) (c # s) = None"
    by (auto simp: strip_prefix_None_iff)
qed

lemma trim_space_padded:
  assumes "set ps \<subseteq> set space_encodings" "set qs \<subseteq> set space_encodings" "v \<noteq> []" "list_all graphic v"
  shows "trim_space (concat ps @ v @ concat qs) = v"
proof -
  obtain c r where c: "v = c # r" "graphic c" using assms(3,4) by (cases v) auto
  obtain r' c' where c': "v = r' @ [c']" "graphic c'" using assms(3,4) by (cases v rule: rev_cases) auto
  have "trim_left (v @ concat qs) = v @ concat qs"
    using c graphic_no_space(1) by (simp add: trim_left.simps [of "c # _"])
  moreover have "trim_rev (rev v) = rev v"
    using c' graphic_no_space(2) by (simp add: trim_rev.simps [of "c' # _"])
  ultimately show ?thesis
    using assms(1,2) by (simp add: trim_space_def trim_left_spaces trim_rev_spaces)
qed

lemma common_graphic: "w \<in> set commonPasswords \<Longrightarrow> list_all graphic w \<and> w \<noteq> []"
  by (auto simp: commonPasswords_def graphic_def byte_def)

lemma graphic_lower: "graphic (lower_ascii c) \<Longrightarrow> graphic c"
  by (simp add: graphic_def byte_lower_ascii split: if_splits)

subsection \<open>Properties\<close>

text \<open>C6. A hash stores everything needed to check it.  With a key derivation that returns keys of the length it
  was asked for, verifying a password against the text of a hash made under any parameters gives exactly
  whether the derived keys agree, so the password that was hashed is accepted; and the hash is reported as
  outdated exactly when its parameters are not the current ones.\<close>

theorem stored_hash_verifies:
  assumes "argon2 password salt (iterations p) (memoryKiB p) (parallelism p) (keyLength p) = Some key"
    and "salt \<noteq> []" "key \<noteq> []" "saltLength p = of_nat (length salt)" "keyLength p = of_nat (length key)"
    and "argon2 candidate salt (iterations p) (memoryKiB p) (parallelism p) (keyLength p) = Some key'"
  shows "VerifyPassword argon2 True (phc p salt key) password = Inr (True, p \<noteq> argon2Params) \<and>
    VerifyPassword argon2 True (phc p salt key) candidate =
      Inr (if key' = key then (True, p \<noteq> argon2Params) else (False, False))"
  using assms by (simp add: VerifyPassword_def decode_phc deriveKey_def)

definition demo_argon2 :: argon2_fn where
  "demo_argon2 pw salt t m lanes n = (if t = 0 \<or> lanes = 0 then None else Some (take (unat n) (pw @ salt @ replicate (unat n) (CHR ''x''))))"

theorem stored_hash_verifies_witness:
  "VerifyPassword demo_argon2 True (phc argon2Params ''0123456789abcdef'' ''hunter2-hunter20123456789abcdefx'') ''hunter2-hunter2''
     = Inr (True, False) \<and>
   VerifyPassword demo_argon2 True (phc argon2Params ''0123456789abcdef'' ''hunter2-hunter20123456789abcdefx'') ''guess''
     = Inr (False, False)"
proof -
  have k: "demo_argon2 ''hunter2-hunter2'' ''0123456789abcdef'' (iterations argon2Params) (memoryKiB argon2Params)
      (parallelism argon2Params) (keyLength argon2Params) = Some ''hunter2-hunter20123456789abcdefx''"
    and k': "demo_argon2 ''guess'' ''0123456789abcdef'' (iterations argon2Params) (memoryKiB argon2Params)
      (parallelism argon2Params) (keyLength argon2Params) = Some ''guess0123456789abcdefxxxxxxxxxxx''"
    by code_simp+
  have "saltLength argon2Params = of_nat (length ''0123456789abcdef'')"
    "keyLength argon2Params = of_nat (length ''hunter2-hunter20123456789abcdefx'')"
    by (simp_all add: argon2Params_def)
  with stored_hash_verifies [of demo_argon2 _ _ argon2Params, OF k _ _ _ _ k'] show ?thesis by simp
qed

text \<open>What \<^verbatim>\<open>HashPassword\<close> returns under the current parameters is accepted for that password and not flagged for
  rehashing, with a key derivation that returns keys of the length it was asked for.\<close>

definition keys_sized :: "argon2_fn \<Rightarrow> bool" where
  "keys_sized argon2 \<longleftrightarrow> (\<forall>pw salt t m lanes n key. argon2 pw salt t m lanes n = Some key \<longrightarrow> length key = unat n)"

lemma hash_accepted:
  assumes "keys_sized argon2" "length salt = 16" "HashPassword argon2 (Some salt) slot password = Inr encoded"
  shows "VerifyPassword argon2 True encoded password = Inr (True, False)"
proof -
  let ?p = argon2Params
  obtain key where k: "argon2 password salt (iterations ?p) (memoryKiB ?p) (parallelism ?p) (keyLength ?p) = Some key"
    and e: "encoded = phc ?p salt key"
    using assms(3) by (auto simp: HashPassword_def deriveKey_def split: if_splits option.splits)
  have "length key = unat (keyLength ?p)" using assms(1) k unfolding keys_sized_def by blast
  then have "length key = 32" by (simp add: argon2Params_def)
  then have l: "saltLength ?p = of_nat (length salt)" "keyLength ?p = of_nat (length key)" "salt \<noteq> []" "key \<noteq> []"
    using assms(2) by (auto simp: argon2Params_def)
  then show ?thesis using k e decode_phc [OF l(3,4,1,2)] by (simp add: VerifyPassword_def deriveKey_def)
qed

lemma demo_argon2_sized: "keys_sized demo_argon2"
  by (auto simp: keys_sized_def demo_argon2_def split: if_splits)

text \<open>C24. The policy counts characters, not bytes: an accepted password has 12 to 128 of them (so 12 to 512
  bytes).  No listed password is accepted in any mix of upper and lower case and with any Unicode white
  space around it; everything else of the right length is accepted.\<close>

theorem password_policy:
  "(ValidatePassword ut pw = None \<longrightarrow> 12 \<le> rune_count pw \<and> rune_count pw \<le> 128 \<and> length pw \<in> {12..512}) \<and>
   (w \<in> set commonPasswords \<and> map lower_ascii v = w \<and> set ps \<subseteq> set space_encodings \<and>
      set qs \<subseteq> set space_encodings \<longrightarrow> ValidatePassword ut (concat ps @ v @ concat qs) \<noteq> None) \<and>
   (rune_count pw \<in> {12..128} \<and> to_lower ut (trim_space pw) \<notin> set commonPasswords \<longrightarrow> ValidatePassword ut pw = None)"
proof (intro conjI impI)
  assume "w \<in> set commonPasswords \<and> map lower_ascii v = w \<and> set ps \<subseteq> set space_encodings \<and>
      set qs \<subseteq> set space_encodings"
  then have a: "w \<in> set commonPasswords" "map lower_ascii v = w" "set ps \<subseteq> set space_encodings"
    "set qs \<subseteq> set space_encodings" by auto
  have v: "v \<noteq> []" "list_all graphic v"
    using common_graphic [OF a(1)] a(2) graphic_lower by (auto simp: list_all_iff)
  then have "is_ascii v" by (auto simp: is_ascii_def graphic_def list_all_iff)
  then have "isCommonPassword ut (concat ps @ v @ concat qs)"
    using a v by (simp add: isCommonPassword_def trim_space_padded to_lower_ascii)
  then show "ValidatePassword ut (concat ps @ v @ concat qs) \<noteq> None"
    by (simp add: ValidatePassword_def Let_def)
next
  assume "ValidatePassword ut pw = None"
  then have "12 \<le> rune_count pw" "rune_count pw \<le> 128"
    by (auto simp: ValidatePassword_def Let_def MinPasswordLength_def MaxPasswordLength_def split: if_splits)
  then show "12 \<le> rune_count pw" "rune_count pw \<le> 128" "length pw \<in> {12..512}"
    using rune_count_le_length [of pw] length_le_rune_count [of pw] by auto
qed (auto simp: ValidatePassword_def Let_def MinPasswordLength_def MaxPasswordLength_def isCommonPassword_def)

theorem password_policy_witness:
  "ValidatePassword id '' PassWord1234'' \<noteq> None \<and> length ''PassWord1234'' = 12"
proof -
  have "map lower_ascii ''PassWord1234'' = ''password1234''" by code_simp
  moreover have "''password1234'' \<in> set commonPasswords" "'' '' \<in> set space_encodings"
    by (simp_all add: commonPasswords_def space_encodings_def)
  ultimately show ?thesis
    using password_policy [of id "[]" "''password1234''" "''PassWord1234''" "['' '']" "[]", THEN conjunct2, THEN conjunct1]
    by simp
qed

end
