(* ===== verification/Sessions.thy ===== *)
theory Sessions
  imports Redis Encoding
begin

text \<open>
  \<^verbatim>\<open>internal/auth/sessions.go\<close>: server-side sessions behind opaque tokens, an index of each user's sessions,
  and single-use websocket tickets.  \<open>SessionStore\<close> holds the server connection and the lifetimes of the
  Go struct, and the functions of the standard library that stay abstract: SHA-256, and the JSON form of a
  session.  \<^verbatim>\<open>time.Now()\<close> and the random bytes are arguments; one call of an operation happens at one
  time.
\<close>

record Session =
  s_ID :: string
  s_UserID :: string
  s_CreatedAt :: gotime
  s_ExpiresAt :: gotime
  s_LastSeenAt :: gotime
  s_IP :: string
  s_UserAgent :: string

record 's SessionStore =
  rdb :: "'s redis"
  idleTTL :: duration
  absoluteTTL :: duration
  ticketTTL :: duration
  sha256 :: "string \<Rightarrow> string"
  marshal :: "Session \<Rightarrow> string option"
  unmarshal :: "string \<Rightarrow> Session option"

datatype sess_error = ErrSessionNotFound | ErrTicketNotFound | TokenFailed | MarshalFailed | DecodeFailed | StoreFailed

definition sessionKeyPrefix :: string where "sessionKeyPrefix = ''sess:''"
definition userIndexPrefix :: string where "userIndexPrefix = ''user_sess:''"
definition wsTicketPrefix :: string where "wsTicketPrefix = ''ws_ticket:''"
definition touchGranularity :: duration where "touchGranularity = minute"
definition maxSessionsPerUsr :: nat where "maxSessionsPerUsr = 20"

lemmas prefix_defs = sessionKeyPrefix_def userIndexPrefix_def wsTicketPrefix_def

text \<open>\<^verbatim>\<open>time.Time.Sub\<close> saturates at the largest and smallest duration.\<close>

definition time_sub :: "gotime \<Rightarrow> gotime \<Rightarrow> duration" where
  "time_sub a b = max (- (2 ^ 63)) (min (2 ^ 63 - 1) (a - b))"

definition ttlFor :: "'s SessionStore \<Rightarrow> Session \<Rightarrow> gotime \<Rightarrow> duration" where
  "ttlFor st sess now =
     (let remaining = time_sub (s_ExpiresAt sess) now
      in if remaining < idleTTL st then remaining else idleTTL st)"

definition newToken :: "string option \<Rightarrow> sess_error + string" where
  "newToken rnd = (case rnd of None \<Rightarrow> Inl TokenFailed | Some buf \<Rightarrow> Inr (b64_encode url_alphabet buf))"

definition hashToken :: "'s SessionStore \<Rightarrow> string \<Rightarrow> string" where
  "hashToken st token = hex_encode (sha256 st token)"

definition truncate :: "string \<Rightarrow> nat \<Rightarrow> string" where
  "truncate s n = (if length s \<le> n then s else take n s)"

subsection \<open>Trimming\<close>

type_synonym live_entry = "string \<times> gotime"

text \<open>The loop that sorts the indexed ids into live sessions and stale entries; \<open>None\<close>: a read failed.\<close>

fun classify :: "'s SessionStore \<Rightarrow> string list \<Rightarrow> gotime \<Rightarrow> 's \<Rightarrow> live_entry list \<Rightarrow> string list \<Rightarrow>
    's \<times> (live_entry list \<times> string list) option" where
  "classify st [] t s lv stale = (s, Some (lv, stale))"
| "classify st (i # ids) t s lv stale =
     (case rd_get (rdb st) (sessionKeyPrefix @ i) t s of
        (s1, Inl _) \<Rightarrow> (s1, None)
      | (s1, Inr None) \<Rightarrow> classify st ids t s1 lv (stale @ [i])
      | (s1, Inr (Some raw)) \<Rightarrow>
          (case unmarshal st raw of
             None \<Rightarrow> classify st ids t s1 lv (stale @ [i])
           | Some sess \<Rightarrow> classify st ids t s1 (lv @ [(i, s_CreatedAt sess)]) stale))"

definition oldest :: "live_entry list \<Rightarrow> nat" where
  "oldest lv = foldl (\<lambda>b i. if snd (lv ! i) < snd (lv ! b) then i else b) 0 [0..<length lv]"

lemma foldl_min_index:
  fixes lv :: "live_entry list"
  assumes "b < length lv" "n \<le> length lv"
  shows "foldl (\<lambda>b i. if snd (lv ! i) < snd (lv ! b) then i else b) b [0..<n] < length lv \<and>
    snd (lv ! foldl (\<lambda>b i. if snd (lv ! i) < snd (lv ! b) then i else b) b [0..<n]) \<le> snd (lv ! b) \<and>
    (\<forall>j<n. snd (lv ! foldl (\<lambda>b i. if snd (lv ! i) < snd (lv ! b) then i else b) b [0..<n]) \<le> snd (lv ! j))"
  using assms(2)
proof (induction n)
  case 0
  then show ?case using assms(1) by simp
next
  case (Suc n)
  then show ?case by (auto simp: less_Suc_eq)
qed

lemma oldest_spec:
  assumes "lv \<noteq> []"
  shows "oldest lv < length lv \<and> (\<forall>e\<in>set lv. snd (lv ! oldest lv) \<le> snd e)"
  using foldl_min_index [of 0 lv "length lv"] assms by (fastforce simp: oldest_def in_set_conv_nth)

function trim_loop :: "'s SessionStore \<Rightarrow> live_entry list \<Rightarrow> string list \<Rightarrow> gotime \<Rightarrow> 's \<Rightarrow>
    's \<times> (live_entry list \<times> string list) option" where
  "trim_loop st lv stale t s =
     (if length lv \<le> maxSessionsPerUsr then (s, Some (lv, stale))
      else let b = oldest lv
           in case rd_exec (rdb st) [CDel [sessionKeyPrefix @ fst (lv ! b)]] t s of
                (s1, Some _) \<Rightarrow> (s1, None)
              | (s1, None) \<Rightarrow> trim_loop st (take b lv @ drop (Suc b) lv) (stale @ [fst (lv ! b)]) t s1)"
  by pat_completeness auto
termination
proof (relation "measure (\<lambda>(st, lv, stale, t, s). length lv)", goal_cases)
  case (2 st lv)
  then have "lv \<noteq> []" by auto
  then have "oldest lv < length lv" using oldest_spec by blast
  then show ?case using 2 by auto
qed simp

declare trim_loop.simps [simp del]

text \<open>The result says whether trimming ran to its end; the caller ignores it.\<close>

definition trimSessions :: "'s SessionStore \<Rightarrow> string \<Rightarrow> gotime \<Rightarrow> 's \<Rightarrow> 's \<times> bool" where
  "trimSessions st userID t s =
     (let index = userIndexPrefix @ userID
      in case rd_smembers (rdb st) index t s of
           (s1, Inl _) \<Rightarrow> (s1, False)
         | (s1, Inr ids) \<Rightarrow>
             if length ids \<le> maxSessionsPerUsr then (s1, True)
             else case classify st ids t s1 [] [] of
                    (s2, None) \<Rightarrow> (s2, False)
                  | (s2, Some (lv, stale)) \<Rightarrow>
                      (case trim_loop st lv stale t s2 of
                         (s3, None) \<Rightarrow> (s3, False)
                       | (s3, Some (_, stale')) \<Rightarrow>
                           if stale' = [] then (s3, True)
                           else (case rd_exec (rdb st) [CSRem index stale'] t s3 of
                                   (s4, e) \<Rightarrow> (s4, e = None))))"

subsection \<open>Operations\<close>

definition Create ::
    "'s SessionStore \<Rightarrow> string option \<Rightarrow> string \<Rightarrow> string \<Rightarrow> string \<Rightarrow> gotime \<Rightarrow> 's \<Rightarrow>
     's \<times> (sess_error + (string \<times> Session))" where
  "Create st rnd userID ip userAgent now s =
     (case newToken rnd of
        Inl e \<Rightarrow> (s, Inl e)
      | Inr token \<Rightarrow>
          (let sess = \<lparr>s_ID = hashToken st token, s_UserID = userID, s_CreatedAt = now,
                       s_ExpiresAt = now + absoluteTTL st, s_LastSeenAt = now, s_IP = ip,
                       s_UserAgent = truncate userAgent 512\<rparr>
           in case marshal st sess of
                None \<Rightarrow> (s, Inl MarshalFailed)
              | Some payload \<Rightarrow>
                  (let key = sessionKeyPrefix @ s_ID sess; index = userIndexPrefix @ userID
                   in case rd_exec (rdb st)
                             [CSet key payload (ttlFor st sess now), CSAdd index [s_ID sess],
                              CExpire index (absoluteTTL st)] now s of
                        (s1, Some _) \<Rightarrow> (s1, Inl StoreFailed)
                      | (s1, None) \<Rightarrow> (fst (trimSessions st userID now s1), Inr (token, sess)))))"

definition revokeByID :: "'s SessionStore \<Rightarrow> string \<Rightarrow> string \<Rightarrow> gotime \<Rightarrow> 's \<Rightarrow> 's \<times> sess_error option" where
  "revokeByID st userID i now s =
     (case rd_exec (rdb st)
             ([CDel [sessionKeyPrefix @ i]] @
              (if userID \<noteq> [] then [CSRem (userIndexPrefix @ userID) [i]] else [])) now s of
        (s1, Some _) \<Rightarrow> (s1, Some StoreFailed)
      | (s1, None) \<Rightarrow> (s1, None))"

definition Get :: "'s SessionStore \<Rightarrow> string \<Rightarrow> gotime \<Rightarrow> 's \<Rightarrow> 's \<times> (sess_error + Session)" where
  "Get st token now s =
     (let i = hashToken st token
      in case rd_get (rdb st) (sessionKeyPrefix @ i) now s of
           (s1, Inl _) \<Rightarrow> (s1, Inl StoreFailed)
         | (s1, Inr None) \<Rightarrow> (s1, Inl ErrSessionNotFound)
         | (s1, Inr (Some raw)) \<Rightarrow>
             (case unmarshal st raw of
                None \<Rightarrow> (s1, Inl DecodeFailed)
              | Some sess0 \<Rightarrow>
                  (let sess = sess0\<lparr>s_ID := i\<rparr>
                   in if now > s_ExpiresAt sess
                      then (case revokeByID st (s_UserID sess) i now s1 of
                              (s2, Some e) \<Rightarrow> (s2, Inl e)
                            | (s2, None) \<Rightarrow> (s2, Inl ErrSessionNotFound))
                      else (s1, Inr sess))))"

definition Touch :: "'s SessionStore \<Rightarrow> Session \<Rightarrow> gotime \<Rightarrow> 's \<Rightarrow> 's \<times> sess_error option" where
  "Touch st sess now s =
     (if time_sub now (s_LastSeenAt sess) < touchGranularity then (s, None)
      else let sess' = sess\<lparr>s_LastSeenAt := now\<rparr>
           in case marshal st sess' of
                None \<Rightarrow> (s, Some MarshalFailed)
              | Some payload \<Rightarrow>
                  (case rd_exec (rdb st) [CSet (sessionKeyPrefix @ s_ID sess') payload (ttlFor st sess' now)] now s of
                     (s1, Some _) \<Rightarrow> (s1, Some StoreFailed)
                   | (s1, None) \<Rightarrow> (s1, None)))"

definition Revoke :: "'s SessionStore \<Rightarrow> string \<Rightarrow> gotime \<Rightarrow> 's \<Rightarrow> 's \<times> sess_error option" where
  "Revoke st token now s =
     (let i = hashToken st token
      in case rd_get (rdb st) (sessionKeyPrefix @ i) now s of
           (s1, Inl _) \<Rightarrow> (s1, Some StoreFailed)
         | (s1, Inr None) \<Rightarrow> (s1, None)
         | (s1, Inr (Some raw)) \<Rightarrow>
             (case unmarshal st raw of
                None \<Rightarrow> (case rd_exec (rdb st) [CDel [sessionKeyPrefix @ i]] now s1 of
                           (s2, e) \<Rightarrow> (s2, map_option (\<lambda>_. StoreFailed) e))
              | Some sess \<Rightarrow> revokeByID st (s_UserID sess) i now s1))"

definition RevokeAllForUser ::
    "'s SessionStore \<Rightarrow> string \<Rightarrow> string \<Rightarrow> gotime \<Rightarrow> 's \<Rightarrow> 's \<times> (sess_error + nat)" where
  "RevokeAllForUser st userID exceptToken now s =
     (let index = userIndexPrefix @ userID
      in case rd_smembers (rdb st) index now s of
           (s1, Inl _) \<Rightarrow> (s1, Inl StoreFailed)
         | (s1, Inr ids) \<Rightarrow>
             (let keep = (if exceptToken \<noteq> [] then hashToken st exceptToken else []);
                  keys = map (\<lambda>i. sessionKeyPrefix @ i) (filter (\<lambda>i. i \<noteq> keep) ids);
                  remaining = filter (\<lambda>i. i = keep) ids
              in case rd_exec (rdb st)
                        ((if keys \<noteq> [] then [CDel keys] else []) @ [CDel [index]] @
                         (if remaining \<noteq> [] then [CSAdd index remaining, CExpire index (absoluteTTL st)] else []))
                        now s1 of
                   (s2, Some _) \<Rightarrow> (s2, Inl StoreFailed)
                 | (s2, None) \<Rightarrow> (s2, Inr (length keys))))"

definition IssueWSTicket ::
    "'s SessionStore \<Rightarrow> string option \<Rightarrow> string \<Rightarrow> gotime \<Rightarrow> 's \<Rightarrow> 's \<times> (sess_error + (string \<times> duration))" where
  "IssueWSTicket st rnd userID now s =
     (case newToken rnd of
        Inl e \<Rightarrow> (s, Inl e)
      | Inr ticket \<Rightarrow>
          (case rd_exec (rdb st) [CSet (wsTicketPrefix @ hashToken st ticket) userID (ticketTTL st)] now s of
             (s1, Some _) \<Rightarrow> (s1, Inl StoreFailed)
           | (s1, None) \<Rightarrow> (s1, Inr (ticket, ticketTTL st))))"

definition RedeemWSTicket :: "'s SessionStore \<Rightarrow> string \<Rightarrow> gotime \<Rightarrow> 's \<Rightarrow> 's \<times> (sess_error + string)" where
  "RedeemWSTicket st ticket now s =
     (case rd_getdel (rdb st) (wsTicketPrefix @ hashToken st ticket) now s of
        (s1, Inl _) \<Rightarrow> (s1, Inl StoreFailed)
      | (s1, Inr None) \<Rightarrow> (s1, Inl ErrTicketNotFound)
      | (s1, Inr (Some userID)) \<Rightarrow> (s1, Inr userID))"

end
