(* ===== verification/SessionProofs.thy ===== *)
theory SessionProofs
  imports Sessions
begin

text \<open>
  What the session store keeps true of the server's contents, operation by operation and over any
  sequence of operations: every session that has not reached its absolute expiry is listed in its user's
  index, whatever calls fail on the way.
\<close>

subsection \<open>The stored sessions\<close>

lemma key_neq [simp]:
  "sessionKeyPrefix @ i \<noteq> userIndexPrefix @ u" "userIndexPrefix @ u \<noteq> sessionKeyPrefix @ i"
  "wsTicketPrefix @ h \<noteq> sessionKeyPrefix @ i" "sessionKeyPrefix @ i \<noteq> wsTicketPrefix @ h"
  "wsTicketPrefix @ h \<noteq> userIndexPrefix @ u" "userIndexPrefix @ u \<noteq> wsTicketPrefix @ h"
  by (simp_all add: prefix_defs)

text \<open>Strings go through JSON with every invalid byte replaced; the id is not part of the stored form.\<close>

definition coerce_utf8 :: "string \<Rightarrow> string" where
  "coerce_utf8 s = concat (map (\<lambda>seg. if length seg = 1 \<and> 0x80 \<le> byte (hd seg) then replacement else seg) (segments s))"

lemma coerce_ascii: "is_ascii s \<Longrightarrow> coerce_utf8 s = s"
proof -
  assume a: "is_ascii s"
  then have eq: "map (\<lambda>seg. if length seg = 1 \<and> 0x80 \<le> byte (hd seg) then replacement else seg) (map (\<lambda>c. [c]) s) = map (\<lambda>c. [c]) s"
    by (auto simp: is_ascii_def list_all_iff)
  show ?thesis unfolding coerce_utf8_def segments_ascii [OF a] eq by simp
qed

definition json_back :: "Session \<Rightarrow> Session" where
  "json_back x = x\<lparr>s_ID := [], s_UserID := coerce_utf8 (s_UserID x), s_IP := coerce_utf8 (s_IP x),
                   s_UserAgent := coerce_utf8 (s_UserAgent x)\<rparr>"

definition sess_at :: "'s SessionStore \<Rightarrow> db \<Rightarrow> string \<Rightarrow> Session option" where
  "sess_at st m i = (case m (sessionKeyPrefix @ i) of Some (RStr raw, _) \<Rightarrow> unmarshal st raw | _ \<Rightarrow> None)"

definition indexed :: "db \<Rightarrow> string \<Rightarrow> string \<Rightarrow> gotime \<Rightarrow> bool" where
  "indexed m u i until \<longleftrightarrow> (\<exists>A d. m (userIndexPrefix @ u) = Some (RSet A, Some d) \<and> i \<in> A \<and> until \<le> d)"

definition index_typed :: "db \<Rightarrow> bool" where
  "index_typed m \<longleftrightarrow> (\<forall>u. set_or_none (m (userIndexPrefix @ u)))"

definition sess_ok :: "'s SessionStore \<Rightarrow> gotime \<Rightarrow> db \<Rightarrow> string \<Rightarrow> Session \<Rightarrow> bool" where
  "sess_ok st t m i x \<longleftrightarrow>
     s_CreatedAt x \<le> t \<and> s_ExpiresAt x = s_CreatedAt x + absoluteTTL st \<and> is_ascii (s_UserID x) \<and>
     (t < s_ExpiresAt x \<longrightarrow> indexed m (s_UserID x) i (s_ExpiresAt x))"

definition store_ok :: "'s SessionStore \<Rightarrow> gotime \<Rightarrow> db \<Rightarrow> bool" where
  "store_ok st t m \<longleftrightarrow> index_typed m \<and> (\<forall>i x. sess_at st m i = Some x \<longrightarrow> sess_ok st t m i x)"

lemma store_okD: "store_ok st t m \<Longrightarrow> sess_at st m i = Some x \<Longrightarrow> sess_ok st t m i x"
  by (simp add: store_ok_def)

lemma store_ok_typed: "store_ok st t m \<Longrightarrow> index_typed m"
  by (simp add: store_ok_def)

lemma sess_at_later:
  assumes "t \<le> t'" "sess_at st (live t' m) i = Some x"
  shows "sess_at st (live t m) i = Some x"
  using assms by (auto simp: sess_at_def live_later [OF assms(1)] live_at_def split: option.splits rval.splits if_splits)

lemma indexed_later:
  assumes "t \<le> t'" "t' < until" "indexed (live t m) u i until"
  shows "indexed (live t' m) u i until"
  using assms by (auto simp: indexed_def live_later [OF assms(1)] live_at_Some)

lemma store_ok_later:
  assumes "store_ok st t (live t m)" "t \<le> t'"
  shows "store_ok st t' (live t' m)"
proof -
  have "index_typed (live t' m)"
    using assms(1) set_or_none_later by (simp add: store_ok_def index_typed_def live_later [OF assms(2)])
  moreover have "sess_ok st t' (live t' m) i x" if "sess_at st (live t' m) i = Some x" for i x
    using store_okD [OF assms(1) sess_at_later [OF assms(2) that]] indexed_later [OF assms(2)] assms(2)
    by (auto simp: sess_ok_def)
  ultimately show ?thesis by (simp add: store_ok_def)
qed

text \<open>Losing sessions, and index entries of lost sessions, does no harm.\<close>

lemma store_ok_shrink:
  assumes "store_ok st t m" "index_typed m'"
    and "\<And>i x. sess_at st m' i = Some x \<Longrightarrow> sess_at st m i = Some x"
    and "\<And>i x. sess_at st m' i = Some x \<Longrightarrow> indexed m (s_UserID x) i (s_ExpiresAt x) \<Longrightarrow>
      indexed m' (s_UserID x) i (s_ExpiresAt x)"
  shows "store_ok st t m'"
  unfolding store_ok_def
proof (intro conjI allI impI)
  fix i x assume x: "sess_at st m' i = Some x"
  show "sess_ok st t m' i x"
    using store_okD [OF assms(1) assms(3) [OF x]] assms(4) [OF x] by (auto simp: sess_ok_def)
qed (rule assms(2))

lemma sess_at_cong: "m' (sessionKeyPrefix @ i) = m (sessionKeyPrefix @ i) \<Longrightarrow> sess_at st m' i = sess_at st m i"
  by (simp add: sess_at_def)

lemma sess_at_None: "m (sessionKeyPrefix @ i) = None \<Longrightarrow> sess_at st m i = None"
  by (simp add: sess_at_def)

subsection \<open>The transactions\<close>

lemma ok_create:
  assumes "store_ok st t m" "cmds_spec t [CSet (sessionKeyPrefix @ i) raw ttl, CSAdd (userIndexPrefix @ u) [i],
      CExpire (userIndexPrefix @ u) (absoluteTTL st)] m m'"
    and "unmarshal st raw = Some x" "s_UserID x = u" "is_ascii u" "s_CreatedAt x = t"
    and "s_ExpiresAt x = t + absoluteTTL st" "0 < absoluteTTL st" "absoluteTTL st mod second = 0"
  shows "store_ok st t m' \<and> sess_at st m' i = Some x \<and>
    (\<forall>j. j \<noteq> i \<longrightarrow> m' (sessionKeyPrefix @ j) = m (sessionKeyPrefix @ j)) \<and>
    (\<exists>e. ttl_spec t ttl (m (sessionKeyPrefix @ i)) e \<and> m' (sessionKeyPrefix @ i) = Some (RStr raw, e)) \<and>
    (\<exists>A. m' (userIndexPrefix @ u) = Some (RSet A, Some (t + absoluteTTL st)) \<and> i \<in> A)"
proof -
  obtain e A e' where e: "ttl_spec t ttl (m (sessionKeyPrefix @ i)) e"
    and A: "m (userIndexPrefix @ u) = Some (RSet A, e') \<or> m (userIndexPrefix @ u) = None \<and> A = {}"
    and m': "m' = m(sessionKeyPrefix @ i := Some (RStr raw, e),
        userIndexPrefix @ u := Some (RSet (insert i A), Some (t + absoluteTTL st)))"
    using assms(2,8,9) by (fastforce simp: expire_spec_def)
  have "index_typed m'" using store_ok_typed [OF assms(1)] by (auto simp: index_typed_def m')
  moreover have "sess_ok st t m' j y" if y: "sess_at st m' j = Some y" for j y
  proof (cases "j = i")
    case True
    then have "y = x" using y assms(3) by (simp add: sess_at_def m')
    then show ?thesis using True assms(4-8) by (auto simp: sess_ok_def indexed_def m')
  next
    case False
    then have "sess_at st m j = Some y" using y by (simp add: sess_at_def m')
    then have ok: "sess_ok st t m j y" using store_okD [OF assms(1)] by blast
    have "indexed m' (s_UserID y) j (s_ExpiresAt y)" if "t < s_ExpiresAt y"
    proof (cases "s_UserID y = u")
      case True
      then show ?thesis using ok that A by (auto simp: sess_ok_def indexed_def m')
    next
      case False
      then show ?thesis using ok that by (auto simp: sess_ok_def indexed_def m')
    qed
    then show ?thesis using ok by (auto simp: sess_ok_def)
  qed
  ultimately show ?thesis
    using e assms(3) by (auto simp: store_ok_def m' sess_at_def)
qed

lemma ok_revoke:
  assumes "store_ok st t m" "cmds_spec t ([CDel [sessionKeyPrefix @ i]] @
      (if u \<noteq> [] then [CSRem (userIndexPrefix @ u) [i]] else [])) m m'"
  shows "store_ok st t m' \<and> m' (sessionKeyPrefix @ i) = None \<and>
    (\<forall>j. j \<noteq> i \<longrightarrow> m' (sessionKeyPrefix @ j) = m (sessionKeyPrefix @ j))"
proof -
  let ?k = "sessionKeyPrefix @ i" and ?x = "userIndexPrefix @ u"
  have m': "m' = m(?k := None) \<or>
    (\<exists>A e. m ?x = Some (RSet A, e) \<and> m' = m(?k := None, ?x := if A \<subseteq> {i} then None else Some (RSet (A - {i}), e)))"
  proof -
    have d: "(\<lambda>k. if k \<in> set [?k] then None else m k) = m(?k := None)" by (auto simp: fun_eq_iff)
    show ?thesis
    proof (cases "u = []")
      case True
      with assms(2) d show ?thesis by simp
    next
      case False
      with assms(2) have "cmd_spec t (CSRem ?x [i]) (m(?k := None)) m'" by (simp add: d [simplified])
      then consider "m' = m(?k := None)" | A e where "m ?x = Some (RSet A, e)"
          "m' = m(?k := None, ?x := if A \<subseteq> set [i] then None else Some (RSet (A - set [i]), e))"
        unfolding cmd_spec.simps by auto
      then show ?thesis
      proof cases
        case (2 A e)
        then have "m' = m(?k := None, ?x := if A \<subseteq> {i} then None else Some (RSet (A - {i}), e))" by simp
        with 2(1) show ?thesis by blast
      qed blast
    qed
  qed
  have keys: "m' ?k = None" "\<forall>j. j \<noteq> i \<longrightarrow> m' (sessionKeyPrefix @ j) = m (sessionKeyPrefix @ j)"
    using m' by auto
  have "store_ok st t m'"
  proof (rule store_ok_shrink [OF assms(1)])
    show "index_typed m'" using store_ok_typed [OF assms(1)] m' by (auto simp: index_typed_def)
  next
    fix j y assume y: "sess_at st m' j = Some y"
    then have "j \<noteq> i" using keys(1) by (auto simp: sess_at_None)
    with y have j: "j \<noteq> i" "sess_at st m j = Some y"
      using keys(2) sess_at_cong [of m' j m st] by auto
    then show "sess_at st m j = Some y" by simp
    assume "indexed m (s_UserID y) j (s_ExpiresAt y)"
    with j(1) m' show "indexed m' (s_UserID y) j (s_ExpiresAt y)"
      by (cases "s_UserID y = u") (auto simp: indexed_def)
  qed
  with keys show ?thesis by simp
qed

text \<open>Dropping index entries whose sessions are gone.\<close>

lemma ok_unindex:
  assumes "store_ok st t m" "cmds_spec t [CSRem (userIndexPrefix @ u) gone] m m'"
    and "\<forall>i\<in>set gone. sess_at st m i = None"
  shows "store_ok st t m' \<and> (\<forall>j. m' (sessionKeyPrefix @ j) = m (sessionKeyPrefix @ j))"
proof -
  let ?x = "userIndexPrefix @ u"
  have m': "m' = m \<or> (\<exists>A e. m ?x = Some (RSet A, e) \<and>
      m' = m(?x := if A \<subseteq> set gone then None else Some (RSet (A - set gone), e)))"
    using assms(2) unfolding cmds_spec.simps cmd_spec.simps by blast
  have keys: "m' (sessionKeyPrefix @ j) = m (sessionKeyPrefix @ j)" for j using m' by auto
  have "store_ok st t m'"
  proof (rule store_ok_shrink [OF assms(1)])
    show "index_typed m'" using store_ok_typed [OF assms(1)] m' by (auto simp: index_typed_def)
  next
    fix j y assume "sess_at st m' j = Some y"
    then have j: "sess_at st m j = Some y" using sess_at_cong [of m' j m st] keys [of j] by simp
    then show "sess_at st m j = Some y" .
    have "j \<notin> set gone" using j assms(3) by auto
    moreover assume "indexed m (s_UserID y) j (s_ExpiresAt y)"
    ultimately show "indexed m' (s_UserID y) j (s_ExpiresAt y)"
      using m' by (cases "s_UserID y = u") (auto simp: indexed_def)
  qed
  with keys show ?thesis by simp
qed

lemma ok_del_sessions:
  assumes "store_ok st t m" "cmds_spec t [CDel (map (\<lambda>i. sessionKeyPrefix @ i) ids)] m m'"
  shows "store_ok st t m' \<and> (\<forall>j. sess_at st m' j = (if j \<in> set ids then None else sess_at st m j)) \<and>
    (\<forall>u. m' (userIndexPrefix @ u) = m (userIndexPrefix @ u))"
proof -
  have s: "sess_at st m' j = (if j \<in> set ids then None else sess_at st m j)" for j
    using assms(2) by (auto simp: sess_at_def)
  have x: "m' (userIndexPrefix @ u) = m (userIndexPrefix @ u)" for u
    using assms(2) by auto
  have "store_ok st t m'"
    using store_ok_typed [OF assms(1)]
    by (intro store_ok_shrink [OF assms(1)]) (auto simp: s x index_typed_def indexed_def split: if_splits)
  with s x show ?thesis by simp
qed

lemma ok_touch:
  assumes "store_ok st t m" "cmds_spec t [CSet (sessionKeyPrefix @ i) raw ttl] m m'"
    and "unmarshal st raw = Some x" "s_CreatedAt x \<le> t" "s_ExpiresAt x = s_CreatedAt x + absoluteTTL st"
    and "is_ascii (s_UserID x)" "t < s_ExpiresAt x \<Longrightarrow> indexed m (s_UserID x) i (s_ExpiresAt x)"
  shows "store_ok st t m' \<and> sess_at st m' i = Some x \<and>
    (\<forall>j. j \<noteq> i \<longrightarrow> m' (sessionKeyPrefix @ j) = m (sessionKeyPrefix @ j)) \<and>
    (\<exists>e. ttl_spec t ttl (m (sessionKeyPrefix @ i)) e \<and> m' (sessionKeyPrefix @ i) = Some (RStr raw, e))"
proof -
  obtain e where e: "ttl_spec t ttl (m (sessionKeyPrefix @ i)) e"
    and m': "m' = m(sessionKeyPrefix @ i := Some (RStr raw, e))"
    using assms(2) by auto
  have x: "indexed m' u j d = indexed m u j d" for u j d by (simp add: indexed_def m')
  have s: "sess_at st m' j = (if j = i then Some x else sess_at st m j)" for j
    using assms(3) by (simp add: sess_at_def m')
  have "store_ok st t m'"
    unfolding store_ok_def
  proof (intro conjI allI impI)
    show "index_typed m'" using store_ok_typed [OF assms(1)] by (simp add: index_typed_def m')
    fix j y assume "sess_at st m' j = Some y"
    then show "sess_ok st t m' j y"
      using store_okD [OF assms(1), of j y] assms(4-7) by (auto simp: sess_ok_def x s split: if_splits)
  qed
  with e m' s show ?thesis by simp
qed

lemma ok_revoke_all:
  fixes st :: "'s SessionStore" and ids :: "string list" and keep :: string
  defines "keys \<equiv> map (\<lambda>i. sessionKeyPrefix @ i) (filter (\<lambda>i. i \<noteq> keep) ids)" and "rest \<equiv> filter (\<lambda>i. i = keep) ids"
  assumes "store_ok st t m" "0 < absoluteTTL st" "absoluteTTL st mod second = 0"
    and "m (userIndexPrefix @ u) = None \<and> ids = [] \<or> (\<exists>e. m (userIndexPrefix @ u) = Some (RSet (set ids), e))"
    and "cmds_spec t ((if keys \<noteq> [] then [CDel keys] else []) @ [CDel [userIndexPrefix @ u]] @
      (if rest \<noteq> [] then [CSAdd (userIndexPrefix @ u) rest, CExpire (userIndexPrefix @ u) (absoluteTTL st)] else [])) m m'"
  shows "store_ok st t m' \<and>
    (\<forall>j. m' (sessionKeyPrefix @ j) = (if j \<in> set ids \<and> j \<noteq> keep then None else m (sessionKeyPrefix @ j)))"
proof -
  let ?x = "userIndexPrefix @ u"
  let ?m = "\<lambda>k. if k \<in> set keys \<or> k = ?x then None else m k"
  have d: "cmds_spec t ((if keys \<noteq> [] then [CDel keys] else []) @ [CDel [?x]] @ cs) m m' \<longleftrightarrow> cmds_spec t cs ?m m'" for cs
  proof -
    have "(\<lambda>k. if k = ?x then None else if k \<in> set keys then None else m k) = ?m" by auto
    then show ?thesis by (cases "keys = []") auto
  qed
  have rest: "rest \<noteq> [] \<Longrightarrow> set rest = {keep} \<and> keep \<in> set ids" by (auto simp: rest_def filter_empty_conv)
  have m': "m' = (if rest \<noteq> [] then ?m(?x := Some (RSet {keep}, Some (t + absoluteTTL st))) else ?m)"
    using assms(7) [unfolded d] assms(4,5) rest by (cases "rest = []") (auto simp: expire_spec_def)
  have k: "sessionKeyPrefix @ j \<in> set keys \<longleftrightarrow> j \<in> set ids \<and> j \<noteq> keep" for j by (auto simp: keys_def)
  have kx: "userIndexPrefix @ v \<notin> set keys" for v by (auto simp: keys_def)
  have s: "m' (sessionKeyPrefix @ j) = (if j \<in> set ids \<and> j \<noteq> keep then None else m (sessionKeyPrefix @ j))" for j
    by (simp add: m' k)
  have "store_ok st t m'"
    unfolding store_ok_def
  proof (intro conjI allI impI)
    show "index_typed m'" using store_ok_typed [OF assms(3)] by (simp add: index_typed_def m' kx)
    fix j y assume "sess_at st m' j = Some y"
    then have j: "\<not> (j \<in> set ids \<and> j \<noteq> keep)" "sess_at st m j = Some y"
      using s [of j] by (auto simp: sess_at_def split: if_splits)
    have ok: "sess_ok st t m j y" using store_okD [OF assms(3) j(2)] .
    moreover have "indexed m' (s_UserID y) j (s_ExpiresAt y)" if "t < s_ExpiresAt y"
    proof -
      have i: "indexed m (s_UserID y) j (s_ExpiresAt y)" "s_ExpiresAt y \<le> t + absoluteTTL st"
        using ok that by (auto simp: sess_ok_def)
      show ?thesis
      proof (cases "s_UserID y = u")
        case True
        then have "j \<in> set ids" using i(1) assms(6) by (auto simp: indexed_def)
        with j(1) have "rest \<noteq> []" "j = keep" by (auto simp: rest_def filter_empty_conv)
        then show ?thesis using i(2) True by (simp add: indexed_def m')
      next
        case False
        then show ?thesis using i(1) by (simp add: indexed_def m' kx)
      qed
    qed
    ultimately show "sess_ok st t m' j y" by (auto simp: sess_ok_def)
  qed
  with s show ?thesis by simp
qed

subsection \<open>The interface of the store\<close>

text \<open>
  What the sessions rely on beyond the server: the stored form of a session reads back as that session, a
  digest is not empty, and the lifetimes are configured as positive 64-bit durations, the absolute one in whole seconds.
\<close>

locale session_store = redis_server "rdb st" entries
  for st :: "'s SessionStore" and entries :: "'s \<Rightarrow> db" +
  assumes json: "marshal st x = Some raw \<Longrightarrow> unmarshal st raw = Some (json_back x)"
    and sha_nonempty: "sha256 st y \<noteq> []"
    and idle_pos: "0 < idleTTL st"
    and abs_pos: "0 < absoluteTTL st" and abs_fits: "absoluteTTL st < 2 ^ 63"
    and abs_whole: "absoluteTTL st mod second = 0"
begin

lemma classify_spec:
  assumes "classify st ids t s lv stale = (s', x)"
  defines "m \<equiv> live t (entries s)"
  shows "live t (entries s') = m \<and> (x = None \<or>
    x = Some (lv @ map (\<lambda>i. (i, s_CreatedAt (the (sess_at st m i)))) (filter (\<lambda>i. sess_at st m i \<noteq> None) ids),
              stale @ filter (\<lambda>i. sess_at st m i = None) ids))"
  using assms(1) unfolding m_def
proof (induction ids arbitrary: s lv stale)
  case (Cons i ids)
  obtain s1 r where g: "rd_get (rdb st) (sessionKeyPrefix @ i) t s = (s1, r)"
    by (cases "rd_get (rdb st) (sessionKeyPrefix @ i) t s")
  note k = get_keeps [OF g]
  consider (err) y where "r = Inl y" | (none) "r = Inr None" "sess_at st (live t (entries s)) i = None"
    | (bad) raw where "r = Inr (Some raw)" "unmarshal st raw = None" "sess_at st (live t (entries s)) i = None"
    | (ok) raw y where "r = Inr (Some raw)" "unmarshal st raw = Some y" "sess_at st (live t (entries s)) i = Some y"
  proof (cases r)
    case (Inr v)
    show ?thesis
    proof (cases v)
      case None
      with that(2) Inr g show ?thesis by (auto dest!: get_None simp: sess_at_None)
    next
      case (Some raw)
      then obtain e where "live t (entries s) (sessionKeyPrefix @ i) = Some (RStr raw, e)"
        using get_Some g Inr by blast
      then have "sess_at st (live t (entries s)) i = unmarshal st raw" by (simp add: sess_at_def)
      with that(3,4) Inr Some show ?thesis by (cases "unmarshal st raw") auto
    qed
  qed (rule that)
  then show ?case
  proof cases
    case err
    then show ?thesis using Cons.prems g k by simp
  next
    case none
    then show ?thesis using Cons.prems g Cons.IH [of s1 lv "stale @ [i]"] by (simp add: k)
  next
    case bad
    then show ?thesis using Cons.prems g Cons.IH [of s1 lv "stale @ [i]"] by (simp add: k)
  next
    case (ok raw y)
    then show ?thesis using Cons.prems g Cons.IH [of s1 "lv @ [(i, s_CreatedAt y)]" stale] by (simp add: k)
  qed
qed simp

lemma del_one:
  assumes "rd_exec (rdb st) [CDel [sessionKeyPrefix @ i]] t s = (s', x)" "store_ok st t (live t (entries s))"
  shows "store_ok st t (live t (entries s')) \<and>
    agree_off {sessionKeyPrefix @ i} (live t (entries s)) (live t (entries s')) \<and>
    (\<forall>k. live t (entries s') k = live t (entries s) k \<or> live t (entries s') k = None) \<and>
    (x = None \<longrightarrow> live t (entries s') (sessionKeyPrefix @ i) = None)"
proof -
  have "cmds_typed [CDel [sessionKeyPrefix @ i]] (live t (entries s))" by (simp add: cmds_typed_def)
  from exec_cases [OF assms(1) this] show ?thesis
    using ok_del_sessions [OF assms(2), of "[i]"] assms(2) by (auto simp: agree_off_def split: if_splits)
qed

end

text \<open>What a run of \<^verbatim>\<open>trim_loop\<close> may do: drop some of the listed sessions, never the only newest one, and
  when it completes leave at most the cap, none of them older than a dropped one.\<close>

definition trimmed :: "live_entry list \<Rightarrow> live_entry list \<Rightarrow> db \<Rightarrow> db \<Rightarrow> bool" where
  "trimmed lv dropped m m' \<longleftrightarrow>
     agree_off ((\<lambda>e. sessionKeyPrefix @ fst e) ` set dropped) m m' \<and> (\<forall>k. m' k = m k \<or> m' k = None) \<and>
     set dropped \<subseteq> set lv \<and>
     (\<forall>e\<in>set dropped. \<exists>f\<in>set lv. f \<noteq> e \<and> snd e \<le> snd f)"

definition trim_done :: "live_entry list \<Rightarrow> live_entry list \<Rightarrow> live_entry list \<Rightarrow> db \<Rightarrow> bool" where
  "trim_done lv dropped lv' m' \<longleftrightarrow>
     length lv' \<le> maxSessionsPerUsr \<and> set lv = set lv' \<union> set dropped \<and> distinct (map fst lv') \<and>
     (\<forall>e\<in>set dropped. m' (sessionKeyPrefix @ fst e) = None \<and> fst e \<notin> fst ` set lv' \<and> (\<forall>f\<in>set lv'. snd e \<le> snd f))"

lemma distinct_remove_nth:
  assumes "distinct (map fst lv)" "b < length lv"
  shows "distinct (map fst (take b lv @ drop (Suc b) lv))" "set lv = insert (lv ! b) (set (take b lv @ drop (Suc b) lv))"
    "fst (lv ! b) \<notin> fst ` set (take b lv @ drop (Suc b) lv)" "lv ! b \<notin> set (take b lv @ drop (Suc b) lv)"
proof -
  let ?a = "take b lv" and ?c = "drop (Suc b) lv"
  have lv: "lv = ?a @ lv ! b # ?c" using assms(2) by (rule id_take_nth_drop)
  have d: "distinct (map fst ?a @ fst (lv ! b) # map fst ?c)"
    using assms(1) lv by (metis list.simps(9) map_append)
  show "distinct (map fst (?a @ ?c))" "fst (lv ! b) \<notin> fst ` set (?a @ ?c)" using d by auto
  then show "lv ! b \<notin> set (?a @ ?c)" by (auto simp: image_iff)
  have "set lv = set (?a @ lv ! b # ?c)" using lv by simp
  then show "set lv = insert (lv ! b) (set (?a @ ?c))" by auto
qed

lemma trimmed_Cons:
  assumes "agree_off {sessionKeyPrefix @ fst e} m m1" "\<forall>k. m1 k = m k \<or> m1 k = None"
    and "trimmed lv1 dropped m1 m'" "set lv = insert e (set lv1)" "\<exists>f\<in>set lv. f \<noteq> e \<and> snd e \<le> snd f"
  shows "trimmed lv (e # dropped) m m'"
  unfolding trimmed_def
proof (intro conjI)
  show "agree_off ((\<lambda>e. sessionKeyPrefix @ fst e) ` set (e # dropped)) m m'"
    using assms(1,3) by (auto simp: trimmed_def agree_off_def)
  show "\<forall>k. m' k = m k \<or> m' k = None" using assms(2,3) unfolding trimmed_def by metis
  show "set (e # dropped) \<subseteq> set lv" "\<forall>e\<in>set (e # dropped). \<exists>f\<in>set lv. f \<noteq> e \<and> snd e \<le> snd f"
    using assms(3-5) by (auto simp: trimmed_def)
qed

lemma trim_done_Cons:
  assumes "trim_done lv1 dropped lv' m'" "trimmed lv1 dropped m1 m'" "m1 (sessionKeyPrefix @ fst e) = None"
    and "fst e \<notin> fst ` set lv1" "set lv = insert e (set lv1)" "\<forall>f\<in>set lv. snd e \<le> snd f"
  shows "trim_done lv (e # dropped) lv' m'"
proof -
  have "sessionKeyPrefix @ fst e \<notin> (\<lambda>e. sessionKeyPrefix @ fst e) ` set dropped"
    using assms(2,4) by (auto simp: trimmed_def)
  then have "m' (sessionKeyPrefix @ fst e) = None" using assms(2,3) by (auto simp: trimmed_def agree_off_def)
  then show ?thesis using assms(1,4-6) by (auto simp: trim_done_def)
qed

context session_store
begin

lemma trim_loop_spec:
  assumes "trim_loop st lv stale t s = (s', x)" "store_ok st t (live t (entries s))" "distinct (map fst lv)"
  shows "\<exists>dropped. store_ok st t (live t (entries s')) \<and> trimmed lv dropped (live t (entries s)) (live t (entries s')) \<and>
    (x = None \<or> (\<exists>lv'. x = Some (lv', stale @ map fst dropped) \<and> trim_done lv dropped lv' (live t (entries s'))))"
  using assms
proof (induction "length lv" arbitrary: lv stale s rule: less_induct)
  case less
  let ?m = "live t (entries s)"
  show ?case
  proof (cases "length lv \<le> maxSessionsPerUsr")
    case True
    then show ?thesis
      using less.prems by (intro exI [of _ "[]"]) (auto simp: trim_loop.simps [of st lv] trimmed_def trim_done_def)
  next
    case False
    define b where "b = oldest lv"
    let ?e = "lv ! b" and ?lv = "take b lv @ drop (Suc b) lv"
    have ne: "lv \<noteq> []" using False by auto
    have b: "b < length lv" "\<forall>f\<in>set lv. snd ?e \<le> snd f" using oldest_spec [OF ne] by (simp_all add: b_def)
    note rm = distinct_remove_nth [OF less.prems(3) b(1)]
    obtain s1 y where d: "rd_exec (rdb st) [CDel [sessionKeyPrefix @ fst ?e]] t s = (s1, y)"
      by (cases "rd_exec (rdb st) [CDel [sessionKeyPrefix @ fst ?e]] t s")
    note d1 = del_one [OF d less.prems(2)]
    have shorter: "length ?lv < length lv" using b(1) by simp
    have "length ?lv = length lv - 1" using b(1) by simp
    then have "?lv \<noteq> []" using False by (auto simp: maxSessionsPerUsr_def)
    then obtain f where f: "f \<in> set ?lv" by (cases ?lv) auto
    then have f': "f \<in> set lv" "f \<noteq> ?e" "snd ?e \<le> snd f" using rm(2,4) b(2) by auto
    show ?thesis
    proof (cases y)
      case (Some z)
      then have "s' = s1" "x = None"
        using less.prems(1) False d by (simp_all add: trim_loop.simps [of st lv] Let_def b_def)
      then show ?thesis
        using d1 f' b(1) by (intro exI [of _ "[?e]"]) (auto simp: trimmed_def)
    next
      case None
      have run: "trim_loop st ?lv (stale @ [fst ?e]) t s1 = (s', x)"
        using less.prems(1) False d None by (simp add: trim_loop.simps [of st lv] Let_def b_def)
      obtain dropped where IH: "store_ok st t (live t (entries s'))"
        "trimmed ?lv dropped (live t (entries s1)) (live t (entries s'))"
        "x = None \<or> (\<exists>lv'. x = Some (lv', (stale @ [fst ?e]) @ map fst dropped) \<and> trim_done ?lv dropped lv' (live t (entries s')))"
        using less.hyps [OF _ run _ rm(1)] shorter d1 by blast
      have "trimmed lv (?e # dropped) ?m (live t (entries s'))"
        using trimmed_Cons [OF _ _ IH(2) rm(2)] d1 f' by blast
      moreover have "trim_done lv (?e # dropped) lv' (live t (entries s'))"
        if "trim_done ?lv dropped lv' (live t (entries s'))" for lv'
        using trim_done_Cons [OF that IH(2) _ rm(3,2) b(2)] d1 None by simp
      ultimately show ?thesis using IH(1,3) by (intro exI [of _ "?e # dropped"]) auto
    qed
  qed
qed

end

subsection \<open>Trimming as a whole\<close>

definition listed :: "db \<Rightarrow> string \<Rightarrow> string set" where
  "listed m u = (case m (userIndexPrefix @ u) of Some (RSet A, _) \<Rightarrow> A | _ \<Rightarrow> {})"

definition listing :: "'s SessionStore \<Rightarrow> db \<Rightarrow> string list \<Rightarrow> live_entry list" where
  "listing st m ids = map (\<lambda>i. (i, s_CreatedAt (the (sess_at st m i)))) (filter (\<lambda>i. sess_at st m i \<noteq> None) ids)"

text \<open>The effect of trimming that matters: sessions only disappear, a session newer than all others stays
  as it is, and a completed run leaves a user at most the cap, the newest ones.\<close>

definition trim_effect :: "'s SessionStore \<Rightarrow> string \<Rightarrow> bool \<Rightarrow> db \<Rightarrow> db \<Rightarrow> bool" where
  "trim_effect st u fin m m' \<longleftrightarrow>
     (\<forall>j y. sess_at st m' j = Some y \<longrightarrow> sess_at st m j = Some y) \<and>
     (\<forall>i x. sess_at st m i = Some x \<and> (\<forall>j y. sess_at st m j = Some y \<and> j \<noteq> i \<longrightarrow> s_CreatedAt y < s_CreatedAt x) \<longrightarrow>
        m' (sessionKeyPrefix @ i) = m (sessionKeyPrefix @ i)) \<and>
     (fin \<longrightarrow> finite (listed m' u) \<and> card {i \<in> listed m' u. sess_at st m' i \<noteq> None} \<le> maxSessionsPerUsr \<and>
        (\<forall>i x j y. sess_at st m i = Some x \<and> sess_at st m' i = None \<and> j \<in> listed m' u \<and> sess_at st m' j = Some y \<longrightarrow>
           s_CreatedAt x \<le> s_CreatedAt y))"

lemma listing_mem: "(i, c) \<in> set (listing st m ids) \<longleftrightarrow> i \<in> set ids \<and> (\<exists>y. sess_at st m i = Some y \<and> c = s_CreatedAt y)"
  by (auto simp: listing_def)

lemma listing_distinct: "distinct ids \<Longrightarrow> distinct (map fst (listing st m ids))"
  by (simp add: listing_def comp_def)

lemma trimmed_effect:
  assumes "trimmed (listing st m ids) dropped m m3"
  shows "j \<notin> fst ` set dropped \<Longrightarrow> sess_at st m3 j = sess_at st m j"
    and "sess_at st m3 j = Some y \<Longrightarrow> sess_at st m j = Some y"
    and "m3 (userIndexPrefix @ u) = m (userIndexPrefix @ u)"
    and "sess_at st m i = Some x \<Longrightarrow> \<forall>j y. sess_at st m j = Some y \<and> j \<noteq> i \<longrightarrow> s_CreatedAt y < s_CreatedAt x \<Longrightarrow>
      m3 (sessionKeyPrefix @ i) = m (sessionKeyPrefix @ i)"
proof -
  have a: "k \<notin> (\<lambda>e. sessionKeyPrefix @ fst e) ` set dropped \<Longrightarrow> m3 k = m k" for k
    using assms by (auto simp: trimmed_def agree_off_def)
  show "m3 (userIndexPrefix @ u) = m (userIndexPrefix @ u)" by (rule a) auto
  have "m3 (sessionKeyPrefix @ j) = m (sessionKeyPrefix @ j) \<or> m3 (sessionKeyPrefix @ j) = None"
    using assms by (simp add: trimmed_def)
  then show "sess_at st m3 j = Some y \<Longrightarrow> sess_at st m j = Some y"
    using sess_at_cong [of m3 j m st] sess_at_None [of m3 j st] by auto
  show "j \<notin> fst ` set dropped \<Longrightarrow> sess_at st m3 j = sess_at st m j"
    using a [of "sessionKeyPrefix @ j"] by (intro sess_at_cong) auto
  assume x: "sess_at st m i = Some x" and new: "\<forall>j y. sess_at st m j = Some y \<and> j \<noteq> i \<longrightarrow> s_CreatedAt y < s_CreatedAt x"
  have "i \<notin> fst ` set dropped"
  proof
    assume "i \<in> fst ` set dropped"
    then obtain c where c: "(i, c) \<in> set dropped" by auto
    then obtain f where f: "f \<in> set (listing st m ids)" "f \<noteq> (i, c)" "c \<le> snd f" and "(i, c) \<in> set (listing st m ids)"
      using assms by (fastforce simp: trimmed_def)
    then have "c = s_CreatedAt x" using x by (auto simp: listing_mem)
    moreover obtain j d where "f = (j, d)" by (cases f)
    ultimately show False using f x new by (fastforce simp: listing_mem)
  qed
  then show "m3 (sessionKeyPrefix @ i) = m (sessionKeyPrefix @ i)" by (intro a) auto
qed

lemma trim_done_effect:
  assumes "trimmed (listing st m ids) dropped m m3" "trim_done (listing st m ids) dropped lv' m3"
    and "listed m' u \<subseteq> set ids" "\<forall>j. m' (sessionKeyPrefix @ j) = m3 (sessionKeyPrefix @ j)"
  shows "trim_effect st u True m m'"
proof -
  have s3: "sess_at st m' j = sess_at st m3 j" for j using assms(4) by (intro sess_at_cong) simp
  note tr = trimmed_effect [OF assms(1)]
  have left: "(j, s_CreatedAt y) \<in> set lv'" if "j \<in> listed m' u" "sess_at st m3 j = Some y" for j y
  proof -
    have "j \<notin> fst ` set dropped" using assms(2) that(2) by (auto simp: trim_done_def sess_at_def)
    then have "(j, s_CreatedAt y) \<notin> set dropped" by force
    moreover have "(j, s_CreatedAt y) \<in> set (listing st m ids)"
      using that assms(3) tr(2) [OF that(2)] by (auto simp: listing_mem)
    ultimately show ?thesis using assms(2) by (auto simp: trim_done_def)
  qed
  have "{i \<in> listed m' u. sess_at st m3 i \<noteq> None} \<subseteq> fst ` set lv'" using left by force
  then have "card {i \<in> listed m' u. sess_at st m3 i \<noteq> None} \<le> card (fst ` set lv')" by (intro card_mono) auto
  also have "\<dots> \<le> length lv'" by (metis card_length length_map set_map)
  also have "\<dots> \<le> maxSessionsPerUsr" using assms(2) by (simp add: trim_done_def)
  finally have cap: "card {i \<in> listed m' u. sess_at st m3 i \<noteq> None} \<le> maxSessionsPerUsr" .
  have old: "s_CreatedAt x \<le> s_CreatedAt y" if h: "sess_at st m i = Some x" "sess_at st m3 i = None"
    "j \<in> listed m' u" "sess_at st m3 j = Some y" for i x j y
  proof -
    have "i \<in> fst ` set dropped" using tr(1) [of i] h by auto
    then obtain c where c: "(i, c) \<in> set dropped" by auto
    then have "(i, c) \<in> set (listing st m ids)" using assms(1) by (auto simp: trimmed_def)
    then have "c = s_CreatedAt x" using h(1) by (auto simp: listing_mem)
    then show ?thesis using c left [OF h(3,4)] assms(2) by (fastforce simp: trim_done_def)
  qed
  have "finite (listed m' u)" using assms(3) finite_subset by blast
  then show ?thesis
    unfolding trim_effect_def s3 using tr(2,4) assms(4) cap old by auto
qed

context session_store
begin

text \<open>The last write of a trim: the index entries without a session go.\<close>

lemma unindex_spec:
  assumes "rd_exec (rdb st) [CSRem (userIndexPrefix @ u) gone] t s = (s', x)" "store_ok st t (live t (entries s))"
    and "\<forall>i\<in>set gone. sess_at st (live t (entries s)) i = None"
  shows "store_ok st t (live t (entries s')) \<and> listed (live t (entries s')) u \<subseteq> listed (live t (entries s)) u \<and>
    (\<forall>j. live t (entries s') (sessionKeyPrefix @ j) = live t (entries s) (sessionKeyPrefix @ j))"
proof -
  have "cmds_typed [CSRem (userIndexPrefix @ u) gone] (live t (entries s))"
    using store_ok_typed [OF assms(2)] by (simp add: cmds_typed_def index_typed_def)
  from exec_cases [OF assms(1) this] show ?thesis
  proof
    assume c: "cmds_spec t [CSRem (userIndexPrefix @ u) gone] (live t (entries s)) (live t (entries s'))"
    then have "listed (live t (entries s')) u \<subseteq> listed (live t (entries s)) u"
      by (auto simp: listed_def split: option.splits rval.splits if_splits)
    then show ?thesis using ok_unindex [OF assms(2) c assms(3)] by simp
  qed (use assms(2) in simp)
qed

lemma trim_run_spec:
  assumes "store_ok st t (live t (entries s))" "distinct ids" "listed (live t (entries s)) u = set ids"
    and "classify st ids t s [] [] = (s2, Some (lv, stale))" "trim_loop st lv stale t s2 = (s3, Some (lv', stale'))"
    and "(if stale' = [] then (s3, True)
          else (case rd_exec (rdb st) [CSRem (userIndexPrefix @ u) stale'] t s3 of (s4, e) \<Rightarrow> (s4, e = None))) = (s', fin)"
  shows "store_ok st t (live t (entries s')) \<and> trim_effect st u True (live t (entries s)) (live t (entries s'))"
proof -
  let ?m = "live t (entries s)" and ?m3 = "live t (entries s3)"
  have c: "live t (entries s2) = ?m" "lv = listing st ?m ids" "stale = filter (\<lambda>i. sess_at st ?m i = None) ids"
    using classify_spec [OF assms(4)] by (auto simp: listing_def)
  obtain dropped where d: "store_ok st t ?m3" "trimmed (listing st ?m ids) dropped ?m ?m3"
    "stale' = stale @ map fst dropped" "trim_done (listing st ?m ids) dropped lv' ?m3"
    using trim_loop_spec [OF assms(5)] listing_distinct [OF assms(2)] assms(1) c(1,2) by auto
  have gone: "\<forall>i\<in>set stale'. sess_at st ?m3 i = None"
  proof
    fix i assume "i \<in> set stale'"
    then consider "sess_at st ?m i = None" | e where "e \<in> set dropped" "i = fst e" using d(3) c(3) by auto
    then show "sess_at st ?m3 i = None"
    proof cases
      case 1
      then show ?thesis using trimmed_effect(2) [OF d(2), of i] by (cases "sess_at st ?m3 i") auto
    next
      case 2
      then show ?thesis using d(4) by (auto simp: trim_done_def sess_at_None)
    qed
  qed
  have "listed ?m3 u = set ids" using trimmed_effect(3) [OF d(2), of u] assms(3) by (simp add: listed_def)
  moreover have "store_ok st t (live t (entries s')) \<and> listed (live t (entries s')) u \<subseteq> listed ?m3 u \<and>
      (\<forall>j. live t (entries s') (sessionKeyPrefix @ j) = ?m3 (sessionKeyPrefix @ j))"
    using assms(6) d(1) unindex_spec [OF _ d(1) gone] by (auto split: if_splits prod.splits)
  ultimately show ?thesis using trim_done_effect [OF d(2,4)] by auto
qed

lemma trim_effect_weaken: "trim_effect st u True m m' \<Longrightarrow> trim_effect st u fin m m'"
  by (simp add: trim_effect_def)

lemma trimmed_unfinished:
  assumes "trimmed (listing st m ids) dropped m m'"
  shows "trim_effect st u False m m'"
  using trimmed_effect(2,4) [OF assms] by (simp add: trim_effect_def)

lemma trimSessions_spec:
  assumes "trimSessions st u t s = (s', fin)" "store_ok st t (live t (entries s))"
  shows "store_ok st t (live t (entries s')) \<and> trim_effect st u fin (live t (entries s)) (live t (entries s'))"
proof -
  let ?m = "live t (entries s)" and ?x = "userIndexPrefix @ u"
  obtain s1 r where r: "rd_smembers (rdb st) ?x t s = (s1, r)" by (cases "rd_smembers (rdb st) ?x t s")
  note m1 = smembers_keeps [OF r]
  consider (fail) "s' = s1" "\<not> fin" | (few) ids where "r = Inr ids" "length ids \<le> maxSessionsPerUsr" "s' = s1"
    | (unread) ids where "r = Inr ids" "classify st ids t s1 [] [] = (s', None)" "\<not> fin"
    | (stopped) ids s2 lv stale where "r = Inr ids" "classify st ids t s1 [] [] = (s2, Some (lv, stale))"
        "trim_loop st lv stale t s2 = (s', None)" "\<not> fin"
    | (ran) ids s2 lv stale s3 lv' stale' where "r = Inr ids" "classify st ids t s1 [] [] = (s2, Some (lv, stale))"
        "trim_loop st lv stale t s2 = (s3, Some (lv', stale'))"
        "(if stale' = [] then (s3, True)
          else (case rd_exec (rdb st) [CSRem ?x stale'] t s3 of (s4, e) \<Rightarrow> (s4, e = None))) = (s', fin)"
    using assms(1) r by (cases r) (auto simp: trimSessions_def Let_def split: prod.splits option.splits if_splits)
  then show ?thesis
  proof cases
    case few
    note ids = smembers_ok [OF r [unfolded few(1)]]
    have l: "listed ?m u = set ids" using ids by (auto simp: listed_def split: option.splits rval.splits)
    have "card {i \<in> set ids. sess_at st ?m i \<noteq> None} \<le> card (set ids)" by (intro card_mono) auto
    also have "\<dots> \<le> maxSessionsPerUsr" using few(2) card_length [of ids] by simp
    finally show ?thesis using assms(2) few(3) l by (auto simp: m1 trim_effect_def)
  next
    case (stopped ids s2 lv stale)
    note ids = smembers_ok [OF r [unfolded stopped(1)]]
    have c: "live t (entries s2) = ?m" "lv = listing st ?m ids"
      using classify_spec [OF stopped(2)] by (auto simp: listing_def m1)
    obtain dropped where "store_ok st t (live t (entries s'))" "trimmed (listing st ?m ids) dropped ?m (live t (entries s'))"
      using trim_loop_spec [OF stopped(3)] listing_distinct ids assms(2) c by auto
    then show ?thesis using trimmed_unfinished stopped(4) by auto
  next
    case (ran ids s2 lv stale s3 lv' stale')
    note ids = smembers_ok [OF r [unfolded ran(1)]]
    have l: "listed ?m u = set ids" using ids by (auto simp: listed_def split: option.splits rval.splits)
    show ?thesis
      using trim_run_spec [OF _ _ _ ran(2-4)] assms(2) ids l trim_effect_weaken by (simp add: m1)
  qed (use assms(2) classify_spec m1 in \<open>auto simp: trim_effect_def\<close>)
qed

end

end
