(* ===== verification/SessionSystem.thy ===== *)
theory SessionSystem
  imports SessionProofs
begin

text \<open>
  The session store operation by operation, and as a transition system in which operations of many
  requests follow each other at non-decreasing times and any call to the server may fail.
\<close>

context session_store
begin

lemma time_sub_abs: "time_sub (t + absoluteTTL st) t = absoluteTTL st"
  using abs_pos abs_fits by (simp add: time_sub_def)

lemma revokeByID_spec:
  assumes "revokeByID st u i t s = (s', x)" "store_ok st t (live t (entries s))"
  shows "store_ok st t (live t (entries s')) \<and> (x = None \<longrightarrow> live t (entries s') (sessionKeyPrefix @ i) = None) \<and>
    (\<forall>j. j \<noteq> i \<longrightarrow> live t (entries s') (sessionKeyPrefix @ j) = live t (entries s) (sessionKeyPrefix @ j))"
proof -
  let ?cs = "[CDel [sessionKeyPrefix @ i]] @ (if u \<noteq> [] then [CSRem (userIndexPrefix @ u) [i]] else [])"
  obtain y where y: "rd_exec (rdb st) ?cs t s = (s', y)" "x = None \<longleftrightarrow> y = None"
    using assms(1) by (auto simp: revokeByID_def split: prod.splits option.splits)
  have "cmds_typed ?cs (live t (entries s))"
    using store_ok_typed [OF assms(2)] by (simp add: cmds_typed_def index_typed_def)
  from exec_cases [OF y(1) this] show ?thesis
    using ok_revoke [OF assms(2), of i u] assms(2) y(2) by auto
qed

lemma Get_spec:
  assumes "Get st token t s = (s', r)" "store_ok st t (live t (entries s))"
  shows "store_ok st t (live t (entries s'))"
    and "r = Inr sess \<Longrightarrow> live t (entries s') = live t (entries s) \<and> t \<le> s_ExpiresAt sess \<and>
      (\<exists>x. sess_at st (live t (entries s)) (hashToken st token) = Some x \<and> sess = x\<lparr>s_ID := hashToken st token\<rparr>)"
proof -
  let ?k = "sessionKeyPrefix @ hashToken st token"
  obtain s1 v where g: "rd_get (rdb st) ?k t s = (s1, v)" by (cases "rd_get (rdb st) ?k t s")
  note m1 = get_keeps [OF g]
  show "store_ok st t (live t (entries s'))"
    using assms g m1 revokeByID_spec [of _ "hashToken st token" t s1]
    by (auto simp: Get_def Let_def split: sum.splits option.splits prod.splits if_splits)
  assume r: "r = Inr sess"
  then obtain raw x where x: "v = Inr (Some raw)" "unmarshal st raw = Some x" "sess = x\<lparr>s_ID := hashToken st token\<rparr>"
    "s' = s1" "t \<le> s_ExpiresAt sess"
    using assms(1) g by (auto simp: Get_def Let_def split: sum.splits option.splits prod.splits if_splits)
  then obtain e where "live t (entries s) ?k = Some (RStr raw, e)" using get_Some g by blast
  with x m1 show "live t (entries s') = live t (entries s) \<and> t \<le> s_ExpiresAt sess \<and>
      (\<exists>x. sess_at st (live t (entries s)) (hashToken st token) = Some x \<and> sess = x\<lparr>s_ID := hashToken st token\<rparr>)"
    by (auto simp: sess_at_def)
qed

lemma Get_finds:
  assumes "Get st token t s = (s', r)" "sess_at st (live t (entries s)) (hashToken st token) = Some x" "t \<le> s_ExpiresAt x"
  shows "r = Inr (x\<lparr>s_ID := hashToken st token\<rparr>) \<or> r = Inl StoreFailed"
proof -
  let ?k = "sessionKeyPrefix @ hashToken st token"
  obtain s1 v where g: "rd_get (rdb st) ?k t s = (s1, v)" by (cases "rd_get (rdb st) ?k t s")
  show ?thesis
  proof (cases v)
    case (Inl e)
    then show ?thesis using assms(1) g by (simp add: Get_def Let_def)
  next
    case (Inr w)
    obtain raw e where raw: "live t (entries s) ?k = Some (RStr raw, e)" "unmarshal st raw = Some x"
      using assms(2) by (auto simp: sess_at_def split: option.splits rval.splits)
    then have "w = Some raw" using get_ok [OF g [unfolded Inr]] by simp
    then show ?thesis using assms(1,3) g Inr raw(2) by (simp add: Get_def Let_def split: if_splits)
  qed
qed

lemma Get_misses:
  assumes "Get st token t s = (s', r)" "live t (entries s) (sessionKeyPrefix @ hashToken st token) = None"
  shows "r = Inl ErrSessionNotFound \<or> r = Inl StoreFailed"
proof -
  let ?k = "sessionKeyPrefix @ hashToken st token"
  obtain s1 v where g: "rd_get (rdb st) ?k t s = (s1, v)" by (cases "rd_get (rdb st) ?k t s")
  then have "v = Inr None \<or> (\<exists>e. v = Inl e)" using get_ok [of ?k t s s1] assms(2) by (cases v) auto
  then show ?thesis using assms(1) g by (auto simp: Get_def Let_def)
qed

lemma Touch_spec:
  assumes "Touch st sess t s = (s', r)" "store_ok st t (live t (entries s))" "s_CreatedAt sess \<le> t"
    and "s_ExpiresAt sess = s_CreatedAt sess + absoluteTTL st" "is_ascii (s_UserID sess)"
    and "t < s_ExpiresAt sess \<Longrightarrow> indexed (live t (entries s)) (s_UserID sess) (s_ID sess) (s_ExpiresAt sess)"
  shows "store_ok st t (live t (entries s'))"
proof (cases "time_sub t (s_LastSeenAt sess) < touchGranularity")
  case True
  then show ?thesis using assms(1,2) by (simp add: Touch_def)
next
  case False
  let ?sess = "sess\<lparr>s_LastSeenAt := t\<rparr>"
  show ?thesis
  proof (cases "marshal st ?sess")
    case None
    then show ?thesis using assms(1,2) False by (simp add: Touch_def)
  next
    case (Some payload)
    let ?cs = "[CSet (sessionKeyPrefix @ s_ID sess) payload (ttlFor st ?sess t)]"
    obtain y where y: "rd_exec (rdb st) ?cs t s = (s', y)"
      using assms(1) False Some by (auto simp: Touch_def split: prod.splits option.splits)
    have x: "unmarshal st payload = Some (json_back ?sess)" using json [OF Some] .
    have b: "s_UserID (json_back ?sess) = s_UserID sess" using assms(5) by (simp add: json_back_def coerce_ascii)
    have "cmds_typed ?cs (live t (entries s))" by (simp add: cmds_typed_def)
    from exec_cases [OF y this] show ?thesis
    proof
      assume c: "cmds_spec t ?cs (live t (entries s)) (live t (entries s'))"
      show ?thesis
        by (rule ok_touch [OF assms(2) c x, THEN conjunct1])
          (use assms(3-6) b in \<open>simp_all add: json_back_def\<close>)
    qed (use assms(2) in simp)
  qed
qed

lemma Revoke_spec:
  assumes "Revoke st token t s = (s', r)" "store_ok st t (live t (entries s))"
  shows "store_ok st t (live t (entries s')) \<and>
    (r = None \<longrightarrow> live t (entries s') (sessionKeyPrefix @ hashToken st token) = None) \<and>
    (\<forall>j. j \<noteq> hashToken st token \<longrightarrow> live t (entries s') (sessionKeyPrefix @ j) = live t (entries s) (sessionKeyPrefix @ j))"
proof -
  let ?i = "hashToken st token"
  obtain s1 v where g: "rd_get (rdb st) (sessionKeyPrefix @ ?i) t s = (s1, v)"
    by (cases "rd_get (rdb st) (sessionKeyPrefix @ ?i) t s")
  have m1: "live t (entries s1) = live t (entries s)" using get_keeps [OF g] .
  consider (err) "s' = s1" "r \<noteq> None" | (gone) "s' = s1" "v = Inr None"
    | (del) y where "rd_exec (rdb st) [CDel [sessionKeyPrefix @ ?i]] t s1 = (s', y)" "r = None \<longleftrightarrow> y = None"
    | (rev) u where "revokeByID st u ?i t s1 = (s', r)"
    using assms(1) g by (auto simp: Revoke_def Let_def split: sum.splits option.splits prod.splits)
  then show ?thesis
  proof cases
    case gone
    then show ?thesis using assms(2) m1 get_None g by auto
  next
    case (del y)
    then show ?thesis using del_one [OF del(1)] assms(2) m1 by (auto simp: agree_off_def)
  next
    case (rev u)
    then show ?thesis using revokeByID_spec [OF rev] assms(2) m1 by simp
  qed (use assms(2) m1 in auto)
qed

lemma RevokeAll_spec:
  assumes "RevokeAllForUser st u except t s = (s', r)" "store_ok st t (live t (entries s))"
  defines "keep \<equiv> if except \<noteq> [] then hashToken st except else []"
  shows "store_ok st t (live t (entries s')) \<and> (\<forall>n. r = Inr n \<longrightarrow>
    n = card (listed (live t (entries s)) u - {keep}) \<and>
    (\<forall>j. live t (entries s') (sessionKeyPrefix @ j) =
      (if j \<in> listed (live t (entries s)) u \<and> j \<noteq> keep then None else live t (entries s) (sessionKeyPrefix @ j))))"
proof -
  let ?x = "userIndexPrefix @ u" and ?m = "live t (entries s)"
  obtain s1 v where g: "rd_smembers (rdb st) ?x t s = (s1, v)" by (cases "rd_smembers (rdb st) ?x t s")
  have m1: "live t (entries s1) = ?m" using smembers_keeps [OF g] .
  show ?thesis
  proof (cases v)
    case (Inl e)
    then show ?thesis using assms(1,2) g m1 by (auto simp: RevokeAllForUser_def)
  next
    case (Inr ids)
    note ids = smembers_ok [OF g [unfolded Inr]]
    have l: "listed ?m u = set ids" using ids by (auto simp: listed_def split: option.splits rval.splits)
    have c: "?m ?x = None \<and> ids = [] \<or> (\<exists>e. ?m ?x = Some (RSet (set ids), e))"
      using ids store_ok_typed [OF assms(2)] by (cases "?m ?x") (auto split: rval.splits)
    let ?keys = "map (\<lambda>i. sessionKeyPrefix @ i) (filter (\<lambda>i. i \<noteq> keep) ids)" and ?rest = "filter (\<lambda>i. i = keep) ids"
    let ?cs = "(if ?keys \<noteq> [] then [CDel ?keys] else []) @ [CDel [?x]] @
      (if ?rest \<noteq> [] then [CSAdd ?x ?rest, CExpire ?x (absoluteTTL st)] else [])"
    obtain y where y: "rd_exec (rdb st) ?cs t s1 = (s', y)" "\<And>n. r = Inr n \<Longrightarrow> y = None \<and> n = length ?keys"
      using assms(1) g Inr unfolding keep_def
      by (auto simp: RevokeAllForUser_def Let_def split: prod.splits option.splits)
    have "cmds_typed ?cs (live t (entries s1))"
      using store_ok_typed [OF assms(2)] m1 by (auto simp: cmds_typed_def index_typed_def split: if_splits)
    from exec_cases [OF y(1) this]
    have "store_ok st t (live t (entries s')) \<and> (y = None \<longrightarrow> (\<forall>j. live t (entries s') (sessionKeyPrefix @ j) =
        (if j \<in> set ids \<and> j \<noteq> keep then None else ?m (sessionKeyPrefix @ j))))"
    proof
      assume "cmds_spec t ?cs (live t (entries s1)) (live t (entries s'))"
      then have "cmds_spec t ?cs ?m (live t (entries s'))" by (simp only: m1)
      from ok_revoke_all [OF assms(2) abs_pos abs_whole c this] show ?thesis by simp
    qed (use assms(2) m1 in auto)
    moreover have "length ?keys = card (set ids - {keep})"
    proof -
      have "distinct (filter (\<lambda>i. i \<noteq> keep) ids)" using ids by simp
      from distinct_card [OF this]
      have "length (filter (\<lambda>i. i \<noteq> keep) ids) = card (set (filter (\<lambda>i. i \<noteq> keep) ids))" by simp
      also have "set (filter (\<lambda>i. i \<noteq> keep) ids) = set ids - {keep}" by auto
      finally show ?thesis by simp
    qed
    ultimately show ?thesis using y(2) l by auto
  qed
qed

end

text \<open>The server's contents after the transaction of a successful \<^verbatim>\<open>Create\<close>, before trimming.\<close>

definition created :: "'s SessionStore \<Rightarrow> string \<Rightarrow> gotime \<Rightarrow> Session \<Rightarrow> db \<Rightarrow> db \<Rightarrow> bool" where
  "created st u t sess m m1 \<longleftrightarrow>
     s_UserID sess = u \<and> s_CreatedAt sess = t \<and> s_ExpiresAt sess = t + absoluteTTL st \<and>
     (\<forall>j. j \<noteq> s_ID sess \<longrightarrow> m1 (sessionKeyPrefix @ j) = m (sessionKeyPrefix @ j)) \<and>
     sess_at st m1 (s_ID sess) = Some (json_back sess) \<and> s_ID sess \<in> listed m1 u \<and>
     (\<exists>raw e. m1 (sessionKeyPrefix @ s_ID sess) = Some (RStr raw, e) \<and>
        ttl_spec t (min (idleTTL st) (absoluteTTL st)) (m (sessionKeyPrefix @ s_ID sess)) e)"

context session_store
begin

lemma create_tx:
  assumes "rd_exec (rdb st) [CSet (sessionKeyPrefix @ s_ID x) payload (ttlFor st x t),
          CSAdd (userIndexPrefix @ u) [s_ID x], CExpire (userIndexPrefix @ u) (absoluteTTL st)] t s = (s1, y)"
    and "marshal st x = Some payload" "s_UserID x = u" "s_CreatedAt x = t" "s_ExpiresAt x = t + absoluteTTL st"
    and "store_ok st t (live t (entries s))" "is_ascii u"
  shows "store_ok st t (live t (entries s1)) \<and> (y = None \<longrightarrow> created st u t x (live t (entries s)) (live t (entries s1)))"
proof -
  let ?cs = "[CSet (sessionKeyPrefix @ s_ID x) payload (ttlFor st x t),
          CSAdd (userIndexPrefix @ u) [s_ID x], CExpire (userIndexPrefix @ u) (absoluteTTL st)]"
  have ttl: "ttlFor st x t = min (idleTTL st) (absoluteTTL st)"
    using assms(5) time_sub_abs by (simp add: ttlFor_def Let_def min_def)
  have b: "s_UserID (json_back x) = u" "s_CreatedAt (json_back x) = t" "s_ExpiresAt (json_back x) = t + absoluteTTL st"
    using assms(3-5,7) by (simp_all add: json_back_def coerce_ascii)
  have "cmds_typed ?cs (live t (entries s))"
    using store_ok_typed [OF assms(6)] by (simp add: cmds_typed_def index_typed_def)
  from exec_cases [OF assms(1) this] show ?thesis
  proof
    assume c: "cmds_spec t ?cs (live t (entries s)) (live t (entries s1))"
    note oc = ok_create [OF assms(6) c json [OF assms(2)] b(1) assms(7) b(2,3) abs_pos abs_whole]
    then have "s_ID x \<in> listed (live t (entries s1)) u" by (auto simp: listed_def)
    with oc show ?thesis using assms(3-5) by (auto simp: created_def ttl)
  qed (use assms(6) in auto)
qed

lemma Create_spec:
  assumes "Create st rnd u ip ua t s = (s', r)" "store_ok st t (live t (entries s))" "is_ascii u"
  shows "store_ok st t (live t (entries s')) \<and> (\<forall>token sess. r = Inr (token, sess) \<longrightarrow> s_ID sess = hashToken st token \<and>
    (\<exists>m1 fin. created st u t sess (live t (entries s)) m1 \<and> trim_effect st u fin m1 (live t (entries s')) \<and>
      (\<exists>s1. m1 = live t (entries s1) \<and> trimSessions st u t s1 = (s', fin))))"
proof -
  consider (early) "s' = s" "\<And>x. r \<noteq> Inr x"
    | (exec) tok x payload s1 y where "x = \<lparr>s_ID = hashToken st tok, s_UserID = u, s_CreatedAt = t,
        s_ExpiresAt = t + absoluteTTL st, s_LastSeenAt = t, s_IP = ip, s_UserAgent = truncate ua 512\<rparr>"
      "marshal st x = Some payload" "rd_exec (rdb st) [CSet (sessionKeyPrefix @ s_ID x) payload (ttlFor st x t),
        CSAdd (userIndexPrefix @ u) [s_ID x], CExpire (userIndexPrefix @ u) (absoluteTTL st)] t s = (s1, y)"
      "y \<noteq> None \<and> s' = s1 \<and> r = Inl StoreFailed \<or> y = None \<and> s' = fst (trimSessions st u t s1) \<and> r = Inr (tok, x)"
    using assms(1) by (auto simp: Create_def Let_def split: sum.splits option.splits prod.splits)
  then show ?thesis
  proof cases
    case early
    then show ?thesis using assms(2) by auto
  next
    case (exec tok x payload s1 y)
    note tx = create_tx [OF exec(3,2) _ _ _ assms(2,3)]
    obtain fin where fin: "trimSessions st u t s1 = (fst (trimSessions st u t s1), fin)" by (metis prod.collapse)
    note tr = trimSessions_spec [OF fin]
    show ?thesis
    proof (cases y)
      case None
      then have r: "s' = fst (trimSessions st u t s1)" "r = Inr (tok, x)" using exec(4) by auto
      have "store_ok st t (live t (entries s1))" "created st u t x (live t (entries s)) (live t (entries s1))"
        using tx None exec(1) by auto
      with tr fin r exec(1) show ?thesis by auto
    next
      case (Some z)
      then show ?thesis using tx exec(1,4) by auto
    qed
  qed
qed

end

subsection \<open>Any sequence of operations\<close>

text \<open>
  A state is a time and the server's state.  The requests of the service use the store in these ways; a
  session is touched with the value its own lookup returned, without another operation in between.
  \<open>other\<close> is everything else the server is used for.
\<close>

inductive sess_step :: "'s SessionStore \<Rightarrow> ('s \<Rightarrow> db) \<Rightarrow> gotime \<times> 's \<Rightarrow> gotime \<times> 's \<Rightarrow> bool"
  for st :: "'s SessionStore" and entries :: "'s \<Rightarrow> db" where
  create: "t \<le> t' \<Longrightarrow> is_ascii u \<Longrightarrow> Create st rnd u ip ua t' s = (s', r) \<Longrightarrow> sess_step st entries (t, s) (t', s')"
| get: "t \<le> t' \<Longrightarrow> Get st token t' s = (s', r) \<Longrightarrow> sess_step st entries (t, s) (t', s')"
| touch: "t \<le> t' \<Longrightarrow> Get st token t' s = (s1, Inr sess) \<Longrightarrow> t' \<le> t'' \<Longrightarrow> Touch st sess t'' s1 = (s', r) \<Longrightarrow>
    sess_step st entries (t, s) (t'', s')"
| revoke: "t \<le> t' \<Longrightarrow> Revoke st token t' s = (s', r) \<Longrightarrow> sess_step st entries (t, s) (t', s')"
| revoke_all: "t \<le> t' \<Longrightarrow> RevokeAllForUser st u except t' s = (s', r') \<Longrightarrow> sess_step st entries (t, s) (t', s')"
| other: "t \<le> t' \<Longrightarrow>
    (\<And>i. live t' (entries s') (sessionKeyPrefix @ i) = live t' (entries s) (sessionKeyPrefix @ i)) \<Longrightarrow>
    (\<And>u. live t' (entries s') (userIndexPrefix @ u) = live t' (entries s) (userIndexPrefix @ u)) \<Longrightarrow>
    sess_step st entries (t, s) (t', s')"

inductive sess_reach :: "'s SessionStore \<Rightarrow> ('s \<Rightarrow> db) \<Rightarrow> gotime \<times> 's \<Rightarrow> bool"
  for st :: "'s SessionStore" and entries :: "'s \<Rightarrow> db" where
  start: "(\<And>i. live t (entries s) (sessionKeyPrefix @ i) = None) \<Longrightarrow>
    (\<And>u. live t (entries s) (userIndexPrefix @ u) = None) \<Longrightarrow> sess_reach st entries (t, s)"
| more: "sess_reach st entries x \<Longrightarrow> sess_step st entries x y \<Longrightarrow> sess_reach st entries y"

lemma store_ok_cong:
  assumes "store_ok st t m" "\<And>i. m' (sessionKeyPrefix @ i) = m (sessionKeyPrefix @ i)"
    "\<And>u. m' (userIndexPrefix @ u) = m (userIndexPrefix @ u)"
  shows "store_ok st t m'"
proof (rule store_ok_shrink [OF assms(1)])
  show "index_typed m'" using store_ok_typed [OF assms(1)] assms(3) by (simp add: index_typed_def)
qed (use assms(2,3) in \<open>auto simp: sess_at_def indexed_def\<close>)

context session_store
begin

lemma touch_after_get:
  assumes "store_ok st t (live t (entries s))" "Get st token t s = (s1, Inr sess)" "t \<le> t'" "Touch st sess t' s1 = (s', r)"
  shows "store_ok st t' (live t' (entries s'))"
proof -
  note g = Get_spec(2) [OF assms(2,1) refl]
  then obtain x where x: "sess_at st (live t (entries s)) (hashToken st token) = Some x"
    "sess = x\<lparr>s_ID := hashToken st token\<rparr>" "live t (entries s1) = live t (entries s)" by auto
  have ok: "sess_ok st t (live t (entries s)) (hashToken st token) x" using store_okD [OF assms(1) x(1)] .
  have "store_ok st t' (live t' (entries s1))" using store_ok_later [OF _ assms(3)] assms(1) x(3) by metis
  moreover have "indexed (live t' (entries s1)) (s_UserID sess) (s_ID sess) (s_ExpiresAt sess)" if "t' < s_ExpiresAt sess"
  proof -
    have "indexed (live t (entries s1)) (s_UserID sess) (s_ID sess) (s_ExpiresAt sess)"
    proof -
      have "t < s_ExpiresAt x" using that x(2) assms(3) by simp
      with ok have "indexed (live t (entries s)) (s_UserID x) (hashToken st token) (s_ExpiresAt x)"
        unfolding sess_ok_def by blast
      then show ?thesis using x(2,3) by simp
    qed
    then show ?thesis using indexed_later [OF assms(3) that] by blast
  qed
  ultimately show ?thesis
    using Touch_spec [OF assms(4)] ok x(2) assms(3) by (simp add: sess_ok_def)
qed

lemma sess_step_ok:
  assumes "sess_step st entries x y" "store_ok st (fst x) (live (fst x) (entries (snd x)))"
  shows "store_ok st (fst y) (live (fst y) (entries (snd y)))"
  using assms
proof (induction rule: sess_step.induct)
  case (create t t' u rnd ip ua s s' r)
  then show ?case using Create_spec [OF create(3) store_ok_later] by simp
next
  case (get t t' token s s' r)
  then show ?case using Get_spec(1) [OF get(2) store_ok_later] by simp
next
  case (touch t t' token s s1 sess t'' s' r)
  then show ?case using touch_after_get [OF store_ok_later touch(2-4)] by simp
next
  case (revoke t t' token s s' r)
  then show ?case using Revoke_spec [OF revoke(2) store_ok_later] by simp
next
  case (revoke_all t t' u except s s' r')
  then show ?case using RevokeAll_spec [OF revoke_all(2) store_ok_later] by simp
next
  case (other t t' s' s)
  have "store_ok st t' (live t' (entries s))" using store_ok_later [of st t "entries s" t'] other by simp
  then show ?case using store_ok_cong [of st t' _ "live t' (entries s')"] other(2,3) by simp
qed

lemma sess_reach_ok: "sess_reach st entries x \<Longrightarrow> store_ok st (fst x) (live (fst x) (entries (snd x)))"
proof (induction rule: sess_reach.induct)
  case (start t s)
  then show ?case by (simp add: store_ok_def index_typed_def sess_at_def)
next
  case (more x y)
  then show ?case using sess_step_ok by blast
qed

lemma sess_reach_later:
  "sess_reach st entries (t, s) \<Longrightarrow> t \<le> t' \<Longrightarrow> store_ok st t' (live t' (entries s))"
  using sess_reach_ok store_ok_later by fastforce

end

end
