(* ===== verification/SessionProps.thy ===== *)
theory SessionProps
  imports SessionSystem
begin

text \<open>
  The properties of the session store, against any server and codec with the promised behaviour.  At the
  end of the setup, a complete instance: the in-memory server, the default lifetimes, and a text codec.
\<close>

subsection \<open>A codec\<close>

text \<open>A session as a comma-separated line of decimal numbers and hexadecimal strings.\<close>

definition unhexdigit :: "char \<Rightarrow> nat" where
  "unhexdigit c = (case index_of c ''0123456789abcdef'' of Some n \<Rightarrow> n | None \<Rightarrow> 0)"

fun unhex :: "string \<Rightarrow> string" where
  "unhex (a # b # r) = char_of (unhexdigit a * 16 + unhexdigit b) # unhex r"
| "unhex _ = []"

definition parse_int :: "string \<Rightarrow> int" where
  "parse_int s = (if take 1 s = ''-'' then - int (digits_value (drop 1 s)) else int (digits_value s))"

lemma unhexdigit_inverse: "n < 16 \<Longrightarrow> unhexdigit (hexdigit n) = n"
  using index_of_nth [of "''0123456789abcdef''" n] by (simp add: unhexdigit_def hexdigit_def)

lemma unhex_inverse: "unhex (hex_encode s) = s"
proof (induction s)
  case (Cons c s)
  have b: "byte c div 16 < 16" using byte_lt [of c] by auto
  have "byte c div 16 * 16 + byte c mod 16 = byte c" by simp
  then have "char_of (byte c div 16 * 16 + byte c mod 16) = c" by (simp add: byte_def)
  with Cons b show ?case by (simp add: hex_encode_def unhexdigit_inverse)
qed (simp add: hex_encode_def)

lemma parse_int_inverse: "parse_int (format_int i) = i"
proof (cases "i < 0")
  case True
  then show ?thesis by (simp add: parse_int_def format_int_def digits_value_format)
next
  case False
  have "take 1 (format_nat (nat i)) \<noteq> ''-''"
    using format_nat_digits [of "nat i"] format_nat_nonempty [of "nat i"]
    by (cases "format_nat (nat i)") (auto simp: is_digit_def byte_def)
  with False show ?thesis by (simp add: parse_int_def format_int_def digits_value_format)
qed

lemma no_comma_hex: "CHR '','' \<notin> set (hex_encode s)"
proof -
  have "hexdigit n \<noteq> CHR '',''" if "n < 16" for n
    using that nth_mem [of n "''0123456789abcdef''"] by (auto simp: hexdigit_def)
  then have "CHR '','' \<notin> hexdigit ` {..<16}" by force
  moreover have "byte c div 16 < 16" for c using byte_lt [of c] by auto
  then have "set (hex_encode s) \<subseteq> hexdigit ` {..<16}" by (auto simp: hex_encode_def)
  ultimately show ?thesis by blast
qed

lemma no_comma_int: "CHR '','' \<notin> set (format_int i)"
  using format_nat_digits [of "nat i"] format_nat_digits [of "nat (- i)"]
  by (auto simp: format_int_def list_all_iff is_digit_def byte_def)

definition text_line :: "Session \<Rightarrow> string" where
  "text_line x = join '',''
     [hex_encode (coerce_utf8 (s_UserID x)), format_int (s_CreatedAt x), format_int (s_ExpiresAt x),
      format_int (s_LastSeenAt x), hex_encode (coerce_utf8 (s_IP x)), hex_encode (coerce_utf8 (s_UserAgent x))]"

definition text_unmarshal :: "string \<Rightarrow> Session option" where
  "text_unmarshal s = (case split (CHR '','') s of
     [u, c, e, l, ip, ua] \<Rightarrow> Some \<lparr>s_ID = [], s_UserID = unhex u, s_CreatedAt = parse_int c,
        s_ExpiresAt = parse_int e, s_LastSeenAt = parse_int l, s_IP = unhex ip, s_UserAgent = unhex ua\<rparr>
   | _ \<Rightarrow> None)"

definition text_store :: "mem SessionStore" where
  "text_store = \<lparr>rdb = mem_redis, idleTTL = 7 * 24 * hour, absoluteTTL = 30 * 24 * hour, ticketTTL = 30 * second,
     sha256 = (\<lambda>x. ''sha'' @ x), marshal = (\<lambda>x. Some (text_line x)), unmarshal = text_unmarshal\<rparr>"

lemma text_roundtrip: "text_unmarshal (text_line x) = Some (json_back x)"
proof -
  let ?ps = "[hex_encode (coerce_utf8 (s_UserID x)), format_int (s_CreatedAt x), format_int (s_ExpiresAt x),
      format_int (s_LastSeenAt x), hex_encode (coerce_utf8 (s_IP x)), hex_encode (coerce_utf8 (s_UserAgent x))]"
  have "\<forall>p\<in>set ?ps. CHR '','' \<notin> set p" using no_comma_hex no_comma_int by simp
  then have "split (CHR '','') (text_line x) = ?ps" unfolding text_line_def by (intro split_join) auto
  then show ?thesis
    by (simp add: text_unmarshal_def json_back_def unhex_inverse parse_int_inverse)
qed

interpretation text_store: session_store text_store mem_entries
  by (intro session_store.intro session_store_axioms.intro)
    (auto simp: text_store_def mem.redis_server_axioms text_roundtrip)

lemma text_store_sel:
  "rdb text_store = mem_redis" "idleTTL text_store = 7 * 24 * hour" "absoluteTTL text_store = 30 * 24 * hour"
  "ticketTTL text_store = 30 * second" "marshal text_store x = Some (text_line x)" "unmarshal text_store = text_unmarshal"
  by (simp_all add: text_store_def)

subsection \<open>Lookups\<close>

context session_store
begin

lemma ttl_live:
  assumes "ttl_spec t ttl old e" "0 < ttl" "t \<le> t'" "t' + millisecond \<le> t + ttl"
  shows "live_at t' (Some (v, e)) = Some (v, e)"
  using assms by (auto simp: ttl_spec_def live_at_Some)

lemma ttl_dead:
  assumes "ttl_spec t ttl old e" "0 < ttl" "t + max ttl millisecond \<le> t'"
  shows "live_at t' (Some (v, e)) = None"
  using assms by (auto simp: ttl_spec_def live_at_Some)

lemma min_ttl_pos: "0 < min (idleTTL st) (absoluteTTL st)"
  using idle_pos abs_pos by simp

lemma created_survives:
  assumes "sess_reach st entries (t0, s)" "t0 < t" "is_ascii u" "Create st rnd u ip ua t s = (s1, Inr (token, sess))"
  shows "\<exists>raw e. live t (entries s1) (sessionKeyPrefix @ hashToken st token) = Some (RStr raw, e) \<and>
    ttl_spec t (min (idleTTL st) (absoluteTTL st)) (live t (entries s) (sessionKeyPrefix @ hashToken st token)) e \<and>
    unmarshal st raw = Some (json_back sess) \<and> s_UserID sess = u \<and> s_CreatedAt sess = t \<and> s_ExpiresAt sess = t + absoluteTTL st"
proof -
  let ?m = "live t (entries s)"
  have ok: "store_ok st t ?m" using sess_reach_later [OF assms(1)] assms(2) by simp
  from Create_spec [OF assms(4) ok assms(3)]
  obtain m1 fin where i: "s_ID sess = hashToken st token" and c: "created st u t sess ?m m1"
    and tr: "trim_effect st u fin m1 (live t (entries s1))" by auto
  have new: "s_CreatedAt y < t" if "sess_at st m1 j = Some y" "j \<noteq> s_ID sess" for j y
  proof -
    have "sess_at st ?m j = Some y" using that c by (simp add: created_def sess_at_def)
    then have "sess_at st (live t0 (entries s)) j = Some y" using sess_at_later assms(2) by (metis less_imp_le)
    then show ?thesis using sess_reach_ok [OF assms(1)] assms(2) store_okD by (fastforce simp: sess_ok_def)
  qed
  have "live t (entries s1) (sessionKeyPrefix @ s_ID sess) = m1 (sessionKeyPrefix @ s_ID sess)"
  proof -
    have "sess_at st m1 (s_ID sess) = Some (json_back sess)" using c by (simp add: created_def)
    moreover have "\<forall>j y. sess_at st m1 j = Some y \<and> j \<noteq> s_ID sess \<longrightarrow> s_CreatedAt y < s_CreatedAt (json_back sess)"
      using new c by (auto simp: created_def json_back_def)
    ultimately show ?thesis using tr unfolding trim_effect_def by blast
  qed
  with c i show ?thesis by (auto simp: created_def sess_at_def)
qed

lemma created_resolves:
  assumes "sess_reach st entries (t0, s)" "t0 < t" "is_ascii u" "Create st rnd u ip ua t s = (s1, Inr (token, sess))"
    and "t \<le> t'" "t' + millisecond \<le> t + min (idleTTL st) (absoluteTTL st)" "Get st token t' s1 = (s2, r)"
  shows "r = Inl StoreFailed \<or> (\<exists>x. r = Inr x \<and> s_ID x = hashToken st token \<and> s_UserID x = u \<and> s_CreatedAt x = t \<and>
    s_ExpiresAt x = t + absoluteTTL st)"
proof -
  obtain raw e where c: "live t (entries s1) (sessionKeyPrefix @ hashToken st token) = Some (RStr raw, e)"
    "ttl_spec t (min (idleTTL st) (absoluteTTL st)) (live t (entries s) (sessionKeyPrefix @ hashToken st token)) e"
    "unmarshal st raw = Some (json_back sess)" "s_UserID sess = u" "s_CreatedAt sess = t" "s_ExpiresAt sess = t + absoluteTTL st"
    using created_survives [OF assms(1-4)] by blast
  have "sess_at st (live t' (entries s1)) (hashToken st token) = Some (json_back sess)"
    using c(1,3) ttl_live [OF c(2) min_ttl_pos assms(5,6)] by (simp add: sess_at_def live_later [OF assms(5)])
  moreover have "t' \<le> s_ExpiresAt (json_back sess)" using assms(6) c(6) by (simp add: json_back_def)
  ultimately have "r = Inr ((json_back sess)\<lparr>s_ID := hashToken st token\<rparr>) \<or> r = Inl StoreFailed"
    by (rule Get_finds [OF assms(7)])
  then show ?thesis using c(4-6) assms(3) by (auto simp: json_back_def coerce_ascii)
qed

lemma created_idles_out:
  assumes "sess_reach st entries (t0, s)" "t0 < t" "is_ascii u" "Create st rnd u ip ua t s = (s1, Inr (token, sess))"
    and "t + max (min (idleTTL st) (absoluteTTL st)) millisecond \<le> t'" "Get st token t' s1 = (s2, r)"
  shows "r = Inl ErrSessionNotFound \<or> r = Inl StoreFailed"
proof -
  obtain raw e where c: "live t (entries s1) (sessionKeyPrefix @ hashToken st token) = Some (RStr raw, e)"
    "ttl_spec t (min (idleTTL st) (absoluteTTL st)) (live t (entries s) (sessionKeyPrefix @ hashToken st token)) e"
    using created_survives [OF assms(1-4)] by blast
  have "t \<le> t'" using assms(5) by simp
  then have "live t' (entries s1) (sessionKeyPrefix @ hashToken st token) = None"
    using c(1) ttl_dead [OF c(2) min_ttl_pos assms(5)] by (simp add: live_later)
  then show ?thesis by (rule Get_misses [OF assms(6)])
qed

lemma revoke_all_effective:
  assumes "sess_reach st entries (t0, s)" "t0 \<le> t" "RevokeAllForUser st u except t s = (s1, Inr n)"
    and "t < t'" "Get st token t' s1 = (s2, Inr sess)" "s_UserID sess = u"
  shows "except \<noteq> [] \<and> hashToken st token = hashToken st except"
proof (rule ccontr)
  let ?m = "live t (entries s)" and ?h = "hashToken st token"
  assume no: "\<not> ?thesis"
  have ok: "store_ok st t ?m" using sess_reach_later [OF assms(1,2)] .
  define keep where "keep = (if except \<noteq> [] then hashToken st except else [])"
  note ra = RevokeAll_spec [OF assms(3) ok, folded keep_def]
  have ok1: "store_ok st t' (live t' (entries s1))" using ra store_ok_later assms(4) by (metis less_imp_le)
  obtain x where x: "sess_at st (live t' (entries s1)) ?h = Some x" "sess = x\<lparr>s_ID := ?h\<rparr>" "t' \<le> s_ExpiresAt sess"
    using Get_spec(2) [OF assms(5) ok1 refl] by auto
  have x1: "sess_at st (live t (entries s1)) ?h = Some x" using sess_at_later [OF _ x(1)] assms(4) by simp
  then have kept: "\<not> (?h \<in> listed ?m u \<and> ?h \<noteq> keep)" "sess_at st ?m ?h = Some x"
    using ra by (auto simp: sess_at_def split: if_splits)
  have "t < s_ExpiresAt x" using x(2,3) assms(4) by simp
  then have "indexed ?m (s_UserID x) ?h (s_ExpiresAt x)" using store_okD [OF ok kept(2)] unfolding sess_ok_def by blast
  then have "?h \<in> listed ?m u" using assms(6) x(2) by (auto simp: indexed_def listed_def)
  with kept(1) have "?h = keep" by simp
  moreover have "?h \<noteq> []"
    using sha_nonempty [of token] length_hex_encode [of "sha256 st token"] by (auto simp: hashToken_def)
  ultimately show False using no by (auto simp: keep_def split: if_splits)
qed

lemma revoked_gone:
  assumes "store_ok st t (live t (entries s))" "Revoke st token t s = (s1, None)" "t \<le> t'"
  shows "Get st token t' s1 = (s2, r) \<Longrightarrow> r = Inl ErrSessionNotFound \<or> r = Inl StoreFailed"
    and "Revoke st token t' s1 = (s2, x) \<Longrightarrow> x = None \<or> x = Some StoreFailed"
    and "live t' (entries s1) (sessionKeyPrefix @ hashToken st token) = None"
proof -
  have gone: "live t' (entries s1) (sessionKeyPrefix @ hashToken st token) = None"
    using Revoke_spec [OF assms(2,1)] by (simp add: live_later [OF assms(3)])
  then show "live t' (entries s1) (sessionKeyPrefix @ hashToken st token) = None" .
  show "Get st token t' s1 = (s2, r) \<Longrightarrow> r = Inl ErrSessionNotFound \<or> r = Inl StoreFailed"
    using Get_misses gone by blast
  obtain s3 v where g: "rd_get (rdb st) (sessionKeyPrefix @ hashToken st token) t' s1 = (s3, v)"
    by (cases "rd_get (rdb st) (sessionKeyPrefix @ hashToken st token) t' s1")
  then have "v = Inr None \<or> (\<exists>e. v = Inl e)" using get_ok [of "sessionKeyPrefix @ hashToken st token" t' s1 s3] gone by (cases v) auto
  then show "Revoke st token t' s1 = (s2, x) \<Longrightarrow> x = None \<or> x = Some StoreFailed"
    using g by (auto simp: Revoke_def Let_def)
qed

lemma redeem_spec:
  assumes "RedeemWSTicket st ticket t s = (s', r)"
  shows "r = Inr u \<Longrightarrow> live t (entries s') (wsTicketPrefix @ hashToken st ticket) = None \<and>
      (\<exists>e. live t (entries s) (wsTicketPrefix @ hashToken st ticket) = Some (RStr u, e))"
    and "live t (entries s) (wsTicketPrefix @ hashToken st ticket) = Some (RStr u, e) \<Longrightarrow> r = Inr u \<or> r = Inl StoreFailed"
    and "live t (entries s) (wsTicketPrefix @ hashToken st ticket) = None \<Longrightarrow> r = Inl ErrTicketNotFound \<or> r = Inl StoreFailed"
proof -
  let ?k = "wsTicketPrefix @ hashToken st ticket"
  obtain s1 v where g: "rd_getdel (rdb st) ?k t s = (s1, v)" by (cases "rd_getdel (rdb st) ?k t s")
  have *: "v = Inr w \<Longrightarrow> live t (entries s1) ?k = None \<and>
      (case live t (entries s) ?k of None \<Rightarrow> w = None | Some (RStr x, _) \<Rightarrow> w = Some x | Some _ \<Rightarrow> False)" for w
    using getdel_ok [of ?k t s s1 w] g by auto
  show "r = Inr u \<Longrightarrow> live t (entries s') ?k = None \<and> (\<exists>e. live t (entries s) ?k = Some (RStr u, e))"
    using assms g * by (fastforce simp: RedeemWSTicket_def split: sum.splits option.splits rval.splits)
  show "live t (entries s) ?k = Some (RStr u, e) \<Longrightarrow> r = Inr u \<or> r = Inl StoreFailed"
    using assms g * by (cases v) (auto simp: RedeemWSTicket_def)
  show "live t (entries s) ?k = None \<Longrightarrow> r = Inl ErrTicketNotFound \<or> r = Inl StoreFailed"
    using assms g * by (cases v) (auto simp: RedeemWSTicket_def)
qed

lemma issue_spec:
  assumes "IssueWSTicket st rnd u t s = (s1, Inr (ticket, ttl))" "0 < ticketTTL st"
  shows "ttl = ticketTTL st \<and> (\<exists>e old. live t (entries s1) (wsTicketPrefix @ hashToken st ticket) = Some (RStr u, e) \<and>
    ttl_spec t (ticketTTL st) old e)"
proof -
  obtain tk where "newToken rnd = Inr tk" and x: "rd_exec (rdb st) [CSet (wsTicketPrefix @ hashToken st tk) u (ticketTTL st)] t s = (s1, None)"
    "ticket = tk" "ttl = ticketTTL st"
    using assms(1) by (auto simp: IssueWSTicket_def split: sum.splits prod.splits option.splits)
  from exec_ok [OF x(1)] show ?thesis using x(2,3) by auto
qed

lemma ticket_once:
  assumes "IssueWSTicket st rnd u t s = (s1, Inr (ticket, ttl))" "0 < ticketTTL st" "t \<le> t'"
    and "RedeemWSTicket st ticket t' s1 = (s2, r)"
  shows "(t' + millisecond \<le> t + ttl \<longrightarrow> r = Inr u \<or> r = Inl StoreFailed) \<and>
    (t + max ttl millisecond \<le> t' \<longrightarrow> r = Inl ErrTicketNotFound \<or> r = Inl StoreFailed) \<and>
    (\<forall>v. r = Inr v \<longrightarrow> v = u \<and> (\<forall>t'' s3 r'. t' \<le> t'' \<and> RedeemWSTicket st ticket t'' s2 = (s3, r') \<longrightarrow>
       r' = Inl ErrTicketNotFound \<or> r' = Inl StoreFailed))"
proof -
  let ?k = "wsTicketPrefix @ hashToken st ticket"
  obtain e old where i: "ttl = ticketTTL st" "live t (entries s1) ?k = Some (RStr u, e)" "ttl_spec t (ticketTTL st) old e"
    using issue_spec [OF assms(1,2)] by blast
  have l: "live t' (entries s1) ?k = live_at t' (Some (RStr u, e))" using i(2) by (simp add: live_later [OF assms(3)])
  have once: "v = u \<and> live t' (entries s2) ?k = None" if "r = Inr v" for v
    using redeem_spec(1) [OF assms(4) that] l by (auto simp: live_at_Some split: if_splits)
  have "r' = Inl ErrTicketNotFound \<or> r' = Inl StoreFailed"
    if "r = Inr v" "t' \<le> t''" "RedeemWSTicket st ticket t'' s2 = (s3, r')" for v t'' s3 r'
    using redeem_spec(3) [OF that(3)] once [OF that(1)] by (simp add: live_later [OF that(2)])
  moreover have "t' + millisecond \<le> t + ttl \<longrightarrow> r = Inr u \<or> r = Inl StoreFailed"
    using redeem_spec(2) [OF assms(4)] l ttl_live [OF i(3) assms(2,3)] i(1) by simp
  moreover have "t + max ttl millisecond \<le> t' \<longrightarrow> r = Inl ErrTicketNotFound \<or> r = Inl StoreFailed"
    using redeem_spec(3) [OF assms(4)] l ttl_dead [OF i(3) assms(2)] i(1) by simp
  ultimately show ?thesis using once by blast
qed

end

subsection \<open>Properties\<close>

definition empty_mem :: mem where
  "empty_mem = \<lparr>mem_db = (\<lambda>_. None), mem_up = True\<rparr>"

definition demo_login :: "mem \<times> (sess_error + (string \<times> Session))" where
  "demo_login = Create text_store (Some ''r'') ''u1'' ''ip'' ''ua'' 1 empty_mem"

definition demo_token :: string where
  "demo_token = b64_encode url_alphabet ''r''"

lemma empty_reach: "sess_reach text_store mem_entries (0, empty_mem)"
  by (rule sess_reach.start) (simp_all add: mem_live mem_find_def empty_mem_def)

lemmas sess_eval = Let_def text_store_sel text_roundtrip mem_redis_def mem_find_def mem_put_def mem_ttl_def
  maxSessionsPerUsr_def demo_login_def empty_mem_def Create_def trimSessions_def newToken_def Get_def revokeByID_def
  RevokeAllForUser_def Touch_def Revoke_def ttlFor_def time_sub_def touchGranularity_def json_back_def truncate_def
  demo_token_def [symmetric] IssueWSTicket_def RedeemWSTicket_def

lemma demo_login_ok: "\<exists>sess. demo_login = (fst demo_login, Inr (demo_token, sess))"
  by (simp add: sess_eval)

lemma demo_token_nonempty: "demo_token \<noteq> []"
  using length_b64_encode [of url_alphabet "''r''"] unfolding demo_token_def by auto

lemma demo_user_ascii: "is_ascii ''u1''"
  by (simp add: is_ascii_def byte_def)

lemma demo_login_reach: "sess_reach text_store mem_entries (1, fst demo_login)"
proof -
  have c: "Create text_store (Some ''r'') ''u1'' ''ip'' ''ua'' 1 empty_mem = (fst demo_login, snd demo_login)"
    by (simp add: demo_login_def)
  have "sess_step text_store mem_entries (0, empty_mem) (1, fst demo_login)"
    by (rule sess_step.create [OF _ demo_user_ascii c]) simp
  with empty_reach show ?thesis by (rule sess_reach.more)
qed



text \<open>C8. A session never outlives its absolute lifetime: however often it is touched, a lookup that succeeds
  happens no later than \<^verbatim>\<open>absoluteTTL\<close> after the login that created the session.\<close>

theorem absolute_lifetime:
  assumes "session_store st entries" "sess_reach st entries (t0, s)" "t0 \<le> t" "Get st token t s = (s', Inr sess)"
  shows "s_CreatedAt sess \<le> t \<and> t \<le> s_CreatedAt sess + absoluteTTL st \<and> s_ID sess = hashToken st token"
proof -
  have ok: "store_ok st t (live t (entries s))" using session_store.sess_reach_later [OF assms(1-3)] .
  from session_store.Get_spec(2) [OF assms(1,4) ok refl] store_okD [OF ok]
  show ?thesis by (fastforce simp: sess_ok_def)
qed

theorem absolute_lifetime_witness:
  "\<exists>s' sess. Get text_store demo_token 2 (fst demo_login) = (s', Inr sess) \<and> 2 \<le> s_CreatedAt sess + absoluteTTL text_store"
proof -
  have v: "case Get text_store demo_token 2 (fst demo_login) of (_, Inr _) \<Rightarrow> True | _ \<Rightarrow> False"
    by (simp add: sess_eval)
  then obtain s' sess where g: "Get text_store demo_token 2 (fst demo_login) = (s', Inr sess)"
    by (auto split: prod.splits sum.splits)
  with absolute_lifetime [OF text_store.session_store_axioms demo_login_reach _ g] show ?thesis by auto
qed

text \<open>C18. A login that returned a token can be used: until the session's time to live is over, a lookup of
  the token gives that session, with the user and times of the login, unless the server cannot be
  reached; an untouched session is gone once its time to live is over.\<close>

theorem login_resolves:
  assumes "session_store st entries" "sess_reach st entries (t0, s)" "t0 < t" "is_ascii u"
    and "Create st rnd u ip ua t s = (s1, Inr (token, sess))" "t \<le> t'" "Get st token t' s1 = (s2, r)"
  shows "(t' + millisecond \<le> t + min (idleTTL st) (absoluteTTL st) \<longrightarrow> r = Inl StoreFailed \<or>
      (\<exists>x. r = Inr x \<and> s_ID x = hashToken st token \<and> s_UserID x = u \<and> s_CreatedAt x = t \<and> s_ExpiresAt x = t + absoluteTTL st)) \<and>
    (t + max (min (idleTTL st) (absoluteTTL st)) millisecond \<le> t' \<longrightarrow> r = Inl ErrSessionNotFound \<or> r = Inl StoreFailed)"
  using session_store.created_resolves [OF assms(1-6) _ assms(7)] session_store.created_idles_out [OF assms(1-5) _ assms(7)]
  by blast

theorem login_resolves_witness:
  "\<exists>x. snd (Get text_store demo_token 5 (fst demo_login)) = Inr x \<and> s_UserID x = ''u1'' \<and> s_CreatedAt x = 1"
proof -
  obtain sess where c: "Create text_store (Some ''r'') ''u1'' ''ip'' ''ua'' 1 empty_mem = (fst demo_login, Inr (demo_token, sess))"
    using demo_login_ok by (auto simp: demo_login_def)
  have a: "is_ascii ''u1''" by (simp add: is_ascii_def byte_def)
  have "snd (Get text_store demo_token 5 (fst demo_login)) \<noteq> Inl StoreFailed" by (simp add: sess_eval)
  moreover have "5 + millisecond \<le> 1 + min (idleTTL text_store) (absoluteTTL text_store)" by (simp add: text_store_def)
  ultimately show ?thesis
    using login_resolves [OF text_store.session_store_axioms empty_reach _ a c, of 5
        "fst (Get text_store demo_token 5 (fst demo_login))" "snd (Get text_store demo_token 5 (fst demo_login))"] by auto
qed

text \<open>Logging out is final and idempotent: once \<^verbatim>\<open>Revoke\<close> has succeeded the token resolves to nothing at
  any later time, revoking it again is not an error, and no other session was touched.\<close>

lemma logout_final:
  assumes "session_store st entries" "sess_reach st entries (t0, s)" "t0 \<le> t" "Revoke st token t s = (s1, None)" "t \<le> t'"
  shows "snd (Get st token t' s1) \<in> {Inl ErrSessionNotFound, Inl StoreFailed} \<and>
    snd (Revoke st token t' s1) \<in> {None, Some StoreFailed} \<and>
    (\<forall>j. j \<noteq> hashToken st token \<longrightarrow> live t (entries s1) (sessionKeyPrefix @ j) = live t (entries s) (sessionKeyPrefix @ j))"
proof -
  have ok: "store_ok st t (live t (entries s))" using session_store.sess_reach_later [OF assms(1-3)] .
  note g = session_store.revoked_gone [OF assms(1) ok assms(4,5)]
  show ?thesis
    using g(1) [of "fst (Get st token t' s1)"] g(2) [of "fst (Revoke st token t' s1)"]
      session_store.Revoke_spec [OF assms(1,4) ok] by simp
qed

text \<open>C25. When trimming after a login completes, the user has at most 20 live sessions in the index, and every
  session it dropped is at least as old as every one it kept; trimming never touches the newest session.\<close>

theorem session_cap:
  assumes "session_store st entries" "store_ok st t (live t (entries s))" "trimSessions st u t s = (s', fin)"
  shows "(fin \<longrightarrow> finite (listed (live t (entries s')) u) \<and>
      card {i \<in> listed (live t (entries s')) u. sess_at st (live t (entries s')) i \<noteq> None} \<le> 20 \<and>
      (\<forall>i x j y. sess_at st (live t (entries s)) i = Some x \<and> sess_at st (live t (entries s')) i = None \<and>
         j \<in> listed (live t (entries s')) u \<and> sess_at st (live t (entries s')) j = Some y \<longrightarrow> s_CreatedAt x \<le> s_CreatedAt y)) \<and>
    (\<forall>i x. sess_at st (live t (entries s)) i = Some x \<and>
        (\<forall>j y. sess_at st (live t (entries s)) j = Some y \<and> j \<noteq> i \<longrightarrow> s_CreatedAt y < s_CreatedAt x) \<longrightarrow>
        sess_at st (live t (entries s')) i = Some x)"
proof -
  have e: "trim_effect st u fin (live t (entries s)) (live t (entries s'))"
    using session_store.trimSessions_spec [OF assms(1,3,2)] by simp
  have "sess_at st (live t (entries s')) i = Some x"
    if h: "sess_at st (live t (entries s)) i = Some x"
      "\<forall>j y. sess_at st (live t (entries s)) j = Some y \<and> j \<noteq> i \<longrightarrow> s_CreatedAt y < s_CreatedAt x" for i x
  proof -
    have "live t (entries s') (sessionKeyPrefix @ i) = live t (entries s) (sessionKeyPrefix @ i)"
      using e h unfolding trim_effect_def by blast
    then show ?thesis using h(1) by (simp add: sess_at_def)
  qed
  then show ?thesis using e unfolding trim_effect_def maxSessionsPerUsr_def by blast
qed

theorem session_cap_witness:
  "snd (trimSessions text_store ''u1'' 1 (fst demo_login)) \<and>
   card {i \<in> listed (live 1 (mem_entries (fst (trimSessions text_store ''u1'' 1 (fst demo_login))))) ''u1''.
     sess_at text_store (live 1 (mem_entries (fst (trimSessions text_store ''u1'' 1 (fst demo_login))))) i \<noteq> None} \<le> 20"
proof -
  have ok: "store_ok text_store 1 (live 1 (mem_entries (fst demo_login)))"
    using text_store.sess_reach_ok [OF demo_login_reach] by simp
  have t: "trimSessions text_store ''u1'' 1 (fst demo_login) = (fst (trimSessions text_store ''u1'' 1 (fst demo_login)), True)"
    by (simp add: sess_eval)
  show ?thesis using session_cap [OF text_store.session_store_axioms ok t] t by (metis snd_conv)
qed

text \<open>C26. A websocket ticket works once and not for long: within its lifetime the first redemption gives the
  user it was issued for, every later one finds nothing, and after its lifetime so does the first.\<close>

theorem ticket_single_use:
  assumes "session_store st entries" "IssueWSTicket st rnd u t s = (s1, Inr (ticket, ttl))" "0 < ticketTTL st" "t \<le> t'"
    and "RedeemWSTicket st ticket t' s1 = (s2, r)"
  shows "(t' + millisecond \<le> t + ttl \<longrightarrow> r = Inr u \<or> r = Inl StoreFailed) \<and>
    (t + max ttl millisecond \<le> t' \<longrightarrow> r = Inl ErrTicketNotFound \<or> r = Inl StoreFailed) \<and>
    (\<forall>v. r = Inr v \<longrightarrow> v = u \<and> (\<forall>t'' s3 r'. t' \<le> t'' \<and> RedeemWSTicket st ticket t'' s2 = (s3, r') \<longrightarrow>
       r' = Inl ErrTicketNotFound \<or> r' = Inl StoreFailed))"
  by (rule session_store.ticket_once [OF assms])

theorem ticket_single_use_witness:
  "\<exists>s1 s2. IssueWSTicket text_store (Some ''r'') ''u1'' 0 empty_mem = (s1, Inr (demo_token, 30 * second)) \<and>
     RedeemWSTicket text_store demo_token 5 s1 = (s2, Inr ''u1'') \<and>
     snd (RedeemWSTicket text_store demo_token 6 s2) = Inl ErrTicketNotFound"
proof -
  obtain s1 where i: "IssueWSTicket text_store (Some ''r'') ''u1'' 0 empty_mem = (s1, Inr (demo_token, 30 * second))"
    and r: "RedeemWSTicket text_store demo_token 5 s1 = (fst (RedeemWSTicket text_store demo_token 5 s1), Inr ''u1'')"
    and n: "snd (RedeemWSTicket text_store demo_token 6 (fst (RedeemWSTicket text_store demo_token 5 s1))) \<noteq> Inl StoreFailed"
    by (simp add: sess_eval)
  have "0 < ticketTTL text_store" by (simp add: text_store_sel)
  from ticket_single_use [OF text_store.session_store_axioms i this zero_le_numeral r, THEN conjunct2, THEN conjunct2,
      THEN spec [of _ "''u1''"]]
  have once: "\<forall>t'' s3 r'. 5 \<le> t'' \<and> RedeemWSTicket text_store demo_token t'' (fst (RedeemWSTicket text_store demo_token 5 s1)) = (s3, r') \<longrightarrow>
      r' = Inl ErrTicketNotFound \<or> r' = Inl StoreFailed" by simp
  obtain s3 r' where x: "RedeemWSTicket text_store demo_token 6 (fst (RedeemWSTicket text_store demo_token 5 s1)) = (s3, r')"
    by (cases "RedeemWSTicket text_store demo_token 6 (fst (RedeemWSTicket text_store demo_token 5 s1))")
  with once [THEN spec [of _ 6], THEN spec [of _ s3], THEN spec [of _ r']] n
  have "snd (RedeemWSTicket text_store demo_token 6 (fst (RedeemWSTicket text_store demo_token 5 s1))) = Inl ErrTicketNotFound"
    by simp
  with i r show ?thesis by blast
qed


end
