(* ===== verification/Postgres.thy ===== *)
theory Postgres
  imports GoStrings
begin

text \<open>
  The relational database, as the code sees it through \<^verbatim>\<open>pgx\<close>: one operation per SQL statement of
  \<^verbatim>\<open>auth/store.go\<close> and \<^verbatim>\<open>rooms/store.go\<close>, over an unknown server state \<open>'p\<close>.  Any call may fail.  What the
  code relies on is the locale \<open>postgres\<close>: a view \<open>tables\<close> of the committed rows of the schema in
  \<^verbatim>\<open>database/migrations\<close>, a view \<open>work\<close> of the rows as the open transaction sees them, and what each statement
  does to them.  A statement outside a transaction that reports an error may still have happened (the reply
  was lost), as may a failed commit.  \<open>uuid_in\<close> reads the text form of a \<^verbatim>\<open>uuid\<close> into its canonical form,
  \<open>ci\<close> is the folding \<^verbatim>\<open>citext\<close> compares by, \<open>text_le\<close> the collation.  \<open>mem_pg\<close> is an in-memory database
  with all of this behaviour.
\<close>

subsection \<open>Rows and tables\<close>

record user_row =
  u_email :: string
  u_display_name :: string
  u_email_verified :: bool
  u_disabled_at :: "gotime option"
  u_created_at :: gotime

record room_row =
  r_slug :: string
  r_name :: string
  r_created_by :: string
  r_created_at :: gotime

record event_row =
  e_user_id :: "string option"
  e_email :: "string option"
  e_event :: string
  e_ip :: "string option"
  e_user_agent :: string

text \<open>Tables with a \<^verbatim>\<open>uuid\<close> primary key are maps from its canonical text.\<close>

record pgdb =
  t_users :: "string \<Rightarrow> user_row option"
  t_creds :: "string \<Rightarrow> string option"
  t_rooms :: "string \<Rightarrow> room_row option"
  t_events :: "event_row list"

datatype pg_error = UniqueViolation | PgError

record 'p pg =
  pg_begin :: "gotime \<Rightarrow> 'p \<Rightarrow> 'p \<times> pg_error option"
  pg_commit :: "gotime \<Rightarrow> 'p \<Rightarrow> 'p \<times> pg_error option"
  pg_rollback :: "gotime \<Rightarrow> 'p \<Rightarrow> 'p \<times> pg_error option"
  pg_insert_user :: "string \<Rightarrow> string \<Rightarrow> gotime \<Rightarrow> 'p \<Rightarrow> 'p \<times> (pg_error + (string \<times> user_row))"
  pg_insert_credential :: "string \<Rightarrow> string \<Rightarrow> gotime \<Rightarrow> 'p \<Rightarrow> 'p \<times> pg_error option"
  pg_select_by_email :: "string \<Rightarrow> gotime \<Rightarrow> 'p \<Rightarrow> 'p \<times> (pg_error + (string \<times> user_row \<times> string option) option)"
  pg_select_by_id :: "string \<Rightarrow> gotime \<Rightarrow> 'p \<Rightarrow> 'p \<times> (pg_error + (string \<times> user_row) option)"
  pg_select_contacts :: "string \<Rightarrow> int \<Rightarrow> gotime \<Rightarrow> 'p \<Rightarrow> 'p \<times> (pg_error + ((string \<times> string) list \<times> pg_error option))"
  pg_select_credential :: "string \<Rightarrow> gotime \<Rightarrow> 'p \<Rightarrow> 'p \<times> (pg_error + string option)"
  pg_update_credential :: "string \<Rightarrow> string \<Rightarrow> gotime \<Rightarrow> 'p \<Rightarrow> 'p \<times> (pg_error + nat)"
  pg_insert_event :: "event_row \<Rightarrow> gotime \<Rightarrow> 'p \<Rightarrow> 'p \<times> pg_error option"
  pg_insert_room :: "string \<Rightarrow> string \<Rightarrow> string \<Rightarrow> gotime \<Rightarrow> 'p \<Rightarrow> 'p \<times> (pg_error + (string \<times> room_row))"
  pg_select_room :: "string \<Rightarrow> gotime \<Rightarrow> 'p \<Rightarrow> 'p \<times> (pg_error + (string \<times> room_row) option)"
  pg_delete_room :: "string \<Rightarrow> gotime \<Rightarrow> 'p \<Rightarrow> 'p \<times> (pg_error + nat)"
  pg_select_rooms :: "int \<Rightarrow> gotime \<Rightarrow> 'p \<Rightarrow> 'p \<times> (pg_error + ((string \<times> room_row \<times> string) list \<times> pg_error option))"

subsection \<open>The schema\<close>

definition email_length_ok :: "string \<Rightarrow> bool" where
  "email_length_ok s \<longleftrightarrow> 3 \<le> rune_count s \<and> rune_count s \<le> 254"

definition name_length_ok :: "string \<Rightarrow> bool" where
  "name_length_ok s \<longleftrightarrow> 1 \<le> rune_count s \<and> rune_count s \<le> 100"

definition slug_start :: "char \<Rightarrow> bool" where
  "slug_start c \<longleftrightarrow> is_digit c \<or> 0x61 \<le> byte c \<and> byte c \<le> 0x7A"

definition slug_format :: "string \<Rightarrow> bool" where
  "slug_format s \<longleftrightarrow> 3 \<le> length s \<and> length s \<le> 64 \<and> slug_start (hd s) \<and>
     list_all (\<lambda>c. slug_start c \<or> c = CHR ''-'') (tl s)"

definition add_user :: "string \<Rightarrow> user_row \<Rightarrow> pgdb \<Rightarrow> pgdb" where
  "add_user i u d = d\<lparr>t_users := (t_users d)(i \<mapsto> u)\<rparr>"

definition set_cred :: "string \<Rightarrow> string \<Rightarrow> pgdb \<Rightarrow> pgdb" where
  "set_cred i h d = d\<lparr>t_creds := (t_creds d)(i \<mapsto> h)\<rparr>"

definition add_event :: "event_row \<Rightarrow> pgdb \<Rightarrow> pgdb" where
  "add_event e d = d\<lparr>t_events := t_events d @ [e]\<rparr>"

definition add_room :: "string \<Rightarrow> room_row \<Rightarrow> pgdb \<Rightarrow> pgdb" where
  "add_room i r d = d\<lparr>t_rooms := (t_rooms d)(i \<mapsto> r)\<rparr>"

definition del_room :: "string \<Rightarrow> pgdb \<Rightarrow> pgdb" where
  "del_room slug d = d\<lparr>t_rooms := (\<lambda>i. case t_rooms d i of
     Some r \<Rightarrow> if r_slug r = slug then None else Some r | None \<Rightarrow> None)\<rparr>"

lemmas pgdb_ops = add_user_def set_cred_def add_event_def add_room_def del_room_def

text \<open>The key and check constraints of the schema, on all rows.\<close>

definition user_rows_ok :: "(string \<Rightarrow> string option) \<Rightarrow> pgdb \<Rightarrow> bool" where
  "user_rows_ok uuid_in d \<longleftrightarrow>
     (\<forall>i u. t_users d i = Some u \<longrightarrow> uuid_in i = Some i \<and> email_length_ok (u_email u) \<and> name_length_ok (u_display_name u))"

definition emails_unique :: "(string \<Rightarrow> string) \<Rightarrow> pgdb \<Rightarrow> bool" where
  "emails_unique ci d \<longleftrightarrow>
     (\<forall>i j u v. t_users d i = Some u \<longrightarrow> t_users d j = Some v \<longrightarrow> ci (u_email u) = ci (u_email v) \<longrightarrow> i = j)"

definition creds_owned :: "pgdb \<Rightarrow> bool" where
  "creds_owned d \<longleftrightarrow> (\<forall>i. t_creds d i \<noteq> None \<longrightarrow> t_users d i \<noteq> None)"

definition room_rows_ok :: "pgdb \<Rightarrow> bool" where
  "room_rows_ok d \<longleftrightarrow>
     (\<forall>i r. t_rooms d i = Some r \<longrightarrow> slug_format (r_slug r) \<and> name_length_ok (r_name r) \<and> t_users d (r_created_by r) \<noteq> None)"

definition slugs_unique :: "pgdb \<Rightarrow> bool" where
  "slugs_unique d \<longleftrightarrow>
     (\<forall>i j r q. t_rooms d i = Some r \<longrightarrow> t_rooms d j = Some q \<longrightarrow> r_slug r = r_slug q \<longrightarrow> i = j)"

definition schema_ok :: "(string \<Rightarrow> string option) \<Rightarrow> (string \<Rightarrow> string) \<Rightarrow> pgdb \<Rightarrow> bool" where
  "schema_ok uuid_in ci d \<longleftrightarrow>
     user_rows_ok uuid_in d \<and> emails_unique ci d \<and> creds_owned d \<and> room_rows_ok d \<and> slugs_unique d"

text \<open>What the two listings return: enabled users other than the caller by name, rooms newest first.\<close>

definition contacts_spec ::
    "(string \<Rightarrow> string \<Rightarrow> bool) \<Rightarrow> string \<Rightarrow> int \<Rightarrow> pgdb \<Rightarrow> (string \<times> string) list \<Rightarrow> bool" where
  "contacts_spec text_le i n d xs \<longleftrightarrow> int (length xs) \<le> n \<and> distinct (map fst xs) \<and>
     sorted_wrt text_le (map snd xs) \<and>
     (\<forall>j x. (j, x) \<in> set xs \<longrightarrow> j \<noteq> i \<and> (\<exists>u. t_users d j = Some u \<and> u_disabled_at u = None \<and> u_display_name u = x)) \<and>
     (int (length xs) < n \<longrightarrow> (\<forall>j u. t_users d j = Some u \<and> u_disabled_at u = None \<and> j \<noteq> i \<longrightarrow> j \<in> fst ` set xs))"

definition rooms_spec :: "int \<Rightarrow> pgdb \<Rightarrow> (string \<times> room_row \<times> string) list \<Rightarrow> bool" where
  "rooms_spec n d xs \<longleftrightarrow> int (length xs) \<le> n \<and> distinct (map fst xs) \<and>
     sorted_wrt (\<lambda>(_, r, _) (_, q, _). r_created_at q \<le> r_created_at r) xs \<and>
     (\<forall>j r x. (j, r, x) \<in> set xs \<longrightarrow> t_rooms d j = Some r \<and> (\<exists>u. t_users d (r_created_by r) = Some u \<and> u_display_name u = x)) \<and>
     (int (length xs) < n \<longrightarrow> (\<forall>j r. t_rooms d j = Some r \<and> t_users d (r_created_by r) \<noteq> None \<longrightarrow> j \<in> fst ` set xs))"

subsection \<open>The interface\<close>

locale postgres =
  fixes P :: "'p pg" and tables :: "'p \<Rightarrow> pgdb" and work :: "'p \<Rightarrow> pgdb option"
    and uuid_in :: "string \<Rightarrow> string option" and ci :: "string \<Rightarrow> string" and text_le :: "string \<Rightarrow> string \<Rightarrow> bool"
  assumes uuid_ascii: "uuid_in y = Some i \<Longrightarrow> is_ascii i"
    and begin_ok: "pg_begin P t s = (s', None) \<Longrightarrow> tables s' = tables s \<and> work s' = Some (tables s)"
    and begin_err: "pg_begin P t s = (s', Some x) \<Longrightarrow> tables s' = tables s"
    and rollback_any: "pg_rollback P t s = (s', ro) \<Longrightarrow> tables s' = tables s"
    and commit_ok: "pg_commit P t s = (s', None) \<Longrightarrow> work s = Some d \<Longrightarrow> tables s' = d"
    and commit_err: "pg_commit P t s = (s', Some x) \<Longrightarrow> work s = Some d \<Longrightarrow> tables s' = tables s \<or> tables s' = d"
    and insert_user_ok: "pg_insert_user P email name t s = (s', Inr (i, u)) \<Longrightarrow> work s = Some d \<Longrightarrow>
      tables s' = tables s \<and> work s' = Some (add_user i u d) \<and> t_users d i = None \<and> t_creds d i = None \<and> uuid_in i = Some i \<and>
      u = \<lparr>u_email = email, u_display_name = name, u_email_verified = False, u_disabled_at = None, u_created_at = u_created_at u\<rparr> \<and>
      (\<forall>j v. t_users d j = Some v \<longrightarrow> ci (u_email v) \<noteq> ci email) \<and> email_length_ok email \<and> name_length_ok name"
    and insert_user_err: "pg_insert_user P email name t s = (s', Inl x) \<Longrightarrow> work s = Some d \<Longrightarrow>
      tables s' = tables s \<and> (x = UniqueViolation \<longrightarrow> (\<exists>j v. t_users d j = Some v \<and> ci (u_email v) = ci email))"
    and insert_credential_ok: "pg_insert_credential P y h t s = (s', None) \<Longrightarrow> work s = Some d \<Longrightarrow>
      tables s' = tables s \<and> (\<exists>i. uuid_in y = Some i \<and> work s' = Some (set_cred i h d) \<and> t_users d i \<noteq> None \<and> t_creds d i = None)"
    and insert_credential_err: "pg_insert_credential P y h t s = (s', Some x) \<Longrightarrow> tables s' = tables s"
    and by_email_ok: "pg_select_by_email P email t s = (s', Inr re) \<Longrightarrow> tables s' = tables s \<and>
      (case re of
         None \<Rightarrow> \<forall>i u. t_users (tables s) i = Some u \<longrightarrow> ci (u_email u) \<noteq> ci email
       | Some (i, u, h) \<Rightarrow> t_users (tables s) i = Some u \<and> ci (u_email u) = ci email \<and> h = t_creds (tables s) i)"
    and by_email_err: "pg_select_by_email P email t s = (s', Inl x) \<Longrightarrow> tables s' = tables s"
    and by_id_ok: "pg_select_by_id P y t s = (s', Inr ri) \<Longrightarrow> tables s' = tables s \<and>
      (\<exists>i. uuid_in y = Some i \<and> ri = map_option (\<lambda>u. (i, u)) (t_users (tables s) i))"
    and by_id_err: "pg_select_by_id P y t s = (s', Inl x) \<Longrightarrow> tables s' = tables s"
    and contacts_ok: "pg_select_contacts P y n0 t s = (s', Inr (ks, None)) \<Longrightarrow> tables s' = tables s \<and>
      (\<exists>i. uuid_in y = Some i \<and> contacts_spec text_le i n0 (tables s) ks)"
    and contacts_any: "pg_select_contacts P y n0 t s = (s', rk) \<Longrightarrow> tables s' = tables s"
    and credential_ok: "pg_select_credential P y t s = (s', Inr rc) \<Longrightarrow> tables s' = tables s \<and>
      (\<exists>i. uuid_in y = Some i \<and> rc = t_creds (tables s) i)"
    and credential_err: "pg_select_credential P y t s = (s', Inl x) \<Longrightarrow> tables s' = tables s"
    and update_ok: "pg_update_credential P y h t s = (s', Inr n) \<Longrightarrow>
      (\<exists>i. uuid_in y = Some i \<and>
         (if t_creds (tables s) i = None then n = 0 \<and> tables s' = tables s
          else n = 1 \<and> tables s' = set_cred i h (tables s)))"
    and update_err: "pg_update_credential P y h t s = (s', Inl x) \<Longrightarrow>
      tables s' = tables s \<or> (\<exists>i. uuid_in y = Some i \<and> t_creds (tables s) i \<noteq> None \<and> tables s' = set_cred i h (tables s))"
    and event_ok: "pg_insert_event P e t s = (s', None) \<Longrightarrow> tables s' = add_event e (tables s)"
    and event_err: "pg_insert_event P e t s = (s', Some x) \<Longrightarrow> tables s' = tables s \<or> tables s' = add_event e (tables s)"
    and insert_room_ok: "pg_insert_room P slug name y t s = (s', Inr (i, r)) \<Longrightarrow>
      tables s' = add_room i r (tables s) \<and> t_rooms (tables s) i = None \<and>
      (\<exists>j. uuid_in y = Some j \<and> t_users (tables s) j \<noteq> None \<and>
        r = \<lparr>r_slug = slug, r_name = name, r_created_by = j, r_created_at = r_created_at r\<rparr>) \<and>
      (\<forall>j q. t_rooms (tables s) j = Some q \<longrightarrow> r_slug q \<noteq> slug) \<and> slug_format slug \<and> name_length_ok name"
    and insert_room_err: "pg_insert_room P slug name y t s = (s', Inl x) \<Longrightarrow>
      tables s' = tables s \<or>
      (x = PgError \<and> (\<exists>i j r. tables s' = add_room i r (tables s) \<and> t_rooms (tables s) i = None \<and> uuid_in y = Some j \<and>
         t_users (tables s) j \<noteq> None \<and> r_slug r = slug \<and> r_name r = name \<and> r_created_by r = j \<and>
         (\<forall>j q. t_rooms (tables s) j = Some q \<longrightarrow> r_slug q \<noteq> slug) \<and> slug_format slug \<and> name_length_ok name))"
    and insert_room_unique: "pg_insert_room P slug name y t s = (s', Inl UniqueViolation) \<Longrightarrow>
      tables s' = tables s \<and> (\<exists>j q. t_rooms (tables s) j = Some q \<and> r_slug q = slug)"
    and room_ok: "pg_select_room P slug t s = (s', Inr ro1) \<Longrightarrow> tables s' = tables s \<and>
      (case ro1 of
         None \<Rightarrow> \<forall>i q. t_rooms (tables s) i = Some q \<longrightarrow> r_slug q \<noteq> slug
       | Some (i, q) \<Rightarrow> t_rooms (tables s) i = Some q \<and> r_slug q = slug)"
    and room_err: "pg_select_room P slug t s = (s', Inl x) \<Longrightarrow> tables s' = tables s"
    and delete_ok: "pg_delete_room P slug t s = (s', Inr n) \<Longrightarrow> tables s' = del_room slug (tables s) \<and>
      (n = 0 \<longleftrightarrow> (\<forall>i q. t_rooms (tables s) i = Some q \<longrightarrow> r_slug q \<noteq> slug))"
    and delete_err: "pg_delete_room P slug t s = (s', Inl x) \<Longrightarrow> tables s' = tables s \<or> tables s' = del_room slug (tables s)"
    and rooms_ok: "pg_select_rooms P n0 t s = (s', Inr (xs, None)) \<Longrightarrow> tables s' = tables s \<and> rooms_spec n0 (tables s) xs"
    and rooms_any: "pg_select_rooms P n0 t s = (s', rr) \<Longrightarrow> tables s' = tables s"
begin

lemma by_id_keeps: "pg_select_by_id P y t s = (s', r) \<Longrightarrow> tables s' = tables s"
  by (cases r) (auto dest: by_id_ok by_id_err)

lemma by_email_keeps: "pg_select_by_email P email t s = (s', r) \<Longrightarrow> tables s' = tables s"
  by (cases r) (auto dest: by_email_ok by_email_err)

lemma credential_keeps: "pg_select_credential P y t s = (s', r) \<Longrightarrow> tables s' = tables s"
  by (cases r) (auto dest: credential_ok credential_err)

lemma room_keeps: "pg_select_room P slug t s = (s', r) \<Longrightarrow> tables s' = tables s"
  by (cases r) (auto dest: room_ok room_err)

lemma event_cases: "pg_insert_event P e t s = (s', x) \<Longrightarrow> tables s' = tables s \<or> tables s' = add_event e (tables s)"
  by (cases x) (auto dest: event_ok event_err)

lemma update_cases: "pg_update_credential P y h t s = (s', r) \<Longrightarrow>
    tables s' = tables s \<or> (\<exists>i. uuid_in y = Some i \<and> t_creds (tables s) i \<noteq> None \<and> tables s' = set_cred i h (tables s))"
proof (cases r)
  case (Inr n)
  assume "pg_update_credential P y h t s = (s', r)"
  from update_ok [OF this [unfolded Inr]] show ?thesis by (auto split: if_splits)
qed (auto dest: update_err)

lemma delete_cases: "pg_delete_room P slug t s = (s', r) \<Longrightarrow> tables s' = tables s \<or> tables s' = del_room slug (tables s)"
  by (cases r) (auto dest: delete_ok delete_err)

end

end
