(* ===== verification/Users.thy ===== *)
theory Users
  imports Postgres Sessions
begin

text \<open>
  \<^verbatim>\<open>internal/auth/store.go\<close>: accounts, their password credentials and the audit trail, over the database of
  \<open>Postgres\<close>.  Whether and how an address parses as an IP (\<^verbatim>\<open>net.ParseIP\<close> and its canonical text) is the
  argument \<open>parse_ip\<close>.
\<close>

record User =
  usr_ID :: string
  usr_Email :: string
  usr_DisplayName :: string
  usr_EmailVerified :: bool
  usr_CreatedAt :: gotime
  usr_disabled :: bool

record Contact =
  ct_ID :: string
  ct_DisplayName :: string

record AuthEvent =
  ae_UserID :: string
  ae_Email :: string
  ae_Event :: string
  ae_IP :: string
  ae_UserAgent :: string

datatype db_op = OpBegin | OpInsertUser | OpInsertCredential | OpCommit | OpSelectUser | OpSelectContacts | OpIterateContacts
  | OpSelectCredential | OpUpdateCredential | OpInsertEvent

datatype user_error = ErrUserNotFound | ErrEmailTaken | ErrUserDisabled | ErrNoCredentials | DbFailed db_op

definition scan_user :: "string \<Rightarrow> user_row \<Rightarrow> User" where
  "scan_user i u = \<lparr>usr_ID = i, usr_Email = u_email u, usr_DisplayName = u_display_name u,
     usr_EmailVerified = u_email_verified u, usr_CreatedAt = u_created_at u, usr_disabled = (u_disabled_at u \<noteq> None)\<rparr>"

text \<open>The statements between \<^verbatim>\<open>Begin\<close> and the deferred \<^verbatim>\<open>Rollback\<close>.\<close>

definition create_tx :: "'p pg \<Rightarrow> string \<Rightarrow> string \<Rightarrow> string \<Rightarrow> gotime \<Rightarrow> 'p \<Rightarrow> 'p \<times> (user_error + User)" where
  "create_tx P email displayName passwordHash t s =
     (case pg_insert_user P email displayName t s of
        (s1, Inl UniqueViolation) \<Rightarrow> (s1, Inl ErrEmailTaken)
      | (s1, Inl PgError) \<Rightarrow> (s1, Inl (DbFailed OpInsertUser))
      | (s1, Inr (i, u)) \<Rightarrow>
          (case pg_insert_credential P i passwordHash t s1 of
             (s2, Some _) \<Rightarrow> (s2, Inl (DbFailed OpInsertCredential))
           | (s2, None) \<Rightarrow>
               (case pg_commit P t s2 of
                  (s3, Some _) \<Rightarrow> (s3, Inl (DbFailed OpCommit))
                | (s3, None) \<Rightarrow> (s3, Inr ((scan_user i u)\<lparr>usr_disabled := False\<rparr>)))))"

definition UserStore_Create ::
    "'p pg \<Rightarrow> string \<Rightarrow> string \<Rightarrow> string \<Rightarrow> gotime \<Rightarrow> 'p \<Rightarrow> 'p \<times> (user_error + User)" where
  "UserStore_Create P email displayName passwordHash t s =
     (case pg_begin P t s of
        (s1, Some _) \<Rightarrow> (s1, Inl (DbFailed OpBegin))
      | (s1, None) \<Rightarrow>
          (case create_tx P email displayName passwordHash t s1 of
             (s2, r) \<Rightarrow> (fst (pg_rollback P t s2), r)))"

definition ByEmailWithCredential ::
    "'p pg \<Rightarrow> string \<Rightarrow> gotime \<Rightarrow> 'p \<Rightarrow> 'p \<times> (user_error + (User \<times> string))" where
  "ByEmailWithCredential P email t s =
     (case pg_select_by_email P email t s of
        (s', Inl _) \<Rightarrow> (s', Inl (DbFailed OpSelectUser))
      | (s', Inr None) \<Rightarrow> (s', Inl ErrUserNotFound)
      | (s', Inr (Some (i, u, None))) \<Rightarrow> (s', Inl ErrNoCredentials)
      | (s', Inr (Some (i, u, Some hash))) \<Rightarrow> (s', Inr (scan_user i u, hash)))"

definition ByID :: "'p pg \<Rightarrow> string \<Rightarrow> gotime \<Rightarrow> 'p \<Rightarrow> 'p \<times> (user_error + User)" where
  "ByID P i t s =
     (case pg_select_by_id P i t s of
        (s', Inl _) \<Rightarrow> (s', Inl (DbFailed OpSelectUser))
      | (s', Inr None) \<Rightarrow> (s', Inl ErrUserNotFound)
      | (s', Inr (Some (j, u))) \<Rightarrow>
          (let usr = scan_user j u in (s', if usr_disabled usr then Inl ErrUserDisabled else Inr usr)))"

fun scan_contacts :: "(string \<times> string) list \<Rightarrow> Contact list" where
  "scan_contacts [] = []"
| "scan_contacts ((i, n) # rows) = \<lparr>ct_ID = i, ct_DisplayName = n\<rparr> # scan_contacts rows"

definition Contacts :: "'p pg \<Rightarrow> string \<Rightarrow> int \<Rightarrow> gotime \<Rightarrow> 'p \<Rightarrow> 'p \<times> (user_error + Contact list)" where
  "Contacts P exceptUserID n t s =
     (case pg_select_contacts P exceptUserID n t s of
        (s', Inl _) \<Rightarrow> (s', Inl (DbFailed OpSelectContacts))
      | (s', Inr (rows, Some _)) \<Rightarrow> (s', Inl (DbFailed OpIterateContacts))
      | (s', Inr (rows, None)) \<Rightarrow> (s', Inr (scan_contacts rows)))"

definition CredentialByUserID :: "'p pg \<Rightarrow> string \<Rightarrow> gotime \<Rightarrow> 'p \<Rightarrow> 'p \<times> (user_error + string)" where
  "CredentialByUserID P userID t s =
     (case pg_select_credential P userID t s of
        (s', Inl _) \<Rightarrow> (s', Inl (DbFailed OpSelectCredential))
      | (s', Inr None) \<Rightarrow> (s', Inl ErrNoCredentials)
      | (s', Inr (Some hash)) \<Rightarrow> (s', Inr hash))"

definition UpdatePassword :: "'p pg \<Rightarrow> string \<Rightarrow> string \<Rightarrow> gotime \<Rightarrow> 'p \<Rightarrow> 'p \<times> user_error option" where
  "UpdatePassword P userID passwordHash t s =
     (case pg_update_credential P userID passwordHash t s of
        (s', Inl _) \<Rightarrow> (s', Some (DbFailed OpUpdateCredential))
      | (s', Inr n) \<Rightarrow> (s', if n = 0 then Some ErrNoCredentials else None))"

definition event_row_of :: "(string \<Rightarrow> string option) \<Rightarrow> AuthEvent \<Rightarrow> event_row" where
  "event_row_of parse_ip e =
     \<lparr>e_user_id = (if ae_UserID e \<noteq> [] then Some (ae_UserID e) else None),
      e_email = (if ae_Email e \<noteq> [] then Some (ae_Email e) else None),
      e_event = ae_Event e, e_ip = parse_ip (ae_IP e), e_user_agent = Sessions.truncate (ae_UserAgent e) 512\<rparr>"

definition RecordEvent :: "'p pg \<Rightarrow> (string \<Rightarrow> string option) \<Rightarrow> AuthEvent \<Rightarrow> gotime \<Rightarrow> 'p \<Rightarrow> 'p \<times> user_error option" where
  "RecordEvent P parse_ip e t s =
     (case pg_insert_event P (event_row_of parse_ip e) t s of
        (s', Some _) \<Rightarrow> (s', Some (DbFailed OpInsertEvent))
      | (s', None) \<Rightarrow> (s', None))"

definition NormalizeEmail :: "(string \<Rightarrow> string) \<Rightarrow> string \<Rightarrow> string" where
  "NormalizeEmail ut email = to_lower ut (trim_space email)"

subsection \<open>What each operation does to the tables\<close>

text \<open>An account: the user row together with its credential.\<close>

definition accounts :: "pgdb \<Rightarrow> (string \<times> user_row \<times> string) set" where
  "accounts d = {(i, u, h). t_users d i = Some u \<and> t_creds d i = Some h}"

definition whole :: "pgdb \<Rightarrow> bool" where
  "whole d \<longleftrightarrow> (\<forall>i. t_users d i \<noteq> None \<longrightarrow> t_creds d i \<noteq> None)"

definition new_account :: "(string \<Rightarrow> string option) \<Rightarrow> (string \<Rightarrow> string) \<Rightarrow> string \<Rightarrow> string \<Rightarrow> string \<Rightarrow> string \<Rightarrow> user_row \<Rightarrow> pgdb \<Rightarrow> bool" where
  "new_account uuid_in ci email name h i u d \<longleftrightarrow> t_users d i = None \<and> t_creds d i = None \<and> uuid_in i = Some i \<and>
     u_email u = email \<and> u_display_name u = name \<and> u_disabled_at u = None \<and> \<not> u_email_verified u \<and>
     (\<forall>j v. t_users d j = Some v \<longrightarrow> ci (u_email v) \<noteq> ci email) \<and> email_length_ok email \<and> name_length_ok name"

lemma accounts_new:
  "t_users d i = None \<Longrightarrow> accounts (set_cred i h (add_user i u d)) = insert (i, u, h) (accounts d)"
  by (auto simp: accounts_def pgdb_ops split: if_splits)

context postgres
begin

lemma create_spec:
  assumes "UserStore_Create P email name h t s = (s', r)"
  obtains (unchanged) x where "r = Inl x" "tables s' = tables s"
      "x = ErrEmailTaken \<Longrightarrow> \<exists>j v. t_users (tables s) j = Some v \<and> ci (u_email v) = ci email"
  | (created) i u where "new_account uuid_in ci email name h i u (tables s)" "tables s' = set_cred i h (add_user i u (tables s))"
      "r = Inr (scan_user i u) \<or> r = Inl (DbFailed OpCommit)"
proof -
  note keeps = rollback_any [OF prod.collapse [symmetric]]
  consider x where "pg_begin P t s = (s', Some x)" "r = Inl (DbFailed OpBegin)"
    | s1 s2 where "pg_begin P t s = (s1, None)" "create_tx P email name h t s1 = (s2, r)" "s' = fst (pg_rollback P t s2)"
    using assms by (auto simp: UserStore_Create_def split: prod.splits option.splits)
  then show ?thesis
  proof cases
    case 1
    with begin_err [OF 1(1)] unchanged show ?thesis by simp
  next
    case (2 s1 s2)
    note b = begin_ok [OF 2(1)]
    have s': "tables s' = tables s2" using keeps 2(3) by simp
    obtain s3 q where q: "pg_insert_user P email name t s1 = (s3, q)" by fastforce
    show ?thesis
    proof (cases q)
      case (Inl x)
      then have x: "tables s3 = tables s1 \<and> (x = UniqueViolation \<longrightarrow> (\<exists>j v. t_users (tables s) j = Some v \<and> ci (u_email v) = ci email))"
        using insert_user_err [OF q [unfolded Inl]] b by auto
      have "s2 = s3 \<and> (x = UniqueViolation \<and> r = Inl ErrEmailTaken \<or> r = Inl (DbFailed OpInsertUser))"
        using 2(2) q Inl by (cases x) (auto simp: create_tx_def)
      with x s' b unchanged show ?thesis by auto
    next
      case (Inr iu)
      obtain i u where iu: "q = Inr (i, u)" using Inr by (cases iu) auto
      note iok = insert_user_ok [OF q [unfolded iu], of "tables s"]
      obtain s4 c where c: "pg_insert_credential P i h t s3 = (s4, c)" by fastforce
      show ?thesis
      proof (cases c)
        case (Some x)
        then have "tables s' = tables s" "r = Inl (DbFailed OpInsertCredential)"
          using insert_credential_err [OF c [unfolded Some]] iok b 2(2) q iu c s' by (simp_all add: create_tx_def)
        then show ?thesis using unchanged by blast
      next
        case None
        have w: "tables s4 = tables s \<and> work s4 = Some (set_cred i h (add_user i u (tables s)))"
          using insert_credential_ok [OF c [unfolded None], of "add_user i u (tables s)"] iok b by auto
        obtain s5 k where k: "pg_commit P t s4 = (s5, k)" by fastforce
        have na: "new_account uuid_in ci email name h i u (tables s)"
          using iok b by (auto simp: new_account_def) (metis user_row.select_convs)+
        have dis: "(scan_user i u)\<lparr>usr_disabled := False\<rparr> = scan_user i u"
          using na by (simp add: scan_user_def new_account_def)
        have r: "s2 = s5 \<and> r = (case k of None \<Rightarrow> Inr (scan_user i u) | Some _ \<Rightarrow> Inl (DbFailed OpCommit))"
          using 2(2) q iu c None k dis by (auto simp: create_tx_def split: option.splits)
        show ?thesis
        proof (cases k)
          case None
          then show ?thesis using commit_ok [OF k [unfolded None]] w r s' na created by auto
        next
          case (Some x)
          then show ?thesis using commit_err [OF k [unfolded Some]] w r s' na created unchanged by auto
        qed
      qed
    qed
  qed
qed

lemma ByEmail_spec:
  assumes "ByEmailWithCredential P email t s = (s', r)"
  shows "tables s' = tables s"
    and "r = Inl ErrUserNotFound \<Longrightarrow> t_users (tables s) i = Some u \<Longrightarrow> ci (u_email u) \<noteq> ci email"
    and "r = Inr (usr, h) \<Longrightarrow> \<exists>i u. (i, u, h) \<in> accounts (tables s) \<and> usr = scan_user i u \<and> ci (u_email u) = ci email"
    and "r = Inl ErrNoCredentials \<Longrightarrow> \<exists>i u. t_users (tables s) i = Some u \<and> t_creds (tables s) i = None"
proof -
  obtain q where q: "pg_select_by_email P email t s = (s', q)"
    using assms by (auto simp: ByEmailWithCredential_def split: prod.splits sum.splits option.splits)
  note keep = by_email_keeps [OF q]
  have res: "case q of Inl _ \<Rightarrow> r = Inl (DbFailed OpSelectUser) | Inr None \<Rightarrow> r = Inl ErrUserNotFound
      | Inr (Some (i, u, None)) \<Rightarrow> r = Inl ErrNoCredentials | Inr (Some (i, u, Some h)) \<Rightarrow> r = Inr (scan_user i u, h)"
    using assms q by (auto simp: ByEmailWithCredential_def split: sum.splits option.splits)
  show "tables s' = tables s" by (rule keep)
  show "r = Inl ErrUserNotFound \<Longrightarrow> t_users (tables s) i = Some u \<Longrightarrow> ci (u_email u) \<noteq> ci email"
    using res q by (auto split: sum.splits option.splits dest!: by_email_ok)
  show "r = Inr (usr, h) \<Longrightarrow> \<exists>i u. (i, u, h) \<in> accounts (tables s) \<and> usr = scan_user i u \<and> ci (u_email u) = ci email"
  proof -
    assume "r = Inr (usr, h)"
    then obtain i u where iu: "q = Inr (Some (i, u, Some h))" "usr = scan_user i u"
      using res by (auto split: sum.splits option.splits)
    from by_email_ok [OF q [unfolded iu(1)]] have "(i, u, h) \<in> accounts (tables s) \<and> ci (u_email u) = ci email"
      by (simp add: accounts_def)
    with iu(2) show ?thesis by blast
  qed
  show "r = Inl ErrNoCredentials \<Longrightarrow> \<exists>i u. t_users (tables s) i = Some u \<and> t_creds (tables s) i = None"
  proof -
    assume "r = Inl ErrNoCredentials"
    then obtain i u where iu: "q = Inr (Some (i, u, None))" using res by (auto split: sum.splits option.splits)
    from by_email_ok [OF q [unfolded iu(1)]] show ?thesis by auto
  qed
qed

lemma ByID_spec:
  assumes "ByID P y t s = (s', r)"
  shows "tables s' = tables s"
    and "r = Inr usr \<Longrightarrow> \<exists>i u. uuid_in y = Some i \<and> t_users (tables s) i = Some u \<and> u_disabled_at u = None \<and> usr = scan_user i u"
    and "uuid_in y = Some i \<Longrightarrow> t_users (tables s) i = Some u \<Longrightarrow>
      r = Inl (DbFailed OpSelectUser) \<or> r = (if u_disabled_at u = None then Inr (scan_user i u) else Inl ErrUserDisabled)"
    and "uuid_in y = Some i \<Longrightarrow> t_users (tables s) i = None \<Longrightarrow> r = Inl (DbFailed OpSelectUser) \<or> r = Inl ErrUserNotFound"
proof -
  obtain q where q: "pg_select_by_id P y t s = (s', q)"
    using assms by (auto simp: ByID_def Let_def split: prod.splits sum.splits option.splits)
  show "tables s' = tables s" using by_id_keeps [OF q] .
  have dis: "usr_disabled (scan_user i u) \<longleftrightarrow> u_disabled_at u \<noteq> None" for i u by (simp add: scan_user_def)
  have res: "(\<exists>x. q = Inl x) \<and> r = Inl (DbFailed OpSelectUser) \<or>
      (\<exists>i. uuid_in y = Some i \<and> (case t_users (tables s) i of
        None \<Rightarrow> r = Inl ErrUserNotFound
      | Some u \<Rightarrow> r = (if u_disabled_at u = None then Inr (scan_user i u) else Inl ErrUserDisabled)))"
  proof (cases q)
    case (Inl x)
    then show ?thesis using assms q by (simp add: ByID_def)
  next
    case (Inr ri)
    from by_id_ok [OF q [unfolded Inr]] obtain i where i: "uuid_in y = Some i" "ri = map_option (\<lambda>u. (i, u)) (t_users (tables s) i)"
      by blast
    then show ?thesis
      using assms q Inr by (cases "t_users (tables s) i") (auto simp: ByID_def Let_def dis)
  qed
  show "r = Inr usr \<Longrightarrow> \<exists>i u. uuid_in y = Some i \<and> t_users (tables s) i = Some u \<and> u_disabled_at u = None \<and> usr = scan_user i u"
    using res by (auto split: option.splits if_splits)
  show "uuid_in y = Some i \<Longrightarrow> t_users (tables s) i = Some u \<Longrightarrow>
      r = Inl (DbFailed OpSelectUser) \<or> r = (if u_disabled_at u = None then Inr (scan_user i u) else Inl ErrUserDisabled)"
    using res by auto
  show "uuid_in y = Some i \<Longrightarrow> t_users (tables s) i = None \<Longrightarrow> r = Inl (DbFailed OpSelectUser) \<or> r = Inl ErrUserNotFound"
    using res by auto
qed

lemma Credential_spec:
  "CredentialByUserID P y t s = (s', r) \<Longrightarrow> tables s' = tables s \<and>
     (\<forall>h. r = Inr h \<longrightarrow> (\<exists>i. uuid_in y = Some i \<and> t_creds (tables s) i = Some h))"
  by (auto simp: CredentialByUserID_def dest: credential_ok credential_err split: prod.splits sum.splits option.splits)

lemma Update_spec:
  assumes "UpdatePassword P y h t s = (s', r)"
  shows "tables s' = tables s \<or> (\<exists>i. uuid_in y = Some i \<and> t_creds (tables s) i \<noteq> None \<and> tables s' = set_cred i h (tables s))"
    and "r = None \<Longrightarrow> \<exists>i. uuid_in y = Some i \<and> t_creds (tables s) i \<noteq> None \<and> tables s' = set_cred i h (tables s)"
proof -
  obtain q where q: "pg_update_credential P y h t s = (s', q)"
    using assms by (auto simp: UpdatePassword_def split: prod.splits sum.splits)
  show "tables s' = tables s \<or> (\<exists>i. uuid_in y = Some i \<and> t_creds (tables s) i \<noteq> None \<and> tables s' = set_cred i h (tables s))"
    using update_cases [OF q] .
  assume "r = None"
  then obtain n where "q = Inr n" "n \<noteq> 0" using assms q by (auto simp: UpdatePassword_def split: sum.splits if_splits)
  then show "\<exists>i. uuid_in y = Some i \<and> t_creds (tables s) i \<noteq> None \<and> tables s' = set_cred i h (tables s)"
    using update_ok [of y h t s s' n] q by (auto split: if_splits)
qed

lemma Record_spec:
  "RecordEvent P parse_ip e t s = (s', r) \<Longrightarrow> tables s' = tables s \<or> tables s' = add_event (event_row_of parse_ip e) (tables s)"
  by (auto simp: RecordEvent_def dest: event_cases split: prod.splits option.splits)

lemma Contacts_keeps: "Contacts P y n t s = (s', r) \<Longrightarrow> tables s' = tables s"
  by (auto simp: Contacts_def dest: contacts_any split: prod.splits sum.splits option.splits)

end

end
