(* ===== verification/AuthService.thy ===== *)
theory AuthService
  imports Users RateLimiter Password
begin

text \<open>
  \<^verbatim>\<open>internal/auth/service.go\<close>: registration, login, logout and password change over the two servers.  The
  state is a \<open>world\<close>: the key-value server and the database.  A \<open>service\<close> holds the stores of the Go struct
  and the library functions that stay abstract: the key derivation, Unicode lower-casing, \<^verbatim>\<open>net.ParseIP\<close> and
  \<^verbatim>\<open>mail.ParseAddress\<close> (name and address).  What a request brings with it besides its input, the time, random
  bytes and whether a hashing slot was obtained, is its \<open>req_env\<close>.  A panic of the key derivation is the error
  \<open>PanicFault\<close>: the handler's caller recovers from it.
\<close>

record ('s, 'p) world =
  w_redis :: 's
  w_pg :: 'p

record ('s, 'p) service =
  sv_users :: "'p pg"
  sv_sessions :: "'s SessionStore"
  sv_limiter :: "'s redis"
  sv_argon2 :: argon2_fn
  sv_lower :: "string \<Rightarrow> string"
  sv_parse_ip :: "string \<Rightarrow> string option"
  sv_parse_addr :: "string \<Rightarrow> (string \<times> string) option"

record req_env =
  en_now :: gotime
  en_salt :: "string option"
  en_token :: "string option"
  en_slot :: bool
  en_rehash_slot :: bool

record Credentials =
  cr_Email :: string
  cr_Password :: string
  cr_DisplayName :: string
  cr_IP :: string
  cr_UserAgent :: string

datatype auth_error = ErrInvalidCredentials | ErrInvalidEmail | ErrInvalidDisplayName | RateLimitError duration
  | LimiterUnavailable rl_error | UserFault user_error | PasswordFault pw_error | SessionFault sess_error | PanicFault

definition on_pg :: "('p \<Rightarrow> 'p \<times> 'a) \<Rightarrow> ('s, 'p, 'm) world_scheme \<Rightarrow> ('s, 'p, 'm) world_scheme \<times> 'a" where
  "on_pg f w = (case f (w_pg w) of (p, a) \<Rightarrow> (w\<lparr>w_pg := p\<rparr>, a))"

definition on_redis :: "('s \<Rightarrow> 's \<times> 'a) \<Rightarrow> ('s, 'p, 'm) world_scheme \<Rightarrow> ('s, 'p, 'm) world_scheme \<times> 'a" where
  "on_redis f w = (case f (w_redis w) of (s, a) \<Rightarrow> (w\<lparr>w_redis := s\<rparr>, a))"

subsection \<open>Helpers\<close>

definition check :: "('s, 'p) service \<Rightarrow> string \<Rightarrow> Limit \<Rightarrow> gotime \<Rightarrow> ('s, 'p, 'm) world_scheme \<Rightarrow> ('s, 'p, 'm) world_scheme \<times> auth_error option" where
  "check svc key limit now w =
     (case on_redis (Allow (sv_limiter svc) key limit now) w of
        (w', allowed, retryAfter, Some x) \<Rightarrow> (w', Some (LimiterUnavailable x))
      | (w', allowed, retryAfter, None) \<Rightarrow> (w', if \<not> allowed then Some (RateLimitError retryAfter) else None))"

definition record_event :: "('s, 'p) service \<Rightarrow> AuthEvent \<Rightarrow> gotime \<Rightarrow> ('s, 'p, 'm) world_scheme \<Rightarrow> ('s, 'p, 'm) world_scheme" where
  "record_event svc e now w = fst (on_pg (RecordEvent (sv_users svc) (sv_parse_ip svc) e now) w)"

definition count_char :: "char \<Rightarrow> string \<Rightarrow> nat" where
  "count_char c s = length (filter (\<lambda>x. x = c) s)"

definition validateEmail :: "('s, 'p) service \<Rightarrow> string \<Rightarrow> string option" where
  "validateEmail svc raw =
     (let email = NormalizeEmail (sv_lower svc) raw
      in if length email < 3 \<or> length email > 254 then None
         else case sv_parse_addr svc email of
           None \<Rightarrow> None
         | Some (name, addr) \<Rightarrow>
             if addr \<noteq> email \<or> name \<noteq> [] then None
             else if count_char (CHR ''@'') email \<noteq> 1 then None
             else (case cut (CHR ''@'') email of
                     (local, domain, _) \<Rightarrow>
                       if local = [] \<or> domain = [] \<or> CHR ''.'' \<notin> set domain \<or> last domain = CHR ''.'' then None
                       else Some email))"

definition login_event :: "string \<Rightarrow> string \<Rightarrow> string \<Rightarrow> Credentials \<Rightarrow> AuthEvent" where
  "login_event userID email event c =
     \<lparr>ae_UserID = userID, ae_Email = email, ae_Event = event, ae_IP = cr_IP c, ae_UserAgent = cr_UserAgent c\<rparr>"

definition pw_fault :: "pw_error \<Rightarrow> auth_error" where
  "pw_fault x = (if x = Argon2Panic then PanicFault else PasswordFault x)"

subsection \<open>Register\<close>

type_synonym login_result = "auth_error + (User \<times> string \<times> Session)"

definition display_name_of :: "string \<Rightarrow> string \<Rightarrow> string" where
  "display_name_of raw email = (let d = trim_space raw in if d = [] then fst (cut (CHR ''@'') email) else d)"

definition create_session ::
    "('s, 'p) service \<Rightarrow> req_env \<Rightarrow> User \<Rightarrow> Credentials \<Rightarrow> ('s, 'p, 'm) world_scheme \<Rightarrow> ('s, 'p, 'm) world_scheme \<times> (sess_error + (string \<times> Session))" where
  "create_session svc env user c w =
     on_redis (Create (sv_sessions svc) (en_token env) (usr_ID user) (cr_IP c) (cr_UserAgent c) (en_now env)) w"

definition Register :: "('s, 'p) service \<Rightarrow> req_env \<Rightarrow> Credentials \<Rightarrow> ('s, 'p, 'm) world_scheme \<Rightarrow> ('s, 'p, 'm) world_scheme \<times> login_result" where
  "Register svc env c w =
     (case check svc (''register:ip:'' @ cr_IP c) RegisterPerIP (en_now env) w of
        (w1, Some e) \<Rightarrow> (w1, Inl e)
      | (w1, None) \<Rightarrow>
          (case validateEmail svc (cr_Email c) of
             None \<Rightarrow> (w1, Inl ErrInvalidEmail)
           | Some email \<Rightarrow>
               (let displayName = display_name_of (cr_DisplayName c) email
                in if rune_count displayName < 1 \<or> rune_count displayName > 100 then (w1, Inl ErrInvalidDisplayName)
                   else case ValidatePassword (sv_lower svc) (cr_Password c) of
                     Some x \<Rightarrow> (w1, Inl (PasswordFault x))
                   | None \<Rightarrow>
                       (case HashPassword (sv_argon2 svc) (en_salt env) (en_slot env) (cr_Password c) of
                          Inl x \<Rightarrow> (w1, Inl (pw_fault x))
                        | Inr hash \<Rightarrow>
                            (case on_pg (UserStore_Create (sv_users svc) email displayName hash (en_now env)) w1 of
                               (w2, Inl x) \<Rightarrow> (w2, Inl (UserFault x))
                             | (w2, Inr user) \<Rightarrow>
                                 (let w3 = record_event svc (login_event (usr_ID user) email ''register'' c) (en_now env) w2
                                  in case create_session svc env user c w3 of
                                       (w4, Inl x) \<Rightarrow> (w4, Inl (SessionFault x))
                                     | (w4, Inr (token, sess)) \<Rightarrow> (w4, Inr (user, token, sess))))))))"

subsection \<open>Login\<close>

text \<open>A failed login: spend the time of a verification, write the audit row, answer with the one error.\<close>

definition refuse_login ::
    "('s, 'p) service \<Rightarrow> req_env \<Rightarrow> Credentials \<Rightarrow> string \<Rightarrow> string \<Rightarrow> string \<Rightarrow> ('s, 'p, 'm) world_scheme \<Rightarrow> ('s, 'p, 'm) world_scheme \<times> login_result" where
  "refuse_login svc env c userID email event w =
     (if DummyVerify (sv_argon2 svc) (en_slot env) (cr_Password c) = Inl Argon2Panic then (w, Inl PanicFault)
      else (record_event svc (login_event userID email event c) (en_now env) w, Inl ErrInvalidCredentials))"

text \<open>Upgrading a hash made under old parameters; failures are logged only.\<close>

definition upgrade_hash ::
    "('s, 'p) service \<Rightarrow> req_env \<Rightarrow> User \<Rightarrow> string \<Rightarrow> ('s, 'p, 'm) world_scheme \<Rightarrow> ('s, 'p, 'm) world_scheme \<times> bool" where
  "upgrade_hash svc env user password w =
     (case HashPassword (sv_argon2 svc) (en_salt env) (en_rehash_slot env) password of
        Inl x \<Rightarrow> (w, x = Argon2Panic)
      | Inr upgraded \<Rightarrow> (fst (on_pg (UpdatePassword (sv_users svc) (usr_ID user) upgraded (en_now env)) w), False))"

definition finish_login ::
    "('s, 'p) service \<Rightarrow> req_env \<Rightarrow> Credentials \<Rightarrow> string \<Rightarrow> User \<Rightarrow> ('s, 'p, 'm) world_scheme \<Rightarrow> ('s, 'p, 'm) world_scheme \<times> login_result" where
  "finish_login svc env c email user w =
     (let w1 = fst (on_redis (Reset (sv_limiter svc) (''login:account:'' @ email) (en_now env)) w)
      in case create_session svc env user c w1 of
           (w2, Inl x) \<Rightarrow> (w2, Inl (SessionFault x))
         | (w2, Inr (token, sess)) \<Rightarrow>
             (record_event svc (login_event (usr_ID user) email ''login'' c) (en_now env) w2, Inr (user, token, sess)))"

definition verify_login ::
    "('s, 'p) service \<Rightarrow> req_env \<Rightarrow> Credentials \<Rightarrow> string \<Rightarrow> User \<Rightarrow> string \<Rightarrow> ('s, 'p, 'm) world_scheme \<Rightarrow> ('s, 'p, 'm) world_scheme \<times> login_result" where
  "verify_login svc env c email user hash w =
     (case VerifyPassword (sv_argon2 svc) (en_slot env) hash (cr_Password c) of
        Inl x \<Rightarrow> (w, Inl (if x = Argon2Panic then PanicFault else ErrInvalidCredentials))
      | Inr (False, _) \<Rightarrow>
          (record_event svc (login_event (usr_ID user) email ''login_failed_bad_password'' c) (en_now env) w, Inl ErrInvalidCredentials)
      | Inr (True, needsRehash) \<Rightarrow>
          (case (if needsRehash then upgrade_hash svc env user (cr_Password c) w else (w, False)) of
             (w1, panics) \<Rightarrow> if panics then (w1, Inl PanicFault) else finish_login svc env c email user w1))"

definition Login :: "('s, 'p) service \<Rightarrow> req_env \<Rightarrow> Credentials \<Rightarrow> ('s, 'p, 'm) world_scheme \<Rightarrow> ('s, 'p, 'm) world_scheme \<times> login_result" where
  "Login svc env c w =
     (let email = NormalizeEmail (sv_lower svc) (cr_Email c); now = en_now env
      in case check svc (''login:ip:'' @ cr_IP c) LoginPerIP now w of
           (w1, Some e) \<Rightarrow> (w1, Inl e)
         | (w1, None) \<Rightarrow>
             (case check svc (''login:account:'' @ email) LoginPerAccount now w1 of
                (w2, Some e) \<Rightarrow> (record_event svc (login_event [] email ''login_rate_limited'' c) now w2, Inl e)
              | (w2, None) \<Rightarrow>
                  (case on_pg (ByEmailWithCredential (sv_users svc) email now) w2 of
                     (w3, Inl x) \<Rightarrow>
                       if x = ErrUserNotFound \<or> x = ErrNoCredentials
                       then refuse_login svc env c [] email ''login_failed_unknown_user'' w3
                       else (w3, Inl (UserFault x))
                   | (w3, Inr (user, hash)) \<Rightarrow>
                       if usr_disabled user then refuse_login svc env c (usr_ID user) email ''login_failed_disabled'' w3
                       else verify_login svc env c email user hash w3)))"

subsection \<open>Logout and password change\<close>

definition Logout :: "('s, 'p) service \<Rightarrow> string \<Rightarrow> AuthEvent \<Rightarrow> gotime \<Rightarrow> ('s, 'p, 'm) world_scheme \<Rightarrow> ('s, 'p, 'm) world_scheme \<times> auth_error option" where
  "Logout svc token e now w =
     (case on_redis (Revoke (sv_sessions svc) token now) w of
        (w1, Some x) \<Rightarrow> (w1, Some (SessionFault x))
      | (w1, None) \<Rightarrow> (record_event svc (e\<lparr>ae_Event := ''logout''\<rparr>) now w1, None))"

definition LogoutAll :: "('s, 'p) service \<Rightarrow> string \<Rightarrow> AuthEvent \<Rightarrow> gotime \<Rightarrow> ('s, 'p, 'm) world_scheme \<Rightarrow> ('s, 'p, 'm) world_scheme \<times> (auth_error + nat)" where
  "LogoutAll svc userID e now w =
     (case on_redis (RevokeAllForUser (sv_sessions svc) userID [] now) w of
        (w1, Inl x) \<Rightarrow> (w1, Inl (SessionFault x))
      | (w1, Inr n) \<Rightarrow> (record_event svc (e\<lparr>ae_Event := ''logout_all''\<rparr>) now w1, Inr n))"

text \<open>From the validated new password on.\<close>

definition replace_password ::
    "('s, 'p) service \<Rightarrow> req_env \<Rightarrow> string \<Rightarrow> string \<Rightarrow> string \<Rightarrow> AuthEvent \<Rightarrow> ('s, 'p, 'm) world_scheme \<Rightarrow> ('s, 'p, 'm) world_scheme \<times> auth_error option" where
  "replace_password svc env userID next keepToken e w =
     (case HashPassword (sv_argon2 svc) (en_salt env) (en_rehash_slot env) next of
        Inl x \<Rightarrow> (w, Some (pw_fault x))
      | Inr updated \<Rightarrow>
          (case on_pg (UpdatePassword (sv_users svc) userID updated (en_now env)) w of
             (w1, Some x) \<Rightarrow> (w1, Some (UserFault x))
           | (w1, None) \<Rightarrow>
               (case on_redis (RevokeAllForUser (sv_sessions svc) userID keepToken (en_now env)) w1 of
                  (w2, Inl x) \<Rightarrow> (w2, Some (SessionFault x))
                | (w2, Inr _) \<Rightarrow> (record_event svc (e\<lparr>ae_Event := ''password_changed''\<rparr>) (en_now env) w2, None))))"

definition ChangePassword ::
    "('s, 'p) service \<Rightarrow> req_env \<Rightarrow> string \<Rightarrow> string \<Rightarrow> string \<Rightarrow> string \<Rightarrow> AuthEvent \<Rightarrow> ('s, 'p, 'm) world_scheme \<Rightarrow> ('s, 'p, 'm) world_scheme \<times> auth_error option" where
  "ChangePassword svc env userID current next keepToken e w =
     (case check svc (''password:ip:'' @ ae_IP e) PasswordChangeIP (en_now env) w of
        (w1, Some x) \<Rightarrow> (w1, Some x)
      | (w1, None) \<Rightarrow>
          (case on_pg (CredentialByUserID (sv_users svc) userID (en_now env)) w1 of
             (w2, Inl x) \<Rightarrow> (w2, Some (UserFault x))
           | (w2, Inr hash) \<Rightarrow>
               (let v = VerifyPassword (sv_argon2 svc) (en_slot env) hash current
                in if v = Inl Argon2Panic then (w2, Some PanicFault)
                   else if \<not> (case v of Inr (match, _) \<Rightarrow> match | Inl _ \<Rightarrow> False)
                   then (record_event svc (e\<lparr>ae_Event := ''password_change_failed''\<rparr>) (en_now env) w2, Some ErrInvalidCredentials)
                   else case ValidatePassword (sv_lower svc) next of
                     Some x \<Rightarrow> (w2, Some (PasswordFault x))
                   | None \<Rightarrow> replace_password svc env userID next keepToken e w2)))"

end
