(* ===== verification/Httpx.thy ===== *)
theory Httpx
  imports Encoding
begin

text \<open>
  \<^verbatim>\<open>internal/httpx\<close>: requests and responses as the handlers see them, the origin policy and the CSRF guard
  (\<^verbatim>\<open>origin.go\<close>), the response helpers, body decoding and the client address (\<^verbatim>\<open>respond.go\<close>).  A request is
  what \<^verbatim>\<open>net/http\<close> has parsed.  A response writer is a state: headers set so far, and the status line with
  the headers it was sent with, which is fixed by the first write.  URL parsing is the argument
  \<open>url_parse\<close> (scheme and host), JSON decoding the argument \<open>dec\<close>, case folding beyond ASCII the
  argument \<open>uf\<close>.
\<close>

subsection \<open>Requests and responses\<close>

text \<open>\<open>rq_header\<close> is \<^verbatim>\<open>Header.Get\<close> and \<open>rq_query\<close> is \<^verbatim>\<open>URL.Query().Get\<close>: the first value, empty when there is
  none; \<open>rq_slug\<close> is \<^verbatim>\<open>PathValue("slug")\<close>.\<close>

record http_request =
  rq_method :: string
  rq_path :: string
  rq_host :: string
  rq_remote :: string
  rq_header :: "string \<Rightarrow> string"
  rq_query :: "string \<Rightarrow> string"
  rq_cookies :: "(string \<times> string) list"
  rq_slug :: string
  rq_contentLength :: int
  rq_body :: string

datatype json_value =
    JStr string
  | JInt int
  | JBool bool
  | JTime gotime
  | JArr "json_value list"
  | JObj "(string \<times> json_value) list"

datatype body = JsonBody json_value | TextBody string

record cookie =
  ck_name :: string
  ck_value :: string
  ck_domain :: string
  ck_expires :: gotime
  ck_maxAge :: int
  ck_httpOnly :: bool
  ck_secure :: bool
  ck_sameSiteLax :: bool

record http_response =
  rs_header :: "(string \<times> string) list"
  rs_cookies :: "cookie list"
  rs_sent :: "(nat \<times> (string \<times> string) list \<times> cookie list) option"
  rs_body :: "body list"

definition no_response :: http_response where
  "no_response = \<lparr>rs_header = [], rs_cookies = [], rs_sent = None, rs_body = []\<rparr>"

definition set_header :: "string \<Rightarrow> string \<Rightarrow> http_response \<Rightarrow> http_response" where
  "set_header k v w = w\<lparr>rs_header := AList.update k v (rs_header w)\<rparr>"

text \<open>\<^verbatim>\<open>WriteHeader\<close> takes effect once; \<^verbatim>\<open>Write\<close> sends status 200 first when nothing was sent.\<close>

definition WriteHeader :: "nat \<Rightarrow> http_response \<Rightarrow> http_response" where
  "WriteHeader status w =
     (if rs_sent w = None then w\<lparr>rs_sent := Some (status, rs_header w, rs_cookies w)\<rparr> else w)"

definition Write :: "body \<Rightarrow> http_response \<Rightarrow> http_response" where
  "Write b w = (let w1 = WriteHeader 200 w in w1\<lparr>rs_body := rs_body w1 @ [b]\<rparr>)"

text \<open>A cookie whose name is not an RFC 7230 token is dropped.\<close>

definition is_token_char :: "char \<Rightarrow> bool" where
  "is_token_char c \<longleftrightarrow> is_digit c \<or> 0x41 \<le> byte c \<and> byte c \<le> 0x5A \<or> 0x61 \<le> byte c \<and> byte c \<le> 0x7A \<or>
     c \<in> set (CHR 0x27 # ''!#$%&*+-.^_|~'' @ [CHR 0x60])"

definition is_token :: "string \<Rightarrow> bool" where
  "is_token s \<longleftrightarrow> s \<noteq> [] \<and> list_all is_token_char s"

definition http_SetCookie :: "cookie \<Rightarrow> http_response \<Rightarrow> http_response" where
  "http_SetCookie c w = (if is_token (ck_name c) then w\<lparr>rs_cookies := rs_cookies w @ [c]\<rparr> else w)"

definition request_cookie :: "string \<Rightarrow> http_request \<Rightarrow> string option" where
  "request_cookie name r = (if name = [] then None else map_of (rq_cookies r) name)"

text \<open>A handler runs against the state of the server and ends or panics.\<close>

datatype http_outcome = Done http_response | Panicked http_response

type_synonym 'w handler = "http_request \<Rightarrow> http_response \<Rightarrow> 'w \<Rightarrow> 'w \<times> http_outcome"

text \<open>\<^verbatim>\<open>int(d.Seconds())\<close>: truncation towards zero.\<close>

definition int_seconds :: "duration \<Rightarrow> int" where
  "int_seconds d = sgn d * (\<bar>d\<bar> div second)"

subsection \<open>respond.go\<close>

text \<open>A time can be encoded only when its year lies between 0 and 9999.\<close>

fun marshals :: "json_value \<Rightarrow> bool" where
  "marshals (JTime t) \<longleftrightarrow> - 62167219200 * second \<le> t \<and> t < 253402300800 * second"
| "marshals (JArr vs) \<longleftrightarrow> list_all marshals vs"
| "marshals (JObj fs) \<longleftrightarrow> list_all (\<lambda>f. marshals (snd f)) fs"
| "marshals _ \<longleftrightarrow> True"

text \<open>\<^verbatim>\<open>http.Error\<close> of the standard library: plain text.\<close>

definition plain_error :: "nat \<Rightarrow> string \<Rightarrow> http_response \<Rightarrow> http_response" where
  "plain_error status text w =
     Write (TextBody (text @ [CHR 0x0A])) (WriteHeader status
       (set_header ''X-Content-Type-Options'' ''nosniff''
       (set_header ''Content-Type'' ''text/plain; charset=utf-8'' w)))"

definition internal_error_text :: string where
  "internal_error_text = ''{'' @ [CHR 0x22] @ ''error'' @ [CHR 0x22] @ '':'' @ [CHR 0x22] @ ''internal_error'' @ [CHR 0x22] @ ''}''"

definition http_JSON :: "nat \<Rightarrow> json_value \<Rightarrow> http_response \<Rightarrow> http_response" where
  "http_JSON status v w =
     (if \<not> marshals v then plain_error 500 internal_error_text w
      else Write (JsonBody v) (WriteHeader status
             (set_header ''Cache-Control'' ''no-store''
             (set_header ''Content-Type'' ''application/json; charset=utf-8'' w))))"

definition ErrorBody :: "string \<Rightarrow> string \<Rightarrow> json_value" where
  "ErrorBody code message = JObj ((''error'', JStr code) # (if message = [] then [] else [(''message'', JStr message)]))"

definition http_Error :: "nat \<Rightarrow> string \<Rightarrow> string \<Rightarrow> http_response \<Rightarrow> http_response" where
  "http_Error status code message w = http_JSON status (ErrorBody code message) w"

text \<open>The decoder sees at most \<open>maxBytes\<close> bytes, and whether the body was cut there.\<close>

definition DecodeJSON :: "(string \<Rightarrow> bool \<Rightarrow> 'a option) \<Rightarrow> nat \<Rightarrow> http_request \<Rightarrow> 'a option" where
  "DecodeJSON dec maxBytes r = dec (take maxBytes (rq_body r)) (maxBytes < length (rq_body r))"

definition Recover :: "'w handler \<Rightarrow> 'w handler" where
  "Recover next r w s = (case next r w s of
     (s', Done w') \<Rightarrow> (s', Done w')
   | (s', Panicked w') \<Rightarrow> (s', Done (http_Error 500 ''internal_error'' [] w')))"

definition csp_value :: string where
  "csp_value = ''default-src '' @ CHR 0x27 # ''none'' @ CHR 0x27 # ''; frame-ancestors '' @ CHR 0x27 # ''none'' @ [CHR 0x27]"

definition SecurityHeaders :: "'w handler \<Rightarrow> 'w handler" where
  "SecurityHeaders next r w s =
     next r (set_header ''Content-Security-Policy'' csp_value
            (set_header ''Referrer-Policy'' ''no-referrer''
            (set_header ''X-Frame-Options'' ''DENY''
            (set_header ''X-Content-Type-Options'' ''nosniff'' w)))) s"

text \<open>\<^verbatim>\<open>net.SplitHostPort\<close>, the host only.\<close>

definition last_index :: "char \<Rightarrow> string \<Rightarrow> nat option" where
  "last_index c s = map_option (\<lambda>j. length s - 1 - j) (index_of c (rev s))"

definition split_host_port :: "string \<Rightarrow> string option" where
  "split_host_port hp =
     (case last_index (CHR '':'') hp of
        None \<Rightarrow> None
      | Some i \<Rightarrow>
          if take 1 hp = ''[''
          then (case index_of (CHR '']'') hp of
                  None \<Rightarrow> None
                | Some e \<Rightarrow>
                    if e + 1 = length hp \<or> e + 1 \<noteq> i \<or> CHR ''['' \<in> set (drop 1 hp) \<or> CHR '']'' \<in> set (drop (e + 1) hp)
                    then None else Some (take (e - 1) (drop 1 hp)))
          else if CHR '':'' \<in> set (take i hp) \<or> CHR ''['' \<in> set hp \<or> CHR '']'' \<in> set hp then None
          else Some (take i hp))"

definition ClientIP :: "http_request \<Rightarrow> bool \<Rightarrow> string" where
  "ClientIP r trustProxy =
     (let xff = rq_header r ''X-Forwarded-For''; (first, _, found) = cut (CHR '','') xff;
          real = trim_space (rq_header r ''X-Real-IP'');
          socket = (case split_host_port (rq_remote r) of None \<Rightarrow> rq_remote r | Some host \<Rightarrow> host)
      in if trustProxy \<and> xff \<noteq> [] \<and> (found \<or> first \<noteq> []) \<and> trim_space first \<noteq> [] then trim_space first
         else if trustProxy \<and> real \<noteq> [] then real
         else socket)"

subsection \<open>origin.go\<close>

record OriginPolicy =
  permitted :: "string list"
  allowAny :: bool

datatype origin_error = ParseOrigin string | OriginIncomplete string

text \<open>\<^verbatim>\<open>strings.EqualFold\<close>: \<open>uf\<close> gives the representative of a character's folding class.\<close>

definition fold_segment :: "(string \<Rightarrow> string) \<Rightarrow> string \<Rightarrow> string" where
  "fold_segment uf seg = (case seg of
     [c] \<Rightarrow> if byte c < 0x80 then [lower_ascii c] else uf replacement
   | _ \<Rightarrow> uf seg)"

definition equal_fold :: "(string \<Rightarrow> string) \<Rightarrow> string \<Rightarrow> string \<Rightarrow> bool" where
  "equal_fold uf s t \<longleftrightarrow> map (fold_segment uf) (segments s) = map (fold_segment uf) (segments t)"

fun permit_all ::
    "(string \<Rightarrow> (string \<times> string) option) \<Rightarrow> (string \<Rightarrow> string) \<Rightarrow> string list \<Rightarrow> string list \<Rightarrow> origin_error + string list" where
  "permit_all url_parse ut [] acc = Inr acc"
| "permit_all url_parse ut (raw # raws) acc =
     (let raw = trim_space raw
      in if raw = [] then permit_all url_parse ut raws acc
         else case url_parse raw of
           None \<Rightarrow> Inl (ParseOrigin raw)
         | Some (scheme, host) \<Rightarrow>
             if scheme = [] \<or> host = [] then Inl (OriginIncomplete raw)
             else permit_all url_parse ut raws (List.insert (to_lower ut (scheme @ ''://'' @ host)) acc))"

definition NewOriginPolicy ::
    "(string \<Rightarrow> (string \<times> string) option) \<Rightarrow> (string \<Rightarrow> string) \<Rightarrow> string \<Rightarrow> origin_error + OriginPolicy" where
  "NewOriginPolicy url_parse ut allowed =
     (let allowed = trim_space allowed
      in if allowed = ''*'' then Inr \<lparr>permitted = [], allowAny = True\<rparr>
         else sum_bind (permit_all url_parse ut (split (CHR '','') allowed) [])
                (\<lambda>ps. Inr \<lparr>permitted = ps, allowAny = False\<rparr>))"

definition origin_Allow ::
    "(string \<Rightarrow> (string \<times> string) option) \<Rightarrow> (string \<Rightarrow> string) \<Rightarrow> (string \<Rightarrow> string) \<Rightarrow> OriginPolicy \<Rightarrow> http_request \<Rightarrow> bool" where
  "origin_Allow url_parse ut uf p r =
     (let origin = rq_header r ''Origin''
      in if allowAny p then True
         else if origin = [] then True
         else if permitted p = []
         then (case url_parse origin of None \<Rightarrow> False | Some (_, host) \<Rightarrow> equal_fold uf host (rq_host r))
         else to_lower ut origin \<in> set (permitted p))"

definition CheckOrigin ::
    "(string \<Rightarrow> (string \<times> string) option) \<Rightarrow> (string \<Rightarrow> string) \<Rightarrow> (string \<Rightarrow> string) \<Rightarrow> OriginPolicy \<Rightarrow> http_request \<Rightarrow> bool" where
  "CheckOrigin url_parse ut uf p r = origin_Allow url_parse ut uf p r"

definition safeMethods :: "string list" where
  "safeMethods = [''GET'', ''HEAD'', ''OPTIONS'']"

definition CSRF :: "(http_request \<Rightarrow> bool) \<Rightarrow> (string \<Rightarrow> 'w handler) \<Rightarrow> 'w handler \<Rightarrow> 'w handler" where
  "CSRF allow deny next r w s =
     (if rq_method r \<in> set safeMethods then next r w s
      else if rq_header r ''Authorization'' \<noteq> [] then next r w s
      else if \<not> allow r then deny ''origin not allowed'' r w s
      else next r w s)"

subsection \<open>Answers\<close>

definition status_of :: "http_outcome \<Rightarrow> nat option" where
  "status_of out = map_option fst (rs_sent (case out of Done w \<Rightarrow> w | Panicked w \<Rightarrow> w))"

lemma set_header_views [simp]:
  "rs_sent (set_header k v w) = rs_sent w" "rs_body (set_header k v w) = rs_body w" "rs_cookies (set_header k v w) = rs_cookies w"
  by (simp_all add: set_header_def)

lemma marshals_ErrorBody [simp]: "marshals (ErrorBody code message)"
  by (simp add: ErrorBody_def)

lemma WriteHeader_sent [simp]: "rs_sent w = None \<Longrightarrow> rs_sent (WriteHeader c w) = Some (c, rs_header w, rs_cookies w)"
  by (simp add: WriteHeader_def)

lemma WriteHeader_late [simp]: "rs_sent w \<noteq> None \<Longrightarrow> WriteHeader c w = w"
  by (simp add: WriteHeader_def)

lemma Write_sent [simp]: "rs_sent w \<noteq> None \<Longrightarrow> rs_sent (Write b w) = rs_sent w"
  by (simp add: Write_def)

lemma status_JSON [simp]: "rs_sent w = None \<Longrightarrow> marshals v \<Longrightarrow> status_of (Done (http_JSON c v w)) = Some c"
  by (simp add: status_of_def http_JSON_def)

lemma status_Error [simp]: "rs_sent w = None \<Longrightarrow> status_of (Done (http_Error c code message w)) = Some c"
  by (simp add: http_Error_def)

end
