(* ===== verification/Middleware.thy ===== *)
theory Middleware
  imports AuthService Httpx
begin

text \<open>
  \<^verbatim>\<open>internal/auth/middleware.go\<close>: who is calling.  The identity \<^verbatim>\<open>Require\<close> puts into the request context is
  handed to the wrapped handler as \<open>Some id\<close>; \<^verbatim>\<open>FromContext\<close> reads it.
\<close>

record Identity =
  id_User :: User
  id_Session :: Session
  id_Token :: string

record ('s, 'p) middleware =
  mw_svc :: "('s, 'p) service"
  mw_cookieName :: string
  mw_cookieDomain :: string
  mw_cookieSecure :: bool
  mw_idleTTL :: duration
  mw_absoluteTTL :: duration
  mw_trustProxy :: bool
  mw_fold :: "string \<Rightarrow> string"

type_synonym 'w auth_handler = "Identity option \<Rightarrow> 'w handler"

definition NewMiddleware ::
    "('s, 'p) service \<Rightarrow> (string \<Rightarrow> string) \<Rightarrow> string \<Rightarrow> string \<Rightarrow> bool \<Rightarrow> duration \<Rightarrow> duration \<Rightarrow> bool \<Rightarrow> ('s, 'p) middleware" where
  "NewMiddleware svc uf cookieName cookieDomain cookieSecure idle absolute trustProxy =
     \<lparr>mw_svc = svc, mw_cookieName = cookieName, mw_cookieDomain = cookieDomain, mw_cookieSecure = cookieSecure,
      mw_idleTTL = idle, mw_absoluteTTL = absolute, mw_trustProxy = trustProxy, mw_fold = uf\<rparr>"

subsection \<open>Cookies\<close>

definition zero_time :: gotime where
  "zero_time = - 62135596800 * second"

definition SetCookie :: "('s, 'p) middleware \<Rightarrow> gotime \<Rightarrow> string \<Rightarrow> gotime \<Rightarrow> http_response \<Rightarrow> http_response" where
  "SetCookie mw now token sessionExpiry w =
     (let e0 = now + mw_idleTTL mw;
          expires = (if sessionExpiry \<noteq> zero_time \<and> sessionExpiry < e0 then sessionExpiry else e0)
      in http_SetCookie \<lparr>ck_name = mw_cookieName mw, ck_value = token, ck_domain = mw_cookieDomain mw, ck_expires = expires,
           ck_maxAge = int_seconds (time_sub expires now), ck_httpOnly = True, ck_secure = mw_cookieSecure mw,
           ck_sameSiteLax = True\<rparr> w)"

definition ClearCookie :: "('s, 'p) middleware \<Rightarrow> http_response \<Rightarrow> http_response" where
  "ClearCookie mw w =
     http_SetCookie \<lparr>ck_name = mw_cookieName mw, ck_value = [], ck_domain = mw_cookieDomain mw, ck_expires = 0,
       ck_maxAge = - 1, ck_httpOnly = True, ck_secure = mw_cookieSecure mw, ck_sameSiteLax = True\<rparr> w"

definition RefreshCookie :: "('s, 'p) middleware \<Rightarrow> gotime \<Rightarrow> http_request \<Rightarrow> Identity \<Rightarrow> http_response \<Rightarrow> http_response" where
  "RefreshCookie mw now r i w =
     (if rq_header r ''Authorization'' \<noteq> [] then w
      else if request_cookie (mw_cookieName mw) r = None then w
      else SetCookie mw now (id_Token i) (s_ExpiresAt (id_Session i)) w)"

subsection \<open>Authentication\<close>

definition tokenFrom :: "('s, 'p) middleware \<Rightarrow> http_request \<Rightarrow> string" where
  "tokenFrom mw r =
     (let header = rq_header r ''Authorization''
      in if header \<noteq> []
         then (case cut (CHR '' '') header of
                 (scheme, v, found) \<Rightarrow> if found \<and> equal_fold (mw_fold mw) scheme ''Bearer'' then trim_space v else [])
         else (case request_cookie (mw_cookieName mw) r of Some v \<Rightarrow> v | None \<Rightarrow> []))"

definition mw_ClientIP :: "('s, 'p) middleware \<Rightarrow> http_request \<Rightarrow> string" where
  "mw_ClientIP mw r = ClientIP r (mw_trustProxy mw)"

definition identify ::
    "('s, 'p) middleware \<Rightarrow> gotime \<Rightarrow> http_request \<Rightarrow> ('s, 'p, 'm) world_scheme \<Rightarrow> ('s, 'p, 'm) world_scheme \<times> (auth_error + Identity)" where
  "identify mw now r s =
     (let token = tokenFrom mw r
      in if token = [] then (s, Inl (SessionFault ErrSessionNotFound))
         else case on_redis (Get (sv_sessions (mw_svc mw)) token now) s of
           (s1, Inl x) \<Rightarrow> (s1, Inl (SessionFault x))
         | (s1, Inr sess) \<Rightarrow>
             (case on_pg (ByID (sv_users (mw_svc mw)) (s_UserID sess) now) s1 of
                (s2, Inl x) \<Rightarrow> (s2, Inl (UserFault x))
              | (s2, Inr user) \<Rightarrow> (s2, Inr \<lparr>id_User = user, id_Session = sess, id_Token = token\<rparr>)))"

definition unauthenticated :: "auth_error \<Rightarrow> bool" where
  "unauthenticated e \<longleftrightarrow> e \<in> {SessionFault ErrSessionNotFound, UserFault ErrUserNotFound, UserFault ErrUserDisabled}"

definition Require :: "('s, 'p) middleware \<Rightarrow> gotime \<Rightarrow> ('s, 'p, 'm) world_scheme auth_handler \<Rightarrow> ('s, 'p, 'm) world_scheme handler" where
  "Require mw now next r w s =
     (case identify mw now r s of
        (s1, Inl e) \<Rightarrow>
          (s1, Done (if unauthenticated e
                     then http_Error 401 ''unauthenticated'' ''sign in to continue'' (ClearCookie mw w)
                     else http_Error 500 ''internal_error'' [] w))
      | (s1, Inr i) \<Rightarrow>
          next (Some i) r w (fst (on_redis (Touch (sv_sessions (mw_svc mw)) (id_Session i) now) s1)))"

definition AuthenticateWS ::
    "('s, 'p) middleware \<Rightarrow> gotime \<Rightarrow> http_request \<Rightarrow> ('s, 'p, 'm) world_scheme \<Rightarrow> ('s, 'p, 'm) world_scheme \<times> (auth_error + (string \<times> string))" where
  "AuthenticateWS mw now r s =
     (let ticket = rq_query r ''ticket''
      in if ticket \<noteq> []
         then (case on_redis (RedeemWSTicket (sv_sessions (mw_svc mw)) ticket now) s of
                 (s1, Inl x) \<Rightarrow> (s1, Inl (SessionFault x))
               | (s1, Inr userID) \<Rightarrow>
                   (case on_pg (ByID (sv_users (mw_svc mw)) userID now) s1 of
                      (s2, Inl x) \<Rightarrow> (s2, Inl (UserFault x))
                    | (s2, Inr user) \<Rightarrow> (s2, Inr (usr_ID user, usr_DisplayName user))))
         else (case identify mw now r s of
                 (s1, Inl e) \<Rightarrow> (s1, Inl e)
               | (s1, Inr i) \<Rightarrow> (s1, Inr (usr_ID (id_User i), usr_DisplayName (id_User i)))))"

end
