(* ===== verification/AuthHandlers.thy ===== *)
theory AuthHandlers
  imports Middleware
begin

text \<open>
  \<^verbatim>\<open>internal/auth/handlers.go\<close>: the credential endpoints.  A handler takes the identity \<^verbatim>\<open>Require\<close> found, if
  it was wrapped, and the environment of the request.  The JSON decoders of the two request bodies are
  part of \<open>auth_handlers\<close>.
\<close>

definition maxBodyBytes :: nat where "maxBodyBytes = 4 * 2 ^ 10"
definition contactsLimit :: int where "contactsLimit = 200"

datatype deliveryMode = ModeCookie | ModeBearer | ModeOther string

record credentialsRequest =
  cq_Email :: string
  cq_Password :: string
  cq_DisplayName :: string
  cq_Mode :: deliveryMode

record changePasswordRequest =
  pq_CurrentPassword :: string
  pq_NewPassword :: string

record ('s, 'p) auth_handlers =
  ah_mw :: "('s, 'p) middleware"
  ah_dec_credentials :: "string \<Rightarrow> bool \<Rightarrow> credentialsRequest option"
  ah_dec_passwords :: "string \<Rightarrow> bool \<Rightarrow> changePasswordRequest option"

definition ah_svc :: "('s, 'p) auth_handlers \<Rightarrow> ('s, 'p) service" where
  "ah_svc h = mw_svc (ah_mw h)"

definition json_user :: "User \<Rightarrow> json_value" where
  "json_user u = JObj [(''id'', JStr (usr_ID u)), (''email'', JStr (usr_Email u)), (''display_name'', JStr (usr_DisplayName u)),
     (''email_verified'', JBool (usr_EmailVerified u)), (''created_at'', JTime (usr_CreatedAt u))]"

definition sessionResponse :: "User \<Rightarrow> gotime \<Rightarrow> string \<Rightarrow> string \<Rightarrow> json_value" where
  "sessionResponse user expires token tokenType =
     JObj ([(''user'', json_user user), (''expires_at'', JTime expires)] @
       (if token = [] then [] else [(''token'', JStr token)]) @
       (if tokenType = [] then [] else [(''token_type'', JStr tokenType)]))"

definition pw_message :: "pw_error \<Rightarrow> string" where
  "pw_message x = (case x of
     ErrPasswordTooShort \<Rightarrow> ''auth: password must be at least '' @ format_nat MinPasswordLength @ '' characters''
   | ErrPasswordTooLong \<Rightarrow> ''auth: password must be at most '' @ format_nat MaxPasswordLength @ '' characters''
   | ErrPasswordNotAllowed \<Rightarrow> ''auth: password is too easily guessed''
   | ErrInvalidHash \<Rightarrow> ''auth: malformed password hash''
   | ErrIncompatibleHash \<Rightarrow> ''auth: unsupported password hash algorithm''
   | _ \<Rightarrow> [])"

definition invalid_body :: "http_response \<Rightarrow> http_response" where
  "invalid_body w = http_Error 400 ''invalid_body'' ''expected a JSON object'' w"

definition internal_error :: "http_response \<Rightarrow> http_response" where
  "internal_error w = http_Error 500 ''internal_error'' [] w"

definition unauthenticated_error :: "http_response \<Rightarrow> http_response" where
  "unauthenticated_error w = http_Error 401 ''unauthenticated'' [] w"

definition retry_after :: "duration \<Rightarrow> http_response \<Rightarrow> http_response" where
  "retry_after d w = set_header ''Retry-After'' (format_int (int_seconds d + 1)) w"

definition writeAuthError :: "auth_error \<Rightarrow> http_response \<Rightarrow> http_outcome" where
  "writeAuthError err w = (case err of
     RateLimitError d \<Rightarrow> Done (http_Error 429 ''rate_limited'' ''too many attempts, try again later'' (retry_after d w))
   | ErrInvalidCredentials \<Rightarrow> Done (http_Error 401 ''invalid_credentials'' ''email or password is incorrect'' w)
   | UserFault ErrEmailTaken \<Rightarrow> Done (http_Error 409 ''email_taken'' ''that email is already registered'' w)
   | ErrInvalidEmail \<Rightarrow> Done (http_Error 400 ''invalid_email'' ''enter a valid email address'' w)
   | ErrInvalidDisplayName \<Rightarrow> Done (http_Error 400 ''invalid_display_name'' ''auth: display name must be 1-100 characters'' w)
   | PasswordFault x \<Rightarrow>
       if x \<in> {ErrPasswordTooShort, ErrPasswordTooLong, ErrPasswordNotAllowed}
       then Done (http_Error 400 ''weak_password'' (pw_message x) w) else Done (internal_error w)
   | PanicFault \<Rightarrow> Panicked w
   | _ \<Rightarrow> Done (internal_error w))"

definition writeSession ::
    "('s, 'p) auth_handlers \<Rightarrow> gotime \<Rightarrow> deliveryMode \<Rightarrow> User \<Rightarrow> string \<Rightarrow> Session \<Rightarrow> nat \<Rightarrow> http_response \<Rightarrow> http_response" where
  "writeSession h now mode user token sess status w =
     (if mode = ModeBearer then http_JSON status (sessionResponse user (s_ExpiresAt sess) token ''Bearer'') w
      else http_JSON status (sessionResponse user (s_ExpiresAt sess) [] []) (SetCookie (ah_mw h) now token (s_ExpiresAt sess) w))"

definition request_credentials :: "('s, 'p) auth_handlers \<Rightarrow> http_request \<Rightarrow> credentialsRequest \<Rightarrow> string \<Rightarrow> Credentials" where
  "request_credentials h r req displayName =
     \<lparr>cr_Email = cq_Email req, cr_Password = cq_Password req, cr_DisplayName = displayName,
      cr_IP = mw_ClientIP (ah_mw h) r, cr_UserAgent = rq_header r ''User-Agent''\<rparr>"

definition request_event :: "('s, 'p) auth_handlers \<Rightarrow> http_request \<Rightarrow> string \<Rightarrow> string \<Rightarrow> AuthEvent" where
  "request_event h r userID email =
     \<lparr>ae_UserID = userID, ae_Email = email, ae_Event = [], ae_IP = mw_ClientIP (ah_mw h) r, ae_UserAgent = rq_header r ''User-Agent''\<rparr>"

subsection \<open>Endpoints\<close>

definition handle_register :: "('s, 'p) auth_handlers \<Rightarrow> req_env \<Rightarrow> ('s, 'p, 'm) world_scheme handler" where
  "handle_register h env r w s =
     (case DecodeJSON (ah_dec_credentials h) maxBodyBytes r of
        None \<Rightarrow> (s, Done (invalid_body w))
      | Some req \<Rightarrow>
          (case Register (ah_svc h) env (request_credentials h r req (cq_DisplayName req)) s of
             (s1, Inl e) \<Rightarrow> (s1, writeAuthError e w)
           | (s1, Inr (user, token, sess)) \<Rightarrow> (s1, Done (writeSession h (en_now env) (cq_Mode req) user token sess 201 w))))"

definition handle_login :: "('s, 'p) auth_handlers \<Rightarrow> req_env \<Rightarrow> ('s, 'p, 'm) world_scheme handler" where
  "handle_login h env r w s =
     (case DecodeJSON (ah_dec_credentials h) maxBodyBytes r of
        None \<Rightarrow> (s, Done (invalid_body w))
      | Some req \<Rightarrow>
          (case Login (ah_svc h) env (request_credentials h r req []) s of
             (s1, Inl e) \<Rightarrow> (s1, writeAuthError e w)
           | (s1, Inr (user, token, sess)) \<Rightarrow> (s1, Done (writeSession h (en_now env) (cq_Mode req) user token sess 200 w))))"

definition handle_logout :: "('s, 'p) auth_handlers \<Rightarrow> req_env \<Rightarrow> ('s, 'p, 'm) world_scheme handler" where
  "handle_logout h env r w s =
     (let token = tokenFrom (ah_mw h) r; clear = WriteHeader 204 (ClearCookie (ah_mw h) w)
      in if token = [] then (s, Done clear)
         else case Logout (ah_svc h) token (request_event h r [] []) (en_now env) s of
           (s1, Some _) \<Rightarrow> (s1, Done (internal_error w))
         | (s1, None) \<Rightarrow> (s1, Done clear))"

definition handle_logoutAll :: "('s, 'p) auth_handlers \<Rightarrow> req_env \<Rightarrow> ('s, 'p, 'm) world_scheme auth_handler" where
  "handle_logoutAll h env i r w s = (case i of
     None \<Rightarrow> (s, Done (unauthenticated_error w))
   | Some i \<Rightarrow>
       (case LogoutAll (ah_svc h) (usr_ID (id_User i)) (request_event h r (usr_ID (id_User i)) (usr_Email (id_User i))) (en_now env) s of
          (s1, Inl _) \<Rightarrow> (s1, Done (internal_error w))
        | (s1, Inr revoked) \<Rightarrow> (s1, Done (http_JSON 200 (JObj [(''revoked'', JInt (int revoked))]) (ClearCookie (ah_mw h) w)))))"

definition handle_me :: "('s, 'p) auth_handlers \<Rightarrow> req_env \<Rightarrow> ('s, 'p, 'm) world_scheme auth_handler" where
  "handle_me h env i r w s = (case i of
     None \<Rightarrow> (s, Done (unauthenticated_error w))
   | Some i \<Rightarrow>
       (s, Done (http_JSON 200 (sessionResponse (id_User i) (s_ExpiresAt (id_Session i)) [] [])
                  (RefreshCookie (ah_mw h) (en_now env) r i w))))"

definition handle_changePassword :: "('s, 'p) auth_handlers \<Rightarrow> req_env \<Rightarrow> ('s, 'p, 'm) world_scheme auth_handler" where
  "handle_changePassword h env i r w s = (case i of
     None \<Rightarrow> (s, Done (unauthenticated_error w))
   | Some i \<Rightarrow>
       (case DecodeJSON (ah_dec_passwords h) maxBodyBytes r of
          None \<Rightarrow> (s, Done (invalid_body w))
        | Some req \<Rightarrow>
            (case ChangePassword (ah_svc h) env (usr_ID (id_User i)) (pq_CurrentPassword req) (pq_NewPassword req) (id_Token i)
                    (request_event h r (usr_ID (id_User i)) (usr_Email (id_User i))) s of
               (s1, Some e) \<Rightarrow> (s1, writeAuthError e w)
             | (s1, None) \<Rightarrow> (s1, Done (WriteHeader 204 w)))))"

definition handle_wsTicket :: "('s, 'p) auth_handlers \<Rightarrow> req_env \<Rightarrow> ('s, 'p, 'm) world_scheme auth_handler" where
  "handle_wsTicket h env i r w s = (case i of
     None \<Rightarrow> (s, Done (unauthenticated_error w))
   | Some i \<Rightarrow>
       (case on_redis (IssueWSTicket (sv_sessions (ah_svc h)) (en_token env) (usr_ID (id_User i)) (en_now env)) s of
          (s1, Inl _) \<Rightarrow> (s1, Done (internal_error w))
        | (s1, Inr (ticket, ttl)) \<Rightarrow>
            (s1, Done (http_JSON 200 (JObj [(''expires_in'', JInt (int_seconds ttl)), (''ticket'', JStr ticket)]) w))))"

definition json_contact :: "Contact \<Rightarrow> json_value" where
  "json_contact c = JObj [(''id'', JStr (ct_ID c)), (''display_name'', JStr (ct_DisplayName c))]"

definition handle_contacts :: "('s, 'p) auth_handlers \<Rightarrow> req_env \<Rightarrow> ('s, 'p, 'm) world_scheme auth_handler" where
  "handle_contacts h env i r w s = (case i of
     None \<Rightarrow> (s, Done (unauthenticated_error w))
   | Some i \<Rightarrow>
       (case on_pg (Contacts (sv_users (ah_svc h)) (usr_ID (id_User i)) contactsLimit (en_now env)) s of
          (s1, Inl _) \<Rightarrow> (s1, Done (internal_error w))
        | (s1, Inr list) \<Rightarrow> (s1, Done (http_JSON 200 (JObj [(''users'', JArr (map json_contact list))]) w))))"

end
