(* ===== verification/MemPostgres.thy ===== *)
theory MemPostgres
  imports Postgres "HOL-Library.List_Lexorder" "HOL-Library.Char_ord"
begin

text \<open>
  An in-memory database with the behaviour the locale \<open>postgres\<close> asks for: tables as association lists,
  identifiers counted up, byte-wise collation, and a switch that makes every call fail.
\<close>

record memdb =
  md_users :: "(string \<times> user_row) list"
  md_creds :: "(string \<times> string) list"
  md_rooms :: "(string \<times> room_row) list"
  md_events :: "event_row list"

record mempg =
  pm_db :: memdb
  pm_work :: "memdb option"
  pm_next :: nat
  pm_up :: bool

definition md_abs :: "memdb \<Rightarrow> pgdb" where
  "md_abs d = \<lparr>t_users = map_of (md_users d), t_creds = map_of (md_creds d), t_rooms = map_of (md_rooms d),
     t_events = md_events d\<rparr>"

definition pm_tables :: "mempg \<Rightarrow> pgdb" where
  "pm_tables s = md_abs (pm_db s)"

definition pm_view :: "mempg \<Rightarrow> pgdb option" where
  "pm_view s = map_option md_abs (pm_work s)"

definition hex_lower :: "char \<Rightarrow> bool" where
  "hex_lower c \<longleftrightarrow> is_digit c \<or> 0x61 \<le> byte c \<and> byte c \<le> 0x66"

definition uuid_shape :: "string \<Rightarrow> bool" where
  "uuid_shape s \<longleftrightarrow> length s = 36 \<and>
     list_all (\<lambda>i. if i \<in> {8, 13, 18, 23} then s ! i = CHR ''-'' else hex_lower (s ! i)) [0..<36]"

definition mem_uuid :: "string \<Rightarrow> string option" where
  "mem_uuid s = (let s = map lower_ascii s in if uuid_shape s then Some s else None)"

definition mem_ci :: "string \<Rightarrow> string" where
  "mem_ci s = map lower_ascii s"

definition fresh_id :: "mempg \<Rightarrow> string" where
  "fresh_id s = (let n = format_nat (pm_next s)
     in ''00000000-0000-4000-8000-'' @ replicate (12 - length n) (CHR ''0'') @ n)"

definition text_leq :: "string \<Rightarrow> string \<Rightarrow> bool" where
  "text_leq a b \<longleftrightarrow> a \<le> b"

definition mem_pg :: "mempg pg" where
  "mem_pg = \<lparr>
    pg_begin = (\<lambda>t s. if pm_up s then (s\<lparr>pm_work := Some (pm_db s)\<rparr>, None) else (s, Some PgError)),
    pg_commit = (\<lambda>t s. case pm_work s of
       Some d \<Rightarrow> if pm_up s then (s\<lparr>pm_db := d, pm_work := None\<rparr>, None) else (s\<lparr>pm_work := None\<rparr>, Some PgError)
     | None \<Rightarrow> (s, Some PgError)),
    pg_rollback = (\<lambda>t s. (s\<lparr>pm_work := None\<rparr>, None)),
    pg_insert_user = (\<lambda>email name t s. case pm_work s of
       None \<Rightarrow> (s, Inl PgError)
     | Some d \<Rightarrow>
         (let i = fresh_id s;
              u = \<lparr>u_email = email, u_display_name = name, u_email_verified = False, u_disabled_at = None, u_created_at = t\<rparr>
          in if list_ex (\<lambda>(_, v). mem_ci (u_email v) = mem_ci email) (AList.clearjunk (md_users d)) then (s, Inl UniqueViolation)
             else if \<not> pm_up s \<or> map_of (md_users d) i \<noteq> None \<or> map_of (md_creds d) i \<noteq> None \<or> mem_uuid i \<noteq> Some i \<or>
               \<not> email_length_ok email \<or> \<not> name_length_ok name then (s, Inl PgError)
             else (s\<lparr>pm_work := Some (d\<lparr>md_users := (i, u) # md_users d\<rparr>), pm_next := Suc (pm_next s)\<rparr>, Inr (i, u)))),
    pg_insert_credential = (\<lambda>y h t s. case (pm_work s, mem_uuid y) of
       (Some d, Some i) \<Rightarrow>
         if \<not> pm_up s \<or> map_of (md_users d) i = None \<or> map_of (md_creds d) i \<noteq> None then (s, Some PgError)
         else (s\<lparr>pm_work := Some (d\<lparr>md_creds := (i, h) # md_creds d\<rparr>)\<rparr>, None)
     | _ \<Rightarrow> (s, Some PgError)),
    pg_select_by_email = (\<lambda>email t s.
       (s, if \<not> pm_up s then Inl PgError
           else Inr (map_option (\<lambda>(i, u). (i, u, map_of (md_creds (pm_db s)) i))
             (find (\<lambda>(i, u). mem_ci (u_email u) = mem_ci email) (AList.clearjunk (md_users (pm_db s))))))),
    pg_select_by_id = (\<lambda>y t s. (s, case mem_uuid y of
       None \<Rightarrow> Inl PgError
     | Some i \<Rightarrow> if pm_up s then Inr (map_option (\<lambda>u. (i, u)) (map_of (md_users (pm_db s)) i)) else Inl PgError)),
    pg_select_contacts = (\<lambda>y n t s. (s, case mem_uuid y of
       None \<Rightarrow> Inl PgError
     | Some i \<Rightarrow>
         if \<not> pm_up s \<or> n < 0 then Inl PgError
         else Inr (take (nat n) (sort_key snd (map (\<lambda>(j, u). (j, u_display_name u))
           (filter (\<lambda>(j, u). u_disabled_at u = None \<and> j \<noteq> i) (AList.clearjunk (md_users (pm_db s)))))), None))),
    pg_select_credential = (\<lambda>y t s. (s, case mem_uuid y of
       None \<Rightarrow> Inl PgError
     | Some i \<Rightarrow> if pm_up s then Inr (map_of (md_creds (pm_db s)) i) else Inl PgError)),
    pg_update_credential = (\<lambda>y h t s. case mem_uuid y of
       None \<Rightarrow> (s, Inl PgError)
     | Some i \<Rightarrow>
         if \<not> pm_up s then (s, Inl PgError)
         else if map_of (md_creds (pm_db s)) i = None then (s, Inr 0)
         else (s\<lparr>pm_db := (pm_db s)\<lparr>md_creds := (i, h) # md_creds (pm_db s)\<rparr>\<rparr>, Inr 1)),
    pg_insert_event = (\<lambda>e t s.
       if pm_up s then (s\<lparr>pm_db := (pm_db s)\<lparr>md_events := md_events (pm_db s) @ [e]\<rparr>\<rparr>, None) else (s, Some PgError)),
    pg_insert_room = (\<lambda>slug name y t s. case mem_uuid y of
       None \<Rightarrow> (s, Inl PgError)
     | Some j \<Rightarrow>
         (let d = pm_db s; i = fresh_id s; r = \<lparr>r_slug = slug, r_name = name, r_created_by = j, r_created_at = t\<rparr>
          in if list_ex (\<lambda>(_, q). r_slug q = slug) (AList.clearjunk (md_rooms d)) then (s, Inl UniqueViolation)
             else if \<not> pm_up s \<or> map_of (md_users d) j = None \<or> map_of (md_rooms d) i \<noteq> None \<or> \<not> slug_format slug \<or>
               \<not> name_length_ok name then (s, Inl PgError)
             else (s\<lparr>pm_db := d\<lparr>md_rooms := (i, r) # md_rooms d\<rparr>, pm_next := Suc (pm_next s)\<rparr>, Inr (i, r)))),
    pg_select_room = (\<lambda>slug t s.
       (s, if pm_up s then Inr (find (\<lambda>(i, q). r_slug q = slug) (AList.clearjunk (md_rooms (pm_db s)))) else Inl PgError)),
    pg_delete_room = (\<lambda>slug t s.
       if \<not> pm_up s then (s, Inl PgError)
       else (let rs = AList.clearjunk (md_rooms (pm_db s))
             in (s\<lparr>pm_db := (pm_db s)\<lparr>md_rooms := filter (\<lambda>(i, q). r_slug q \<noteq> slug) rs\<rparr>\<rparr>,
                 Inr (length (filter (\<lambda>(i, q). r_slug q = slug) rs))))),
    pg_select_rooms = (\<lambda>n t s.
       (s, if \<not> pm_up s \<or> n < 0 then Inl PgError
           else Inr (take (nat n) (sort_key (\<lambda>(_, r, _). - r_created_at r)
             (concat (map (\<lambda>(i, r). case map_of (md_users (pm_db s)) (r_created_by r) of
                Some u \<Rightarrow> [(i, r, u_display_name u)] | None \<Rightarrow> []) (AList.clearjunk (md_rooms (pm_db s)))))), None)))\<rparr>"


subsection \<open>It is such a database\<close>

lemma clearjunk_mem: "(k, v) \<in> set (AList.clearjunk l) \<longleftrightarrow> map_of l k = Some v"
  by (metis distinct_clearjunk map_of_clearjunk map_of_eq_Some_iff)

lemma find_clearjunk_None: "find (\<lambda>(i, u). p u) (AList.clearjunk l) = None \<longleftrightarrow> (\<forall>i u. map_of l i = Some u \<longrightarrow> \<not> p u)"
  by (auto simp: find_None_iff clearjunk_mem [symmetric])

lemma find_clearjunk_Some: "find (\<lambda>(i, u). p u) (AList.clearjunk l) = Some (i, u) \<Longrightarrow> map_of l i = Some u \<and> p u"
proof -
  assume "find (\<lambda>(i, u). p u) (AList.clearjunk l) = Some (i, u)"
  then obtain n where "n < length (AList.clearjunk l)" "AList.clearjunk l ! n = (i, u)" "p u"
    unfolding find_Some_iff by auto
  then show ?thesis using nth_mem [of n "AList.clearjunk l"] by (simp add: clearjunk_mem)
qed

lemma list_ex_clearjunk: "list_ex (\<lambda>(_, v). p v) (AList.clearjunk l) \<longleftrightarrow> (\<exists>i u. map_of l i = Some u \<and> p u)"
  by (auto simp: list_ex_iff clearjunk_mem Bex_def)

lemma map_of_filter_clearjunk:
  "map_of (filter (\<lambda>(i, q). p q) (AList.clearjunk l)) i = (case map_of l i of Some q \<Rightarrow> if p q then Some q else None | None \<Rightarrow> None)"
proof (induction l rule: clearjunk.induct)
  case (2 x xs)
  have "map_of (AList.delete (fst x) xs) i = (if i = fst x then None else map_of xs i)" by (simp add: delete_conv')
  with 2 show ?case by (cases x) (auto split: option.splits)
qed simp

lemma filter_clearjunk_Nil: "filter (\<lambda>(i, q). p q) (AList.clearjunk l) = [] \<longleftrightarrow> (\<forall>i q. map_of l i = Some q \<longrightarrow> \<not> p q)"
  by (auto simp: filter_empty_conv clearjunk_mem [symmetric])

lemma distinct_fst_sort: "distinct (map fst (sort_key k l)) \<longleftrightarrow> distinct (map fst l)"
  by (rule mset_eq_distinct) (simp only: mset_map mset_sort)

lemma mem_contacts:
  assumes "0 \<le> n" "xs = take (nat n) (sort_key snd (map (\<lambda>(j, u). (j, u_display_name u))
    (filter (\<lambda>(j, u). u_disabled_at u = None \<and> j \<noteq> i) (AList.clearjunk (md_users d)))))"
  shows "contacts_spec text_leq i n (md_abs d) xs"
proof -
  let ?l = "map (\<lambda>(j, u). (j, u_display_name u))
    (filter (\<lambda>(j, u). u_disabled_at u = None \<and> j \<noteq> i) (AList.clearjunk (md_users d)))"
  let ?s = "sort_key snd ?l"
  have l: "(j, x) \<in> set ?l \<longleftrightarrow> j \<noteq> i \<and> (\<exists>u. map_of (md_users d) j = Some u \<and> u_disabled_at u = None \<and> u_display_name u = x)" for j x
    by (auto simp: clearjunk_mem image_iff)
  have "distinct (map fst (filter (\<lambda>(j, u). u_disabled_at u = None \<and> j \<noteq> i) (AList.clearjunk (md_users d))))"
    by (intro distinct_map_filter distinct_clearjunk)
  then have "distinct (map fst ?l)" by (simp add: comp_def case_prod_unfold)
  then have "distinct (map fst ?s)" using distinct_fst_sort [of snd ?l] by blast
  then have d: "distinct (map fst xs)" unfolding assms(2) take_map [symmetric] by (rule distinct_take)
  have "sorted (map snd ?s)" by simp
  then have "sorted (take (nat n) (map snd ?s))" by (rule sorted_wrt_take)
  then have s: "sorted_wrt text_leq (map snd xs)" unfolding assms(2) take_map by (simp add: text_leq_def [abs_def] case_prod_unfold)
  have sub: "set xs \<subseteq> set ?l" unfolding assms(2) using set_take_subset [of "nat n" ?s] by simp
  have all: "set xs = set ?l" if "int (length xs) < n"
  proof -
    have "xs = ?s" using that assms by (simp add: min_def split: if_splits)
    then show ?thesis by (simp only: set_sort)
  qed
  show ?thesis
    unfolding contacts_spec_def
  proof (intro conjI)
    show "int (length xs) \<le> n" using assms by simp
    show "\<forall>j x. (j, x) \<in> set xs \<longrightarrow> j \<noteq> i \<and> (\<exists>u. t_users (md_abs d) j = Some u \<and> u_disabled_at u = None \<and> u_display_name u = x)"
      using sub l by (simp add: md_abs_def) blast
    show "int (length xs) < n \<longrightarrow> (\<forall>j u. t_users (md_abs d) j = Some u \<and> u_disabled_at u = None \<and> j \<noteq> i \<longrightarrow> j \<in> fst ` set xs)"
    proof (intro impI allI)
      fix j u assume a: "int (length xs) < n" "t_users (md_abs d) j = Some u \<and> u_disabled_at u = None \<and> j \<noteq> i"
      then have "(j, u_display_name u) \<in> set ?l" unfolding l by (auto simp: md_abs_def)
      then have "(j, u_display_name u) \<in> set xs" unfolding all [OF a(1)] .
      then show "j \<in> fst ` set xs" by (rule image_eqI [rotated]) simp
    qed
  qed (use d s in simp_all)
qed

lemma mem_rooms:
  assumes "0 \<le> n" "xs = take (nat n) (sort_key (\<lambda>(_, r, _). - r_created_at r)
    (concat (map (\<lambda>(i, r). case map_of (md_users d) (r_created_by r) of
       Some u \<Rightarrow> [(i, r, u_display_name u)] | None \<Rightarrow> []) (AList.clearjunk (md_rooms d)))))"
  shows "rooms_spec n (md_abs d) xs"
proof -
  let ?f = "\<lambda>(i, r). case map_of (md_users d) (r_created_by r) of Some u \<Rightarrow> [(i, r, u_display_name u)] | None \<Rightarrow> []"
  let ?l = "concat (map ?f (AList.clearjunk (md_rooms d)))"
  let ?k = "\<lambda>(_, r, _). - r_created_at r" let ?s = "sort_key ?k ?l"
  have l: "(j, r, x) \<in> set ?l \<longleftrightarrow> map_of (md_rooms d) j = Some r \<and>
      (\<exists>u. map_of (md_users d) (r_created_by r) = Some u \<and> u_display_name u = x)" for j r x
    unfolding clearjunk_mem [of j r "md_rooms d", symmetric]
    by (cases "map_of (md_users d) (r_created_by r)") (force split: option.splits)+
  have "distinct (map fst (concat (map ?f ks)))" and "fst ` set (concat (map ?f ks)) \<subseteq> fst ` set ks"
    if "distinct (map fst ks)" for ks :: "(string \<times> room_row) list"
    using that by (induction ks) (force split: option.splits)+
  then have "distinct (map fst ?l)" by simp
  then have "distinct (map fst ?s)" by (simp only: distinct_fst_sort)
  then have d: "distinct (map fst xs)" unfolding assms(2) take_map [symmetric] by (rule distinct_take)
  have "sorted_wrt (\<lambda>x y. ?k x \<le> ?k y) ?s" using sorted_sort_key [of ?k ?l] by (simp only: sorted_map)
  then have s: "sorted_wrt (\<lambda>x y. ?k x \<le> ?k y) xs" unfolding assms(2) by (rule sorted_wrt_take)
  have sub: "set xs \<subseteq> set ?l" unfolding assms(2) using set_take_subset [of "nat n" ?s] by (simp only: set_sort)
  have all: "set xs = set ?l" if "int (length xs) < n"
  proof -
    have "xs = ?s" using that assms by (simp add: min_def split: if_splits)
    then show ?thesis by (simp only: set_sort)
  qed
  show ?thesis
    unfolding rooms_spec_def
  proof (intro conjI)
    show "int (length xs) \<le> n" using assms by simp
    show "sorted_wrt (\<lambda>(_, r, _) (_, q, _). r_created_at q \<le> r_created_at r) xs"
      using s by (rule sorted_wrt_mono_rel [rotated]) auto
    show "\<forall>j r x. (j, r, x) \<in> set xs \<longrightarrow> t_rooms (md_abs d) j = Some r \<and> (\<exists>u. t_users (md_abs d) (r_created_by r) = Some u \<and> u_display_name u = x)"
      using sub l unfolding md_abs_def by simp blast
    show "int (length xs) < n \<longrightarrow> (\<forall>j r. t_rooms (md_abs d) j = Some r \<and> t_users (md_abs d) (r_created_by r) \<noteq> None \<longrightarrow> j \<in> fst ` set xs)"
    proof (intro impI allI)
      fix j r assume a: "int (length xs) < n" "t_rooms (md_abs d) j = Some r \<and> t_users (md_abs d) (r_created_by r) \<noteq> None"
      then obtain u where "map_of (md_users d) (r_created_by r) = Some u" by (auto simp: md_abs_def)
      then have "(j, r, u_display_name u) \<in> set ?l" using a(2) unfolding l by (auto simp: md_abs_def)
      then have "(j, r, u_display_name u) \<in> set xs" unfolding all [OF a(1)] .
      then show "j \<in> fst ` set xs" by (rule image_eqI [rotated]) simp
    qed
  qed (use d in simp)
qed

lemmas pm_defs = mem_pg_def pm_tables_def pm_view_def md_abs_def Let_def

lemmas pm_splits = option.splits if_splits prod.splits

lemma uuid_shape_ascii: "uuid_shape s \<Longrightarrow> is_ascii s"
proof -
  assume u: "uuid_shape s"
  have "byte (s ! i) < 0x80" if "i < length s" for i
  proof -
    have "i \<in> set [0..<36]" "length s = 36" using u that by (simp_all add: uuid_shape_def)
    then have "if i \<in> {8, 13, 18, 23} then s ! i = CHR ''-'' else hex_lower (s ! i)"
      using u unfolding uuid_shape_def list_all_iff by blast
    moreover have "byte (CHR ''-'') < 0x80" by (simp add: byte_def)
    moreover have "hex_lower c \<Longrightarrow> byte c < 0x80" for c unfolding hex_lower_def is_digit_def by linarith
    ultimately show ?thesis by (metis (full_types))
  qed
  then show ?thesis by (simp add: is_ascii_def list_all_length)
qed

interpretation mempg: postgres mem_pg pm_tables pm_view mem_uuid mem_ci text_leq
proof (unfold_locales, goal_cases)
  case (1 y i)
  then show ?case by (auto simp: mem_uuid_def Let_def uuid_shape_ascii split: if_splits)
next
  case (7 email name t s s' i u d)
  then show ?case by (auto simp: pm_defs list_ex_clearjunk pgdb_ops split: pm_splits)
next
  case (8 email name t s s' x d)
  then show ?case by (auto simp: pm_defs list_ex_clearjunk split: pm_splits) blast
next
  case (11 email t s s' re)
  then show ?case
    by (cases re) (auto simp: pm_defs find_clearjunk_None dest!: find_clearjunk_Some split: pm_splits)
next
  case (15 y n0 t s s' ks)
  then show ?case by (auto simp: mem_pg_def pm_tables_def intro!: mem_contacts split: pm_splits)
next
  case (23 slug name y t s s' i r)
  then show ?case by (auto simp: pm_defs list_ex_clearjunk pgdb_ops split: pm_splits)
next
  case (25 slug name y t s s')
  then show ?case by (auto simp: pm_defs list_ex_clearjunk split: pm_splits)
next
  case (26 slug t s s' ro1)
  then show ?case
    by (cases ro1) (auto simp: pm_defs find_clearjunk_None dest!: find_clearjunk_Some split: pm_splits)
next
  case (28 slug t s s' n)
  then show ?case
    by (auto simp: pm_defs pgdb_ops filter_clearjunk_Nil map_of_filter_clearjunk fun_eq_iff split: pm_splits) blast+
next
  case (30 n0 t s s' xs)
  then show ?case by (auto simp: mem_pg_def pm_tables_def intro!: mem_rooms split: pm_splits)
qed (auto simp: pm_defs pgdb_ops split: pm_splits)

end
