(* ===== verification/Rooms.thy ===== *)
theory Rooms
  imports MemPostgres
begin

text \<open>
  \<^verbatim>\<open>internal/rooms/store.go\<close> and \<^verbatim>\<open>service.go\<close>: room records and their generated slugs, over the database of
  \<open>Postgres\<close>.  Reads of random bytes are numbered: \<open>rand k\<close> is the \<open>k\<close>-th read, \<open>None\<close> when it fails.
\<close>

record Room =
  rm_ID :: string
  rm_Slug :: string
  rm_Name :: string
  rm_CreatedBy :: string
  rm_CreatedByName :: string
  rm_CreatedAt :: gotime

datatype room_op = InsertRoom | SelectRoom | DeleteRoom | SelectRooms | IterateRooms

datatype room_error = ErrNotFound | ErrSlugTaken | ErrInvalidName | GenerateSlug | NoUniqueSlug | RoomDbFailed room_op

definition scan_room :: "string \<Rightarrow> room_row \<Rightarrow> string \<Rightarrow> Room" where
  "scan_room i r creator = \<lparr>rm_ID = i, rm_Slug = r_slug r, rm_Name = r_name r, rm_CreatedBy = r_created_by r,
     rm_CreatedByName = creator, rm_CreatedAt = r_created_at r\<rparr>"

subsection \<open>The store\<close>

definition Store_Create :: "'p pg \<Rightarrow> string \<Rightarrow> string \<Rightarrow> string \<Rightarrow> gotime \<Rightarrow> 'p \<Rightarrow> 'p \<times> (room_error + Room)" where
  "Store_Create P createdBy slug name t s =
     (case pg_insert_room P slug name createdBy t s of
        (s', Inl UniqueViolation) \<Rightarrow> (s', Inl ErrSlugTaken)
      | (s', Inl PgError) \<Rightarrow> (s', Inl (RoomDbFailed InsertRoom))
      | (s', Inr (i, r)) \<Rightarrow> (s', Inr (scan_room i r [])))"

definition Store_BySlug :: "'p pg \<Rightarrow> string \<Rightarrow> gotime \<Rightarrow> 'p \<Rightarrow> 'p \<times> (room_error + Room)" where
  "Store_BySlug P slug t s =
     (case pg_select_room P slug t s of
        (s', Inl _) \<Rightarrow> (s', Inl (RoomDbFailed SelectRoom))
      | (s', Inr None) \<Rightarrow> (s', Inl ErrNotFound)
      | (s', Inr (Some (i, r))) \<Rightarrow> (s', Inr (scan_room i r [])))"

definition DeleteBySlug :: "'p pg \<Rightarrow> string \<Rightarrow> gotime \<Rightarrow> 'p \<Rightarrow> 'p \<times> room_error option" where
  "DeleteBySlug P slug t s =
     (case pg_delete_room P slug t s of
        (s', Inl _) \<Rightarrow> (s', Some (RoomDbFailed DeleteRoom))
      | (s', Inr n) \<Rightarrow> (s', if n = 0 then Some ErrNotFound else None))"

fun scan_rooms :: "(string \<times> room_row \<times> string) list \<Rightarrow> Room list" where
  "scan_rooms [] = []"
| "scan_rooms ((i, r, creator) # rows) = scan_room i r creator # scan_rooms rows"

definition Store_List :: "'p pg \<Rightarrow> int \<Rightarrow> gotime \<Rightarrow> 'p \<Rightarrow> 'p \<times> (room_error + Room list)" where
  "Store_List P n t s =
     (case pg_select_rooms P n t s of
        (s', Inl _) \<Rightarrow> (s', Inl (RoomDbFailed SelectRooms))
      | (s', Inr (rows, Some _)) \<Rightarrow> (s', Inl (RoomDbFailed IterateRooms))
      | (s', Inr (rows, None)) \<Rightarrow> (s', Inr (scan_rooms rows)))"

subsection \<open>The service\<close>

definition maxNameLength :: nat where "maxNameLength = 100"
definition listLimit :: int where "listLimit = 100"
definition slugAttempts :: nat where "slugAttempts = 5"
definition slugGroupSizes :: string where "slugGroupSizes = ''344''"
definition slugAlphabet :: string where "slugAlphabet = ''bcdfghjkmnpqrstvwxz23456789''"

type_synonym rand = "nat \<Rightarrow> (nat \<Rightarrow> char) option"

text \<open>One group per digit of \<^verbatim>\<open>slugGroupSizes\<close>, each from one read.\<close>

fun slug_groups :: "rand \<Rightarrow> nat \<Rightarrow> string \<Rightarrow> string list option" where
  "slug_groups rand k [] = Some []"
| "slug_groups rand k (sizeRune # sizes) =
     (case rand k of
        None \<Rightarrow> None
      | Some bytes \<Rightarrow>
          (let size = byte sizeRune - 48;
               buf = map (\<lambda>i. slugAlphabet ! (byte (bytes i) mod length slugAlphabet)) [0..<size]
           in map_option (\<lambda>groups. buf # groups) (slug_groups rand (Suc k) sizes)))"

definition generateSlug :: "rand \<Rightarrow> nat \<Rightarrow> string option" where
  "generateSlug rand k = map_option (join ''-'') (slug_groups rand k slugGroupSizes)"

fun create_attempts ::
    "'p pg \<Rightarrow> rand \<Rightarrow> nat \<Rightarrow> nat \<Rightarrow> string \<Rightarrow> string \<Rightarrow> gotime \<Rightarrow> 'p \<Rightarrow> 'p \<times> (room_error + Room)" where
  "create_attempts P rand k 0 createdBy name t s = (s, Inl NoUniqueSlug)"
| "create_attempts P rand k (Suc n) createdBy name t s =
     (case generateSlug rand k of
        None \<Rightarrow> (s, Inl GenerateSlug)
      | Some slug \<Rightarrow>
          (case Store_Create P createdBy slug name t s of
             (s', Inr room) \<Rightarrow> (s', Inr room)
           | (s', Inl x) \<Rightarrow>
               if x \<noteq> ErrSlugTaken then (s', Inl x)
               else create_attempts P rand (k + length slugGroupSizes) n createdBy name t s'))"

definition room_name :: "string \<Rightarrow> string" where
  "room_name name = (let name = trim_space name in if name = [] then ''New room'' else name)"

definition Rooms_Create :: "'p pg \<Rightarrow> rand \<Rightarrow> string \<Rightarrow> string \<Rightarrow> gotime \<Rightarrow> 'p \<Rightarrow> 'p \<times> (room_error + Room)" where
  "Rooms_Create P rand createdBy name t s =
     (let name = room_name name
      in if rune_count name > maxNameLength then (s, Inl ErrInvalidName)
         else create_attempts P rand 0 slugAttempts createdBy name t s)"

definition Rooms_BySlug :: "'p pg \<Rightarrow> (string \<Rightarrow> string) \<Rightarrow> string \<Rightarrow> gotime \<Rightarrow> 'p \<Rightarrow> 'p \<times> (room_error + Room)" where
  "Rooms_BySlug P ut slug t s = Store_BySlug P (to_lower ut (trim_space slug)) t s"

definition Rooms_Delete :: "'p pg \<Rightarrow> (string \<Rightarrow> string) \<Rightarrow> string \<Rightarrow> gotime \<Rightarrow> 'p \<Rightarrow> 'p \<times> room_error option" where
  "Rooms_Delete P ut slug t s = DeleteBySlug P (to_lower ut (trim_space slug)) t s"

definition Rooms_List :: "'p pg \<Rightarrow> gotime \<Rightarrow> 'p \<Rightarrow> 'p \<times> (room_error + Room list)" where
  "Rooms_List P t s = Store_List P listLimit t s"

subsection \<open>Slugs\<close>

definition slug_char :: "char \<Rightarrow> bool" where
  "slug_char c \<longleftrightarrow> c \<in> set slugAlphabet"

lemma slug_char_props: "slug_char c \<Longrightarrow> slug_start c \<and> lower_ascii c = c \<and> byte c < 0x80 \<and> c \<noteq> CHR ''-''"
proof -
  have "list_all (\<lambda>c. slug_start c \<and> lower_ascii c = c \<and> byte c < 0x80 \<and> c \<noteq> CHR ''-'') slugAlphabet"
    by (simp add: slugAlphabet_def slug_start_def is_digit_def byte_def lower_ascii_def)
  then show "slug_char c \<Longrightarrow> ?thesis" by (auto simp: slug_char_def list_all_iff)
qed

lemma dash_props: "lower_ascii (CHR ''-'') = CHR ''-'' \<and> byte (CHR ''-'') < 0x80"
  by (simp add: lower_ascii_def byte_def)

lemma slug_groups_spec:
  "slug_groups rand k sizes = Some gs \<Longrightarrow>
   map length gs = map (\<lambda>c. byte c - 48) sizes \<and> (\<forall>g\<in>set gs. list_all slug_char g)"
proof (induction sizes arbitrary: k gs)
  case (Cons c sizes)
  have "0 < length slugAlphabet" by (simp add: slugAlphabet_def)
  then have "slug_char (slugAlphabet ! (n mod length slugAlphabet))" for n
    unfolding slug_char_def by (intro nth_mem mod_less_divisor)
  with Cons show ?case by (auto simp: Let_def list_all_iff split: option.splits)
qed simp

lemma space_not_slug: "q \<in> set space_encodings \<Longrightarrow> d \<in> set q \<Longrightarrow> \<not> slug_start d \<and> d \<noteq> CHR ''-''"
proof -
  have "list_all (list_all (\<lambda>d. \<not> slug_start d \<and> d \<noteq> CHR ''-'')) space_encodings"
    by (simp add: space_encodings_def slug_start_def is_digit_def byte_def)
  then show "q \<in> set space_encodings \<Longrightarrow> d \<in> set q \<Longrightarrow> ?thesis" unfolding list_all_iff by blast
qed

text \<open>Three groups of characters of the alphabet, 3-4-4, joined by dashes.\<close>

lemma generateSlug_shape:
  assumes "generateSlug rand k = Some slug"
  shows "\<exists>a b c. slug = a @ ''-'' @ b @ ''-'' @ c \<and> length a = 3 \<and> length b = 4 \<and> length c = 4 \<and> list_all slug_char (a @ b @ c)"
proof -
  obtain gs where gs: "slug_groups rand k slugGroupSizes = Some gs" "slug = join ''-'' gs"
    using assms by (auto simp: generateSlug_def)
  have "map length gs = [3, 4, 4]" using slug_groups_spec [OF gs(1)] by (simp add: slugGroupSizes_def byte_def)
  then obtain a b c where abc: "gs = [a, b, c]" "length a = 3" "length b = 4" "length c = 4" by (auto simp: map_eq_Cons_conv)
  then show ?thesis using slug_groups_spec [OF gs(1)] gs(2) by auto
qed

lemma generateSlug_total: "(\<And>k. rand k \<noteq> None) \<Longrightarrow> \<exists>slug. generateSlug rand k = Some slug"
proof -
  assume r: "\<And>k. rand k \<noteq> None"
  have "\<exists>gs. slug_groups rand k sizes = Some gs" for k sizes
  proof (induction sizes arbitrary: k)
    case (Cons c sizes)
    then obtain gs where "slug_groups rand (Suc k) sizes = Some gs" by blast
    with r [of k] show ?case by (auto simp: Let_def)
  qed simp
  then show ?thesis unfolding generateSlug_def by (metis option.simps(9))
qed

lemma slug_start_props: "slug_start c \<or> c = CHR ''-'' \<Longrightarrow> lower_ascii c = c \<and> byte c < 0x80"
  using dash_props by (auto simp: slug_start_def is_digit_def lower_ascii_def)

lemma slug_format_chars: "slug_format s \<Longrightarrow> d \<in> set s \<Longrightarrow> slug_start d \<or> d = CHR ''-''"
  by (cases s) (auto simp: slug_format_def list_all_iff)

text \<open>What passes the format check is already in canonical spelling.\<close>

lemma slug_format_canonical:
  assumes "slug_format s"
  shows "to_lower ut (trim_space s) = s" "is_ascii s"
proof -
  have p: "\<forall>d\<in>set s. lower_ascii d = d \<and> byte d < 0x80" using slug_format_chars [OF assms] slug_start_props by blast
  then show ascii: "is_ascii s" by (simp add: is_ascii_def list_all_iff)
  have "trim_space s = s"
  proof (rule trim_space_id, rule ballI)
    fix q assume q: "q \<in> set space_encodings"
    then have "hd q \<in> set q" using space_encodings_nonempty by simp
    moreover from this have "hd q \<notin> set s" using space_not_slug [OF q] slug_format_chars [OF assms] by blast
    ultimately show "\<not> prefix q s \<and> \<not> suffix q s"
      using set_mono_prefix [of q s] set_mono_suffix [of q s] by blast
  qed
  then show "to_lower ut (trim_space s) = s" using ascii p by (simp add: to_lower_ascii map_idI)
qed

lemma generated_canonical:
  assumes "generateSlug rand k = Some slug"
  shows "slug_format slug" "to_lower ut (trim_space slug) = slug" "length slug = 13" "is_ascii slug"
proof -
  obtain a b c where abc: "slug = a @ ''-'' @ b @ ''-'' @ c" "length a = 3" "length b = 4" "length c = 4" "list_all slug_char (a @ b @ c)"
    using generateSlug_shape [OF assms] by blast
  obtain x as where a: "a = x # as" using abc(2) by (cases a) auto
  have "slug_start d \<or> d = CHR ''-''" if "d \<in> set (tl slug)" for d
    using that abc(1,5) a slug_char_props by (auto simp: list_all_iff)
  moreover have "slug_start (hd slug)" using abc(1,5) a slug_char_props by simp
  ultimately show f: "slug_format slug" using abc by (simp add: slug_format_def list_all_iff)
  show "to_lower ut (trim_space slug) = slug" "is_ascii slug" using slug_format_canonical [OF f] by auto
  show "length slug = 13" using abc by simp
qed

end
