(* ===== verification/RoomProps.thy ===== *)
theory RoomProps
  imports Rooms
begin

text \<open>What the room operations do to the tables, for any database with the promised behaviour, and the
  properties of the room service.\<close>

definition slug_taken :: "string \<Rightarrow> pgdb \<Rightarrow> bool" where
  "slug_taken slug d \<longleftrightarrow> (\<exists>j q. t_rooms d j = Some q \<and> r_slug q = slug)"

definition new_room :: "(string \<Rightarrow> string option) \<Rightarrow> string \<Rightarrow> string \<Rightarrow> string \<Rightarrow> string \<Rightarrow> room_row \<Rightarrow> pgdb \<Rightarrow> bool" where
  "new_room uuid_in y slug name i r d \<longleftrightarrow> t_rooms d i = None \<and> \<not> slug_taken slug d \<and> r_slug r = slug \<and> r_name r = name \<and>
     uuid_in y = Some (r_created_by r) \<and> t_users d (r_created_by r) \<noteq> None \<and> slug_format slug \<and> name_length_ok name"

lemma del_room_gone: "\<not> slug_taken slug (del_room slug d)"
  by (auto simp: slug_taken_def del_room_def split: option.splits if_splits)

context postgres
begin

lemma Store_Create_spec:
  assumes "Store_Create P y slug name t s = (s', r)"
  obtains (unchanged) x where "r = Inl x" "tables s' = tables s" "x = ErrSlugTaken \<Longrightarrow> slug_taken slug (tables s)"
    "x \<noteq> NoUniqueSlug"
  | (created) i q where "new_room uuid_in y slug name i q (tables s)" "tables s' = add_room i q (tables s)"
      "r = Inr (scan_room i q []) \<or> r = Inl (RoomDbFailed InsertRoom)"
proof -
  obtain v where v: "pg_insert_room P slug name y t s = (s', v)"
    using assms by (auto simp: Store_Create_def split: prod.splits sum.splits pg_error.splits)
  show ?thesis
  proof (cases v)
    case (Inr iq)
    obtain i q where iq: "v = Inr (i, q)" using Inr by (cases iq) auto
    have "new_room uuid_in y slug name i q (tables s)" "tables s' = add_room i q (tables s)"
      using insert_room_ok [OF v [unfolded iq]] by (auto simp: new_room_def slug_taken_def) (metis room_row.select_convs)+
    then show ?thesis using created assms v iq by (auto simp: Store_Create_def)
  next
    case (Inl x)
    have r: "r = Inl (case x of UniqueViolation \<Rightarrow> ErrSlugTaken | PgError \<Rightarrow> RoomDbFailed InsertRoom)"
      using assms v Inl by (cases x) (auto simp: Store_Create_def)
    show ?thesis
    proof (cases x)
      case UniqueViolation
      then show ?thesis
        using insert_room_unique [of slug name y t s s'] v Inl r unchanged [of ErrSlugTaken] by (auto simp: slug_taken_def)
    next
      case PgError
      then show ?thesis
        using insert_room_err [OF v [unfolded Inl]] r unchanged [of "RoomDbFailed InsertRoom"] created
        by (auto simp: new_room_def slug_taken_def)
    qed
  qed
qed

lemma create_attempts_step:
  assumes "create_attempts P rand k (Suc n) y name t s = (s', r)"
  obtains (failed) x where "r = Inl x" "tables s' = tables s" "x \<noteq> NoUniqueSlug"
  | (created) slug i q where "generateSlug rand k = Some slug" "new_room uuid_in y slug name i q (tables s)"
      "tables s' = add_room i q (tables s)" "r = Inr (scan_room i q []) \<or> r = Inl (RoomDbFailed InsertRoom)"
  | (again) slug s1 where "generateSlug rand k = Some slug" "slug_taken slug (tables s)" "tables s1 = tables s"
      "create_attempts P rand (k + 3) n y name t s1 = (s', r)"
proof (cases "generateSlug rand k")
  case None
  then show ?thesis using assms failed [of GenerateSlug] by auto
next
  case (Some slug)
  obtain s1 v where v: "Store_Create P y slug name t s = (s1, v)" by fastforce
  from v show ?thesis
  proof (cases rule: Store_Create_spec)
    case (unchanged x)
    have k: "k + length slugGroupSizes = k + 3" by (simp add: slugGroupSizes_def)
    show ?thesis
    proof (cases "x = ErrSlugTaken")
      case True
      then show ?thesis using assms Some v unchanged again [OF Some, of s1] by (simp add: k)
    next
      case False
      then show ?thesis using assms Some v unchanged failed [of x] by simp
    qed
  next
    case (created i q)
    then show ?thesis using assms Some v that(2) [OF Some] by auto
  qed
qed

lemma create_attempts_spec:
  assumes "create_attempts P rand k n y name t s = (s', r)"
  shows "(\<exists>x. r = Inl x \<and> tables s' = tables s) \<or>
    (\<exists>slug i q j. generateSlug rand j = Some slug \<and> new_room uuid_in y slug name i q (tables s) \<and>
       tables s' = add_room i q (tables s) \<and> (r = Inr (scan_room i q []) \<or> r = Inl (RoomDbFailed InsertRoom)))"
  using assms
proof (induction n arbitrary: k s)
  case (Suc n)
  from Suc.prems show ?case
  proof (cases rule: create_attempts_step)
    case (again slug s1)
    then show ?thesis using Suc.IH [OF again(4)] by simp
  qed blast+
qed auto

lemma create_attempts_exhausted:
  assumes "create_attempts P rand k n y name t s = (s', Inl NoUniqueSlug)" "m < n"
  shows "\<exists>slug. generateSlug rand (k + 3 * m) = Some slug \<and> slug_taken slug (tables s)"
  using assms
proof (induction n arbitrary: k s m)
  case (Suc n)
  from Suc.prems(1) show ?case
  proof (cases rule: create_attempts_step)
    case (again slug s1)
    then show ?thesis using Suc.IH [OF again(4), of "m - 1"] Suc.prems(2) by (cases m) (simp_all add: algebra_simps)
  qed auto
qed simp

lemma BySlug_found:
  assumes "Rooms_BySlug P ut x t s = (s', r)" "t_rooms (tables s) i = Some q" "to_lower ut (trim_space x) = r_slug q"
    and "\<And>j q'. t_rooms (tables s) j = Some q' \<Longrightarrow> r_slug q' = r_slug q \<Longrightarrow> j = i"
  shows "r = Inr (scan_room i q []) \<or> r = Inl (RoomDbFailed SelectRoom)"
proof -
  obtain v where v: "pg_select_room P (r_slug q) t s = (s', v)"
    using assms(1,3) by (auto simp: Rooms_BySlug_def Store_BySlug_def split: prod.splits sum.splits option.splits)
  show ?thesis
  proof (cases v)
    case (Inr z)
    have "z = Some (i, q)"
    proof (cases z)
      case None
      then show ?thesis using room_ok [OF v [unfolded Inr]] assms(2) by auto
    next
      case (Some jq)
      obtain j q' where "z = Some (j, q')" using Some by (cases jq) auto
      then show ?thesis using room_ok [OF v [unfolded Inr]] assms(2) assms(4) [of j q'] by simp
    qed
    then show ?thesis using assms(1,3) v Inr by (simp add: Rooms_BySlug_def Store_BySlug_def)
  qed (use assms(1,3) v in \<open>simp add: Rooms_BySlug_def Store_BySlug_def\<close>)
qed

lemma BySlug_missing:
  assumes "Rooms_BySlug P ut x t s = (s', r)" "\<not> slug_taken (to_lower ut (trim_space x)) (tables s)"
  shows "r = Inl ErrNotFound \<or> r = Inl (RoomDbFailed SelectRoom)"
proof -
  obtain v where v: "pg_select_room P (to_lower ut (trim_space x)) t s = (s', v)"
    using assms(1) by (auto simp: Rooms_BySlug_def Store_BySlug_def split: prod.splits sum.splits option.splits)
  show ?thesis
  proof (cases v)
    case (Inr z)
    from room_ok [OF v [unfolded Inr]] assms(2) have "z = None" by (auto simp: slug_taken_def split: option.splits)
    then show ?thesis using assms(1) v Inr by (simp add: Rooms_BySlug_def Store_BySlug_def)
  qed (use assms(1) v in \<open>simp add: Rooms_BySlug_def Store_BySlug_def\<close>)
qed

lemma Delete_spec:
  assumes "Rooms_Delete P ut x t s = (s', r)"
  shows "r = None \<Longrightarrow> tables s' = del_room (to_lower ut (trim_space x)) (tables s)"
    and "slug_taken (to_lower ut (trim_space x)) (tables s) \<Longrightarrow> r = None \<or> r = Some (RoomDbFailed DeleteRoom)"
    and "\<not> slug_taken (to_lower ut (trim_space x)) (tables s) \<Longrightarrow> r = Some ErrNotFound \<or> r = Some (RoomDbFailed DeleteRoom)"
    and "tables s' = tables s \<or> tables s' = del_room (to_lower ut (trim_space x)) (tables s)"
proof -
  obtain v where v: "pg_delete_room P (to_lower ut (trim_space x)) t s = (s', v)"
    using assms by (auto simp: Rooms_Delete_def DeleteBySlug_def split: prod.splits sum.splits)
  have r: "r = (case v of Inl _ \<Rightarrow> Some (RoomDbFailed DeleteRoom) | Inr n \<Rightarrow> if n = 0 then Some ErrNotFound else None)"
    using assms v by (auto simp: Rooms_Delete_def DeleteBySlug_def split: sum.splits)
  show "r = None \<Longrightarrow> tables s' = del_room (to_lower ut (trim_space x)) (tables s)"
    "slug_taken (to_lower ut (trim_space x)) (tables s) \<Longrightarrow> r = None \<or> r = Some (RoomDbFailed DeleteRoom)"
    "\<not> slug_taken (to_lower ut (trim_space x)) (tables s) \<Longrightarrow> r = Some ErrNotFound \<or> r = Some (RoomDbFailed DeleteRoom)"
    using v r by (auto simp: slug_taken_def split: sum.splits if_splits dest: delete_ok)
  show "tables s' = tables s \<or> tables s' = del_room (to_lower ut (trim_space x)) (tables s)"
    using delete_cases [OF v] .
qed

lemma created_room:
  assumes "Rooms_Create P rand y name t s = (s1, Inr room)"
  shows "\<exists>slug i q j. generateSlug rand j = Some slug \<and> new_room uuid_in y slug (room_name name) i q (tables s) \<and>
    tables s1 = add_room i q (tables s) \<and> room = scan_room i q []"
  using assms create_attempts_spec by (fastforce simp: Rooms_Create_def Let_def split: if_splits)

lemma del_new_room:
  "new_room uuid_in y slug name i q d \<Longrightarrow> t_rooms (del_room slug (add_room i q d)) = t_rooms d"
  by (auto simp: new_room_def slug_taken_def pgdb_ops fun_eq_iff split: option.splits)

lemma room_life:
  assumes "Rooms_Create P rand y name t s = (s1, Inr room)"
    and "to_lower ut (trim_space x) = rm_Slug room" "Rooms_Delete P ut x t' s1 = (s2, e)"
  shows "uuid_in y = Some (rm_CreatedBy room) \<and> rm_Name room = room_name name \<and>
    snd (Rooms_BySlug P ut x t' s1) \<in> {Inr room, Inl (RoomDbFailed SelectRoom)} \<and>
    e \<in> {None, Some (RoomDbFailed DeleteRoom)} \<and>
    (e = None \<longrightarrow> t_rooms (tables s2) = t_rooms (tables s) \<and>
       snd (Rooms_BySlug P ut x t'' s2) \<in> {Inl ErrNotFound, Inl (RoomDbFailed SelectRoom)} \<and>
       snd (Rooms_Delete P ut x t'' s2) \<in> {Some ErrNotFound, Some (RoomDbFailed DeleteRoom)})"
proof -
  obtain slug i q where n: "new_room uuid_in y slug (room_name name) i q (tables s)"
    "tables s1 = add_room i q (tables s)" "room = scan_room i q []"
    using created_room [OF assms(1)] by blast
  have x: "to_lower ut (trim_space x) = slug" "r_slug q = slug" using n assms(2) by (simp_all add: new_room_def scan_room_def)
  have i: "t_rooms (tables s1) i = Some q" using n by (simp add: add_room_def)
  have "j = i" if "t_rooms (tables s1) j = Some q'" "r_slug q' = r_slug q" for j q'
    using that n x by (auto simp: add_room_def new_room_def slug_taken_def split: if_splits)
  from BySlug_found [OF prod.collapse [symmetric] i _ this] have 1: "snd (Rooms_BySlug P ut x t' s1) \<in> {Inr room, Inl (RoomDbFailed SelectRoom)}"
    using x n(3) by auto
  have "slug_taken slug (tables s1)" using i x by (auto simp: slug_taken_def)
  then have 2: "e \<in> {None, Some (RoomDbFailed DeleteRoom)}" using Delete_spec(2) [OF assms(3)] x by auto
  have 3: "t_rooms (tables s2) = t_rooms (tables s) \<and> \<not> slug_taken slug (tables s2)" if "e = None"
    using Delete_spec(1) [OF assms(3) that] x n(2) del_new_room [OF n(1)] del_room_gone by simp
  obtain s3 r3 s4 r4 where *: "Rooms_BySlug P ut x t'' s2 = (s3, r3)" "Rooms_Delete P ut x t'' s2 = (s4, r4)" by fastforce
  show ?thesis
    using n 1 2 3 * BySlug_missing [OF *(1)] Delete_spec(3) [OF *(2)] x by (auto simp: new_room_def scan_room_def)
qed

end

subsection \<open>Properties\<close>

definition demo_owner :: string where
  "demo_owner = ''00000000-0000-4000-8000-000000000007''"

definition demo_pg :: mempg where
  "demo_pg = \<lparr>pm_db = \<lparr>md_users = [(demo_owner, \<lparr>u_email = ''a@b.c'', u_display_name = ''A'', u_email_verified = False,
     u_disabled_at = None, u_created_at = 0\<rparr>)], md_creds = [], md_rooms = [], md_events = []\<rparr>, pm_work = None,
     pm_next = 1, pm_up = True\<rparr>"

definition demo_rand :: rand where
  "demo_rand k = Some (\<lambda>i. char_of (7 * k + i))"

lemma demo_owner_uuid: "mem_uuid demo_owner = Some demo_owner"
  by (simp add: mem_uuid_def demo_owner_def uuid_shape_def hex_lower_def is_digit_def byte_def lower_ascii_def upt_rec)

lemma demo_slug: "generateSlug demo_rand 0 = Some ''bcd-kmnp-tvwx''"
  by (simp add: generateSlug_def slugGroupSizes_def demo_rand_def slugAlphabet_def byte_def upt_rec)

text \<open>C30. Every generated slug is three groups of 3, 4 and 4 characters of the alphabet joined by dashes; it passes the
  format check of the table, is its own canonical spelling, so a lookup of it is not altered by trimming
  and lower-casing, and whenever random bytes are available there is one.\<close>

theorem slug_wellformed:
  "(\<forall>slug. generateSlug rand k = Some slug \<longrightarrow>
      (\<exists>a b c. slug = a @ ''-'' @ b @ ''-'' @ c \<and> length a = 3 \<and> length b = 4 \<and> length c = 4 \<and> set (a @ b @ c) \<subseteq> set slugAlphabet) \<and>
      slug_format slug \<and> to_lower ut (trim_space slug) = slug) \<and>
   ((\<forall>j. rand j \<noteq> None) \<longrightarrow> (\<exists>slug. generateSlug rand k = Some slug))"
proof (intro conjI allI impI)
  fix slug
  assume g: "generateSlug rand k = Some slug"
  obtain a b c where "slug = a @ ''-'' @ b @ ''-'' @ c" "length a = 3" "length b = 4" "length c = 4" "list_all slug_char (a @ b @ c)"
    using generateSlug_shape [OF g] by blast
  moreover from this have "set (a @ b @ c) \<subseteq> set slugAlphabet" by (auto simp: list_all_iff slug_char_def)
  ultimately show "\<exists>a b c. slug = a @ ''-'' @ b @ ''-'' @ c \<and> length a = 3 \<and> length b = 4 \<and> length c = 4 \<and>
      set (a @ b @ c) \<subseteq> set slugAlphabet" by blast
  show "slug_format slug" "to_lower ut (trim_space slug) = slug" using generated_canonical [OF g] by blast+
next
  assume "\<forall>j. rand j \<noteq> None"
  then show "\<exists>slug. generateSlug rand k = Some slug" by (intro generateSlug_total) blast
qed

theorem slug_wellformed_witness:
  "generateSlug demo_rand 0 = Some ''bcd-kmnp-tvwx'' \<and> slug_format ''bcd-kmnp-tvwx'' \<and>
   (\<exists>slug. generateSlug demo_rand 9 = Some slug)"
proof -
  have "\<forall>j. demo_rand j \<noteq> None" by (simp add: demo_rand_def)
  then show ?thesis
    using slug_wellformed [of demo_rand 0 "\<lambda>x. x"] slug_wellformed [of demo_rand 9 "\<lambda>x. x"] demo_slug by blast
qed

lemma demo_create_delete:
  "\<exists>s1. Rooms_Create mem_pg demo_rand demo_owner ''  '' 5 demo_pg = (s1, Inr \<lparr>rm_ID = ''00000000-0000-4000-8000-000000000001'',
      rm_Slug = ''bcd-kmnp-tvwx'', rm_Name = ''New room'', rm_CreatedBy = demo_owner, rm_CreatedByName = [], rm_CreatedAt = 5\<rparr>) \<and>
    Rooms_Delete mem_pg (\<lambda>x. x) ''bcd-kmnp-tvwx'' 6 s1 = (fst (Rooms_Delete mem_pg (\<lambda>x. x) ''bcd-kmnp-tvwx'' 6 s1), None) \<and>
    snd (Rooms_BySlug mem_pg (\<lambda>x. x) ''bcd-kmnp-tvwx'' 7 (fst (Rooms_Delete mem_pg (\<lambda>x. x) ''bcd-kmnp-tvwx'' 6 s1))) \<noteq>
      Inl (RoomDbFailed SelectRoom)"
proof -
  have t: "trim_space ''  '' = []" by (simp add: trim_space_def trim_left.simps trim_rev.simps space_encodings_def)
  have n: "rune_count ''New room'' = 8" by (simp add: rune_count_ascii is_ascii_def byte_def)
  have u: "to_lower (\<lambda>x. x) (trim_space ''bcd-kmnp-tvwx'') = ''bcd-kmnp-tvwx''" "slug_format ''bcd-kmnp-tvwx''"
    using generated_canonical [OF demo_slug] by blast+
  have f: "fresh_id demo_pg = ''00000000-0000-4000-8000-000000000001''"
    by code_simp
  let ?name = "''New room''" and ?slug = "''bcd-kmnp-tvwx''" and ?id = "''00000000-0000-4000-8000-000000000001''"
  let ?r = "\<lparr>r_slug = ?slug, r_name = ?name, r_created_by = demo_owner, r_created_at = 5\<rparr>"
  let ?s1 = "demo_pg\<lparr>pm_db := (pm_db demo_pg)\<lparr>md_rooms := [(?id, ?r)]\<rparr>, pm_next := 2\<rparr>"
  have "Store_Create mem_pg demo_owner ?slug ?name 5 demo_pg = (?s1, Inr (scan_room ?id ?r []))"
    using f n u(2) by (simp add: Store_Create_def mem_pg_def demo_owner_uuid Let_def demo_pg_def name_length_ok_def numeral_2_eq_2)
  then have "create_attempts mem_pg demo_rand 0 (Suc 4) demo_owner ?name 5 demo_pg = (?s1, Inr (scan_room ?id ?r []))"
    unfolding create_attempts.simps demo_slug by simp
  then have c: "Rooms_Create mem_pg demo_rand demo_owner ''  '' 5 demo_pg = (?s1, Inr (scan_room ?id ?r []))"
    by (simp add: Rooms_Create_def room_name_def t n Let_def maxNameLength_def slugAttempts_def)
  have d: "snd (Rooms_Delete mem_pg (\<lambda>x. x) ?slug 6 ?s1) = None"
    unfolding Rooms_Delete_def u(1) by (simp add: DeleteBySlug_def mem_pg_def demo_pg_def Let_def)
  have "snd (Rooms_BySlug mem_pg (\<lambda>x. x) ?slug 7 (fst (Rooms_Delete mem_pg (\<lambda>x. x) ?slug 6 ?s1))) \<noteq> Inl (RoomDbFailed SelectRoom)"
    unfolding Rooms_Delete_def Rooms_BySlug_def u(1)
    by (simp add: DeleteBySlug_def Store_BySlug_def mem_pg_def demo_pg_def Let_def)
  with c d show ?thesis by (auto simp: scan_room_def prod_eq_iff)
qed

text \<open>C31. The life of a room: a created room has the caller as owner and the trimmed name, or the default one;
  any spelling of its slug that differs in case and surrounding space resolves to exactly that room; after a
  successful deletion the slug resolves to nothing, a second deletion reports not found, and every other
  room is as it was.\<close>

theorem room_lifecycle:
  assumes "postgres P tables work uuid_in ci text_le" "Rooms_Create P rand y name t s = (s1, Inr room)"
    and "to_lower ut (trim_space x) = rm_Slug room" "Rooms_Delete P ut x t' s1 = (s2, e)"
  shows "uuid_in y = Some (rm_CreatedBy room) \<and> rm_Name room = room_name name \<and>
    snd (Rooms_BySlug P ut x t' s1) \<in> {Inr room, Inl (RoomDbFailed SelectRoom)} \<and>
    e \<in> {None, Some (RoomDbFailed DeleteRoom)} \<and>
    (e = None \<longrightarrow> t_rooms (tables s2) = t_rooms (tables s) \<and>
       snd (Rooms_BySlug P ut x t'' s2) \<in> {Inl ErrNotFound, Inl (RoomDbFailed SelectRoom)} \<and>
       snd (Rooms_Delete P ut x t'' s2) \<in> {Some ErrNotFound, Some (RoomDbFailed DeleteRoom)})"
  by (rule postgres.room_life [OF assms])

theorem room_lifecycle_witness:
  "\<exists>s1 s2. Rooms_Create mem_pg demo_rand demo_owner ''  '' 5 demo_pg = (s1, Inr \<lparr>rm_ID = ''00000000-0000-4000-8000-000000000001'',
      rm_Slug = ''bcd-kmnp-tvwx'', rm_Name = ''New room'', rm_CreatedBy = demo_owner, rm_CreatedByName = [], rm_CreatedAt = 5\<rparr>) \<and>
     Rooms_Delete mem_pg (\<lambda>x. x) ''bcd-kmnp-tvwx'' 6 s1 = (s2, None) \<and>
     snd (Rooms_BySlug mem_pg (\<lambda>x. x) ''bcd-kmnp-tvwx'' 7 s2) = Inl ErrNotFound"
proof -
  let ?room = "\<lparr>rm_ID = ''00000000-0000-4000-8000-000000000001'', rm_Slug = ''bcd-kmnp-tvwx'', rm_Name = ''New room'',
    rm_CreatedBy = demo_owner, rm_CreatedByName = [], rm_CreatedAt = 5\<rparr>"
  have u: "to_lower (\<lambda>x. x) (trim_space ''bcd-kmnp-tvwx'') = rm_Slug ?room" using generated_canonical(2) [OF demo_slug] by simp
  obtain s1 where c: "Rooms_Create mem_pg demo_rand demo_owner ''  '' 5 demo_pg = (s1, Inr ?room)"
    and d: "Rooms_Delete mem_pg (\<lambda>x. x) ''bcd-kmnp-tvwx'' 6 s1 = (fst (Rooms_Delete mem_pg (\<lambda>x. x) ''bcd-kmnp-tvwx'' 6 s1), None)"
    and n: "snd (Rooms_BySlug mem_pg (\<lambda>x. x) ''bcd-kmnp-tvwx'' 7 (fst (Rooms_Delete mem_pg (\<lambda>x. x) ''bcd-kmnp-tvwx'' 6 s1))) \<noteq>
      Inl (RoomDbFailed SelectRoom)"
    using demo_create_delete by blast
  have "snd (Rooms_BySlug mem_pg (\<lambda>x. x) ''bcd-kmnp-tvwx'' 7 (fst (Rooms_Delete mem_pg (\<lambda>x. x) ''bcd-kmnp-tvwx'' 6 s1))) = Inl ErrNotFound"
    using room_lifecycle [OF mempg.postgres_axioms c u d, of 7] n by blast
  then show ?thesis using c d by blast
qed

end
