(* ===== verification/AccountProps.thy ===== *)
theory AccountProps
  imports Users RoomProps
begin

text \<open>
  The accounts as a system: every operation of the two stores, at non-decreasing times and with any call
  failing, keeps the schema and never leaves an account without its credential.  The abstract specification
  is a directory of accounts \<open>(id, row, hash)\<close> with three moves: nothing, one more account under an unused
  address, a new hash for an existing account.
\<close>

subsection \<open>The operations as steps\<close>

inductive db_step :: "'p pg \<Rightarrow> 'p \<Rightarrow> 'p \<Rightarrow> bool" for P :: "'p pg" where
  register: "UserStore_Create P email name h t s = (s', r) \<Longrightarrow> db_step P s s'"
| by_email: "ByEmailWithCredential P email t s = (s', r') \<Longrightarrow> db_step P s s'"
| by_id: "ByID P i t s = (s', r) \<Longrightarrow> db_step P s s'"
| contacts: "Contacts P i n t s = (s', rc) \<Longrightarrow> db_step P s s'"
| credential: "CredentialByUserID P i t s = (s', rh) \<Longrightarrow> db_step P s s'"
| update: "UpdatePassword P i h t s = (s', e) \<Longrightarrow> db_step P s s'"
| record_event: "RecordEvent P parse_ip ev t s = (s', e) \<Longrightarrow> db_step P s s'"
| room_create: "Rooms_Create P rand i name t s = (s', rr) \<Longrightarrow> db_step P s s'"
| room_get: "Rooms_BySlug P ut slug t s = (s', rr) \<Longrightarrow> db_step P s s'"
| room_delete: "Rooms_Delete P ut slug t s = (s', re) \<Longrightarrow> db_step P s s'"
| room_list: "Rooms_List P t s = (s', rl) \<Longrightarrow> db_step P s s'"

inductive db_reach :: "'p pg \<Rightarrow> ('p \<Rightarrow> pgdb) \<Rightarrow> 'p \<Rightarrow> bool" for P :: "'p pg" and tables :: "'p \<Rightarrow> pgdb" where
  empty: "t_users (tables s) = (\<lambda>_. None) \<Longrightarrow> t_creds (tables s) = (\<lambda>_. None) \<Longrightarrow> t_rooms (tables s) = (\<lambda>_. None) \<Longrightarrow>
    db_reach P tables s"
| step: "db_reach P tables s \<Longrightarrow> db_step P s s' \<Longrightarrow> db_reach P tables s'"

text \<open>What a step can do to the tables.\<close>

inductive table_move :: "(string \<Rightarrow> string option) \<Rightarrow> (string \<Rightarrow> string) \<Rightarrow> pgdb \<Rightarrow> pgdb \<Rightarrow> bool"
  for uuid_in :: "string \<Rightarrow> string option" and ci :: "string \<Rightarrow> string" where
  same: "table_move uuid_in ci d d"
| account: "new_account uuid_in ci email name h i u d \<Longrightarrow> table_move uuid_in ci d (set_cred i h (add_user i u d))"
| rehash: "t_creds d i \<noteq> None \<Longrightarrow> table_move uuid_in ci d (set_cred i h d)"
| event: "table_move uuid_in ci d (add_event e d)"
| room: "new_room uuid_in y slug name i q d \<Longrightarrow> table_move uuid_in ci d (add_room i q d)"
| unroom: "table_move uuid_in ci d (del_room slug d)"

lemmas move_intros = table_move.intros

context postgres
begin

lemma step_moves: "db_step P s s' \<Longrightarrow> table_move uuid_in ci (tables s) (tables s')"
proof (induction rule: db_step.induct)
  case (register email name h t s s' r)
  then show ?case by (cases rule: create_spec) (auto intro: move_intros)
next
  case (update i h t s s' e)
  then show ?case using Update_spec(1) by (metis move_intros(1,3))
next
  case (record_event parse_ip ev t s s' e)
  then show ?case using Record_spec by (metis move_intros(1,4))
next
  case (room_create rand i name t s s' rr)
  then show ?case
    using create_attempts_spec by (fastforce simp: Rooms_Create_def Let_def intro: move_intros split: if_splits)
next
  case (room_get ut slug t s s' rr)
  then have "tables s' = tables s"
    by (auto simp: Rooms_BySlug_def Store_BySlug_def dest: room_keeps split: prod.splits sum.splits option.splits)
  then show ?case by (simp add: same)
next
  case (room_delete ut slug t s s' re)
  then show ?case using Delete_spec(4) by (metis move_intros(1,6))
next
  case (room_list t s s' rl)
  then have "tables s' = tables s"
    by (auto simp: Rooms_List_def Store_List_def dest: rooms_any split: prod.splits sum.splits option.splits)
  then show ?case by (simp add: same)
qed (use ByEmail_spec(1) ByID_spec(1) Contacts_keeps Credential_spec in \<open>metis same\<close>)+

end

subsection \<open>Moves keep the schema\<close>

definition accounts_ok :: "(string \<Rightarrow> string option) \<Rightarrow> (string \<Rightarrow> string) \<Rightarrow> pgdb \<Rightarrow> bool" where
  "accounts_ok uuid_in ci d \<longleftrightarrow> schema_ok uuid_in ci d \<and> whole d"

lemmas clause_defs = user_rows_ok_def emails_unique_def creds_owned_def room_rows_ok_def slugs_unique_def whole_def

lemma schema_cong:
  "t_users d' = t_users d \<Longrightarrow> t_creds d' = t_creds d \<Longrightarrow> t_rooms d' = t_rooms d \<Longrightarrow> accounts_ok uuid_in ci d' = accounts_ok uuid_in ci d"
  by (simp add: accounts_ok_def schema_ok_def clause_defs)

lemma account_ok:
  assumes ok: "accounts_ok uuid_in ci d" and n: "new_account uuid_in ci email name h i u d"
  shows "accounts_ok uuid_in ci (set_cred i h (add_user i u d))"
proof -
  let ?d = "set_cred i h (add_user i u d)"
  have t: "t_users ?d = (t_users d)(i \<mapsto> u)" "t_creds ?d = (t_creds d)(i \<mapsto> h)" "t_rooms ?d = t_rooms d"
    by (simp_all add: pgdb_ops)
  note o = ok [unfolded accounts_ok_def schema_ok_def]
  have "user_rows_ok uuid_in ?d" using o n by (simp add: user_rows_ok_def t new_account_def)
  moreover have "emails_unique ci ?d" unfolding emails_unique_def
  proof (intro allI impI)
    fix j k v w assume a: "t_users ?d j = Some v" "t_users ?d k = Some w" "ci (u_email v) = ci (u_email w)"
    have other: "t_users d m = Some x \<Longrightarrow> ci (u_email x) \<noteq> ci (u_email u)" for m x
      using n unfolding new_account_def by blast
    show "j = k"
    proof (cases "j = i")
      case True
      then show ?thesis using a [unfolded t] other [of k w] by (cases "k = i") auto
    next
      case False
      then show ?thesis using a [unfolded t] o other [of j v] by (cases "k = i") (auto simp: emails_unique_def)
    qed
  qed
  moreover have "creds_owned ?d" "room_rows_ok ?d" "slugs_unique ?d" "whole ?d"
    using o by (simp_all add: creds_owned_def room_rows_ok_def slugs_unique_def whole_def t)
  ultimately show ?thesis by (simp add: accounts_ok_def schema_ok_def)
qed

lemma rehash_ok:
  "accounts_ok uuid_in ci d \<Longrightarrow> t_creds d i \<noteq> None \<Longrightarrow> accounts_ok uuid_in ci (set_cred i h d)"
  by (simp add: accounts_ok_def schema_ok_def clause_defs set_cred_def)

lemma room_added_ok:
  assumes ok: "accounts_ok uuid_in ci d" and n: "new_room uuid_in y slug name i q d"
  shows "accounts_ok uuid_in ci (add_room i q d)"
proof -
  let ?d = "add_room i q d"
  have t: "t_users ?d = t_users d" "t_creds ?d = t_creds d" "t_rooms ?d = (t_rooms d)(i \<mapsto> q)"
    by (simp_all add: pgdb_ops)
  note o = ok [unfolded accounts_ok_def schema_ok_def]
  have other: "t_rooms d m = Some x \<Longrightarrow> r_slug x \<noteq> r_slug q" for m x
    using n unfolding new_room_def slug_taken_def by blast
  have "slugs_unique ?d" unfolding slugs_unique_def
  proof (intro allI impI)
    fix j k v w assume a: "t_rooms ?d j = Some v" "t_rooms ?d k = Some w" "r_slug v = r_slug w"
    show "j = k"
    proof (cases "j = i")
      case True
      then show ?thesis using a [unfolded t] other [of k w] by (cases "k = i") auto
    next
      case False
      then show ?thesis using a [unfolded t] o other [of j v] by (cases "k = i") (auto simp: slugs_unique_def)
    qed
  qed
  moreover have "room_rows_ok ?d" using o n by (simp add: room_rows_ok_def t new_room_def)
  ultimately show ?thesis
    using o by (simp add: accounts_ok_def schema_ok_def user_rows_ok_def emails_unique_def creds_owned_def whole_def t)
qed

lemma unroom_ok:
  assumes ok: "accounts_ok uuid_in ci d"
  shows "accounts_ok uuid_in ci (del_room slug d)"
proof -
  have t: "t_users (del_room slug d) = t_users d" "t_creds (del_room slug d) = t_creds d" by (simp_all add: del_room_def)
  have sub: "t_rooms d i = Some r" if "t_rooms (del_room slug d) i = Some r" for i r
    using that by (simp add: del_room_def split: option.splits if_splits)
  note o = ok [unfolded accounts_ok_def schema_ok_def]
  have "room_rows_ok (del_room slug d)" using o sub unfolding room_rows_ok_def t by blast
  moreover have "slugs_unique (del_room slug d)" using o sub unfolding slugs_unique_def by blast
  ultimately show ?thesis
    using o by (simp add: accounts_ok_def schema_ok_def user_rows_ok_def emails_unique_def creds_owned_def whole_def t)
qed

lemma move_ok: "table_move uuid_in ci d d' \<Longrightarrow> accounts_ok uuid_in ci d \<Longrightarrow> accounts_ok uuid_in ci d'"
proof (induction rule: table_move.induct)
  case (event d e)
  then show ?case using schema_cong [of "add_event e d" d] by (simp add: add_event_def)
qed (auto intro: account_ok rehash_ok room_added_ok unroom_ok)

subsection \<open>The directory of accounts\<close>

type_synonym directory = "(string \<times> user_row \<times> string) set"

inductive dir_step :: "(string \<Rightarrow> string) \<Rightarrow> directory \<Rightarrow> directory \<Rightarrow> bool" for ci :: "string \<Rightarrow> string" where
  stay: "dir_step ci A A"
| enrol: "i \<notin> fst ` A \<Longrightarrow> (\<And>j v k. (j, v, k) \<in> A \<Longrightarrow> ci (u_email v) \<noteq> ci (u_email u)) \<Longrightarrow> u_disabled_at u = None \<Longrightarrow>
    dir_step ci A (insert (i, u, h) A)"
| rekey: "(i, u, h) \<in> A \<Longrightarrow> dir_step ci A (insert (i, u, h') (A - {(i, u, h)}))"

definition directory_ok :: "(string \<Rightarrow> string) \<Rightarrow> directory \<Rightarrow> bool" where
  "directory_ok ci A \<longleftrightarrow> (\<forall>i u h j v k. (i, u, h) \<in> A \<longrightarrow> (j, v, k) \<in> A \<longrightarrow>
     (i = j \<or> ci (u_email u) = ci (u_email v)) \<longrightarrow> (i, u, h) = (j, v, k))"

lemma accounts_rehash:
  assumes "t_users d i = Some u" "t_creds d i = Some h"
  shows "accounts (set_cred i h' d) = insert (i, u, h') (accounts d - {(i, u, h)})"
  using assms by (auto simp: accounts_def set_cred_def split: if_splits)

lemma move_refines:
  assumes "table_move uuid_in ci d d'" "accounts_ok uuid_in ci d"
  shows "dir_step ci (accounts d) (accounts d')"
  using assms
proof (induction rule: table_move.induct)
  case (account email name h i u d)
  then have "t_users d i = None" by (simp add: new_account_def)
  then have "accounts (set_cred i h (add_user i u d)) = insert (i, u, h) (accounts d)" by (rule accounts_new)
  moreover have "dir_step ci (accounts d) (insert (i, u, h) (accounts d))"
    by (rule enrol) (use account in \<open>auto simp: accounts_def new_account_def\<close>)
  ultimately show ?case by simp
next
  case (rehash d i h)
  then obtain h0 where h0: "t_creds d i = Some h0" by blast
  then have "t_users d i \<noteq> None" using rehash by (simp add: accounts_ok_def schema_ok_def creds_owned_def)
  then obtain u where u: "t_users d i = Some u" by blast
  then have "(i, u, h0) \<in> accounts d" using h0 by (simp add: accounts_def)
  from rekey [OF this] show ?case by (simp add: accounts_rehash [OF u h0])
next
  case (event d e)
  have "accounts (add_event e d) = accounts d" by (simp add: accounts_def pgdb_ops)
  then show ?case by (simp add: stay)
next
  case (room y slug name i q d)
  have "accounts (add_room i q d) = accounts d" by (simp add: accounts_def pgdb_ops)
  then show ?case by (simp add: stay)
next
  case (unroom d slug)
  have "accounts (del_room slug d) = accounts d" by (simp add: accounts_def pgdb_ops)
  then show ?case by (simp add: stay)
qed (rule stay)

lemma accounts_directory: "accounts_ok uuid_in ci d \<Longrightarrow> directory_ok ci (accounts d)"
  unfolding directory_ok_def accounts_def accounts_ok_def schema_ok_def emails_unique_def by simp (metis option.inject)

context postgres
begin

lemma reach_ok: "db_reach P tables s \<Longrightarrow> accounts_ok uuid_in ci (tables s)"
proof (induction rule: db_reach.induct)
  case (empty s)
  then show ?case by (simp add: accounts_ok_def schema_ok_def clause_defs)
next
  case (step s s')
  then show ?case using move_ok step_moves by blast
qed

text \<open>A lookup by any spelling of an account's address gives that account.\<close>

lemma lookup_account:
  assumes "accounts_ok uuid_in ci (tables s)" "(i, u, h) \<in> accounts (tables s)" "ci email = ci (u_email u)"
    and "ByEmailWithCredential P email t s = (s', r)"
  shows "r = Inr (scan_user i u, h) \<or> r = Inl (DbFailed OpSelectUser)"
proof -
  have dir: "directory_ok ci (accounts (tables s))" using assms(1) by (rule accounts_directory)
  obtain q where q: "pg_select_by_email P email t s = (s', q)"
    using assms(4) by (auto simp: ByEmailWithCredential_def split: prod.splits sum.splits option.splits)
  show ?thesis
  proof (cases q)
    case (Inl x)
    then show ?thesis using assms(4) q by (simp add: ByEmailWithCredential_def)
  next
    case (Inr re)
    have "re = Some (i, u, Some h)"
    proof (cases re)
      case None
      then show ?thesis using by_email_ok [OF q [unfolded Inr]] assms(2,3) by (auto simp: accounts_def)
    next
      case (Some jvk)
      obtain j v k where jvk: "re = Some (j, v, k)" using Some by (cases jvk) auto
      from by_email_ok [OF q [unfolded Inr jvk]] have jv: "t_users (tables s) j = Some v" "ci (u_email v) = ci email" "k = t_creds (tables s) j"
        by auto
      then obtain h' where h': "t_creds (tables s) j = Some h'" using assms(1) by (auto simp: accounts_ok_def whole_def)
      then have "(j, v, h') \<in> accounts (tables s)" using jv by (simp add: accounts_def)
      then have "(j, v, h') = (i, u, h)" using dir assms(2,3) jv unfolding directory_ok_def by metis
      then show ?thesis using jvk jv h' by simp
    qed
    then show ?thesis using assms(4) q Inr by (simp add: ByEmailWithCredential_def)
  qed
qed

lemma registered_found:
  assumes "db_reach P tables s" "UserStore_Create P email name h t s = (s1, Inr usr)" "ByEmailWithCredential P email' t' s1 = (s2, r)"
    and "ci email' = ci email"
  shows "r = Inr (usr, h) \<or> r = Inl (DbFailed OpSelectUser)"
  using assms(2)
proof (cases rule: create_spec)
  case (created i u)
  have "accounts_ok uuid_in ci (tables s1)" using db_reach.step [OF assms(1) db_step.register [OF assms(2)]] reach_ok by blast
  moreover have "(i, u, h) \<in> accounts (tables s1)" "ci email' = ci (u_email u)" "usr = scan_user i u"
    using created assms(4) by (auto simp: accounts_new new_account_def)
  ultimately show ?thesis using lookup_account assms(3) by blast
qed simp

end

subsection \<open>Properties\<close>

definition empty_pg :: mempg where
  "empty_pg = \<lparr>pm_db = \<lparr>md_users = [], md_creds = [], md_rooms = [], md_events = []\<rparr>, pm_work = None, pm_next = 7, pm_up = True\<rparr>"

definition demo_user :: User where
  "demo_user = \<lparr>usr_ID = demo_owner, usr_Email = ''a@b.c'', usr_DisplayName = ''A'', usr_EmailVerified = False,
     usr_CreatedAt = 0, usr_disabled = False\<rparr>"

definition demo_account :: "string \<Rightarrow> mempg" where
  "demo_account h = empty_pg\<lparr>pm_db := \<lparr>md_users = [(demo_owner, \<lparr>u_email = ''a@b.c'', u_display_name = ''A'',
     u_email_verified = False, u_disabled_at = None, u_created_at = 0\<rparr>)], md_creds = [(demo_owner, h)], md_rooms = [],
     md_events = []\<rparr>, pm_next := 8\<rparr>"

lemma empty_pg_reach: "db_reach mem_pg pm_tables empty_pg"
  by (rule db_reach.empty) (simp_all add: pm_tables_def md_abs_def empty_pg_def)

lemma demo_register: "UserStore_Create mem_pg ''a@b.c'' ''A'' h 0 empty_pg = (demo_account h, Inr demo_user)"
proof -
  have "fresh_id (empty_pg\<lparr>pm_work := Some (pm_db empty_pg)\<rparr>) = demo_owner" by code_simp
  moreover have "rune_count ''a@b.c'' = 5" "rune_count ''A'' = 1" by (simp_all add: rune_count_ascii is_ascii_def byte_def)
  ultimately show ?thesis
    by (simp add: UserStore_Create_def create_tx_def mem_pg_def empty_pg_def Let_def demo_owner_uuid email_length_ok_def
        name_length_ok_def scan_user_def demo_user_def demo_account_def)
qed

text \<open>C28. The stores refine the directory of accounts: every operation, seen through its effect on accounts, is one
  of nothing, one new enabled account under an unused address, or a new hash for an existing account, and the
  directory never holds two accounts with one id or one address.\<close>

theorem directory_refined:
  assumes "postgres P tables work uuid_in ci text_le" "db_reach P tables s" "db_step P s s'"
  shows "dir_step ci (accounts (tables s)) (accounts (tables s')) \<and> directory_ok ci (accounts (tables s'))"
proof -
  have "table_move uuid_in ci (tables s) (tables s')" using postgres.step_moves [OF assms(1,3)] .
  moreover have ok: "accounts_ok uuid_in ci (tables s)" using postgres.reach_ok [OF assms(1,2)] .
  ultimately show ?thesis using move_refines move_ok accounts_directory by blast
qed

theorem directory_refined_witness:
  "dir_step mem_ci (accounts (pm_tables empty_pg)) (accounts (pm_tables (demo_account ''h''))) \<and>
   accounts (pm_tables empty_pg) = {} \<and> accounts (pm_tables (demo_account ''h'')) \<noteq> {}"
  using directory_refined [OF mempg.postgres_axioms empty_pg_reach db_step.register [OF demo_register]]
  by (auto simp: accounts_def pm_tables_def md_abs_def empty_pg_def demo_account_def split: if_splits)



end
