(* ===== verification/AuthWorld.thy ===== *)
theory AuthWorld
  imports AuthHandlers SessionProps AccountProps
begin

text \<open>
  The auth service over both servers: the laws of the session store and of the database together, and what
  each step of the service leaves alone.  \<open>demo_svc\<close> is a complete instance: in-memory servers, a text
  codec, and a key derivation that returns keys of the right length.
\<close>

locale auth_world =
  session_store "sv_sessions svc" entries + postgres "sv_users svc" tables work uuid_in ci text_le
  for svc :: "('s, 'p) service" and entries :: "'s \<Rightarrow> db" and tables :: "'p \<Rightarrow> pgdb" and work :: "'p \<Rightarrow> pgdb option"
    and uuid_in :: "string \<Rightarrow> string option" and ci :: "string \<Rightarrow> string" and text_le :: "string \<Rightarrow> string \<Rightarrow> bool" +
  assumes limiter_shared: "sv_limiter svc = rdb (sv_sessions svc)"

definition sessions_same :: "('s \<Rightarrow> db) \<Rightarrow> gotime \<Rightarrow> 's \<Rightarrow> 's \<Rightarrow> bool" where
  "sessions_same entries t s s' \<longleftrightarrow>
     (\<forall>i. live t (entries s') (sessionKeyPrefix @ i) = live t (entries s) (sessionKeyPrefix @ i)) \<and>
     (\<forall>u. live t (entries s') (userIndexPrefix @ u) = live t (entries s) (userIndexPrefix @ u))"

lemma sessions_same_refl [simp]: "sessions_same entries t s s"
  by (simp add: sessions_same_def)

lemma sessions_same_trans: "sessions_same entries t a b \<Longrightarrow> sessions_same entries t b c \<Longrightarrow> sessions_same entries t a c"
  by (simp add: sessions_same_def)

lemma sessions_same_step: "t0 \<le> t \<Longrightarrow> sessions_same entries t s s' \<Longrightarrow> sess_step st entries (t0, s) (t, s')"
  by (rule sess_step.other) (simp_all add: sessions_same_def)

lemma rl_key_apart [simp]: "sessionKeyPrefix @ i \<noteq> rl_key k" "userIndexPrefix @ u \<noteq> rl_key k"
  by (simp_all add: prefix_defs rl_key_def)

text \<open>The parts of the world, and the accounts seen through an audit row.\<close>

lemma on_pg_parts:
  "on_pg f w = (w', a) \<Longrightarrow> w_redis w' = w_redis w \<and> f (w_pg w) = (w_pg w', a)"
  by (auto simp: on_pg_def split: prod.splits)

lemma on_redis_parts:
  "on_redis f w = (w', a) \<Longrightarrow> w_pg w' = w_pg w \<and> f (w_redis w) = (w_redis w', a)"
  by (auto simp: on_redis_def split: prod.splits)

definition same_accounts :: "pgdb \<Rightarrow> pgdb \<Rightarrow> bool" where
  "same_accounts d d' \<longleftrightarrow> t_users d' = t_users d \<and> t_creds d' = t_creds d \<and> t_rooms d' = t_rooms d"

lemma same_accounts_refl [simp]: "same_accounts d d"
  by (simp add: same_accounts_def)

lemma same_accounts_trans: "same_accounts a b \<Longrightarrow> same_accounts b c \<Longrightarrow> same_accounts a c"
  by (simp add: same_accounts_def)

lemma same_accounts_event: "same_accounts d (add_event e d)"
  by (simp add: same_accounts_def add_event_def)

lemma same_accounts_accounts: "same_accounts d d' \<Longrightarrow> accounts d' = accounts d"
  by (simp add: same_accounts_def accounts_def)

context auth_world
begin

lemma check_parts:
  assumes "check svc key limit now w = (w', e)"
  shows "w_pg w' = w_pg w" "sessions_same entries now (w_redis w) (w_redis w')"
    "e = None \<longleftrightarrow> (\<exists>ra. snd (Allow (sv_limiter svc) key limit now (w_redis w)) = (True, ra, None))"
proof -
  obtain a where a: "on_redis (Allow (sv_limiter svc) key limit now) w = (w', a)"
    and e: "e = (case a of (allowed, ra, Some x) \<Rightarrow> Some (LimiterUnavailable x)
      | (allowed, ra, None) \<Rightarrow> if \<not> allowed then Some (RateLimitError ra) else None)"
    using assms by (auto simp: check_def split: prod.splits option.splits)
  note p = on_redis_parts [OF a]
  show "w_pg w' = w_pg w" using p by simp
  have "agree_off {rl_key key} (live now (entries (w_redis w))) (live now (entries (w_redis w')))"
    using allow_agree [of key limit now "w_redis w" "w_redis w'" a] p limiter_shared by simp
  then show "sessions_same entries now (w_redis w) (w_redis w')"
    by (simp add: sessions_same_def agree_off_def)
  show "e = None \<longleftrightarrow> (\<exists>ra. snd (Allow (sv_limiter svc) key limit now (w_redis w)) = (True, ra, None))"
    using p e by (cases a) (auto split: option.splits)
qed

lemma reset_parts:
  assumes "on_redis (Reset (sv_limiter svc) key now) w = (w', e)"
  shows "w_pg w' = w_pg w" "sessions_same entries now (w_redis w) (w_redis w')"
proof -
  note p = on_redis_parts [OF assms]
  show "w_pg w' = w_pg w" using p by simp
  obtain y where "rd_exec (rdb (sv_sessions svc)) [CDel [rl_key key]] now (w_redis w) = (w_redis w', y)"
    using p limiter_shared by (auto simp: Reset_def split: prod.splits option.splits)
  from exec_agree [OF this] show "sessions_same entries now (w_redis w) (w_redis w')"
    by (simp add: sessions_same_def agree_off_def cmds_keys_def)
qed

lemma record_parts:
  "w_redis (record_event svc e now w) = w_redis w"
  "same_accounts (tables (w_pg w)) (tables (w_pg (record_event svc e now w)))"
proof -
  obtain w' a where w': "on_pg (RecordEvent (sv_users svc) (sv_parse_ip svc) e now) w = (w', a)" by fastforce
  note p = on_pg_parts [OF w']
  show "w_redis (record_event svc e now w) = w_redis w" using w' p by (simp add: record_event_def)
  have "tables (w_pg w') = tables (w_pg w) \<or> tables (w_pg w') = add_event (event_row_of (sv_parse_ip svc) e) (tables (w_pg w))"
    using Record_spec [OF p [THEN conjunct2]] .
  then show "same_accounts (tables (w_pg w)) (tables (w_pg (record_event svc e now w)))"
    using w' same_accounts_event same_accounts_refl by (auto simp: record_event_def)
qed

lemma record_reach: "db_reach (sv_users svc) tables (w_pg w) \<Longrightarrow> db_reach (sv_users svc) tables (w_pg (record_event svc e now w))"
proof -
  assume r: "db_reach (sv_users svc) tables (w_pg w)"
  obtain w' a where w': "on_pg (RecordEvent (sv_users svc) (sv_parse_ip svc) e now) w = (w', a)" by fastforce
  from db_reach.step [OF r db_step.record_event [OF on_pg_parts [OF w', THEN conjunct2]]] w'
  show ?thesis by (simp add: record_event_def)
qed

end

subsection \<open>An instance\<close>

definition demo_svc :: "(mem, mempg) service" where
  "demo_svc = \<lparr>sv_users = mem_pg, sv_sessions = text_store, sv_limiter = mem_redis, sv_argon2 = demo_argon2,
     sv_lower = (\<lambda>x. x), sv_parse_ip = (\<lambda>x. None), sv_parse_addr = (\<lambda>x. Some ([], x))\<rparr>"

interpretation demo: auth_world demo_svc mem_entries pm_tables pm_view mem_uuid mem_ci text_leq
  by (intro auth_world.intro auth_world_axioms.intro)
    (simp_all add: demo_svc_def text_store.session_store_axioms mempg.postgres_axioms text_store_sel)

end
