(* ===== verification/AuthProps.thy ===== *)
theory AuthProps
  imports AuthWorld
begin

text \<open>The properties of the auth service and of the middleware in front of every protected endpoint.\<close>

subsection \<open>Login, step by step\<close>

abbreviation login_email :: "('s, 'p) service \<Rightarrow> Credentials \<Rightarrow> string" where
  "login_email svc c \<equiv> NormalizeEmail (sv_lower svc) (cr_Email c)"

lemma scan_user_ID [simp]: "usr_ID (scan_user i u) = i"
  by (simp add: scan_user_def)

text \<open>The account a login is for has the right password.\<close>

definition password_matches :: "('s, 'p) service \<Rightarrow> bool \<Rightarrow> string \<Rightarrow> string \<Rightarrow> bool" where
  "password_matches svc slot h password \<longleftrightarrow> (\<exists>b. VerifyPassword (sv_argon2 svc) slot h password = Inr (True, b))"

definition refused :: "auth_error \<Rightarrow> bool" where
  "refused e \<longleftrightarrow> e = ErrInvalidCredentials \<or> e = PanicFault"

definition limited :: "auth_error \<Rightarrow> bool" where
  "limited e \<longleftrightarrow> (\<exists>d. e = RateLimitError d) \<or> (\<exists>x. e = LimiterUnavailable x)"

lemma check_error: "check svc key limit now w = (w', Some e) \<Longrightarrow> limited e"
  by (auto simp: check_def limited_def split: prod.splits option.splits if_splits)

lemma created_session_fields:
  "Create st rnd u ip ua t s = (s', Inr (token, sess)) \<Longrightarrow>
   s_UserID sess = u \<and> s_ID sess = hashToken st token \<and> s_CreatedAt sess = t \<and> s_ExpiresAt sess = t + absoluteTTL st"
  by (auto simp: Create_def Let_def split: sum.splits option.splits prod.splits)

context auth_world
begin

lemma login_gate:
  assumes "Login svc env c w = (w', r)"
  obtains (limited) e where "r = Inl e" "limited e" "sessions_same entries (en_now env) (w_redis w) (w_redis w')"
      "same_accounts (tables (w_pg w)) (tables (w_pg w'))"
  | (lookup) w2 w3 q where "w_pg w2 = w_pg w" "sessions_same entries (en_now env) (w_redis w) (w_redis w2)"
      "on_pg (ByEmailWithCredential (sv_users svc) (login_email svc c) (en_now env)) w2 = (w3, q)"
      "(w', r) = (case q of
         Inl x \<Rightarrow> if x = ErrUserNotFound \<or> x = ErrNoCredentials
           then refuse_login svc env c [] (login_email svc c) ''login_failed_unknown_user'' w3 else (w3, Inl (UserFault x))
       | Inr (user, hash) \<Rightarrow> if usr_disabled user
           then refuse_login svc env c (usr_ID user) (login_email svc c) ''login_failed_disabled'' w3
           else verify_login svc env c (login_email svc c) user hash w3)"
proof -
  obtain w1 e1 where 1: "check svc (''login:ip:'' @ cr_IP c) LoginPerIP (en_now env) w = (w1, e1)" by fastforce
  note p1 = check_parts [OF 1]
  show ?thesis
  proof (cases e1)
    case (Some e)
    then have "w' = w1" "r = Inl e" using assms 1 by (simp_all add: Login_def)
    then show ?thesis using limited [of e] check_error [OF 1 [unfolded Some]] p1(1,2) by simp
  next
    case None
    obtain w2 e2 where 2: "check svc (''login:account:'' @ login_email svc c) LoginPerAccount (en_now env) w1 = (w2, e2)" by fastforce
    note p2 = check_parts [OF 2]
    have ss: "sessions_same entries (en_now env) (w_redis w) (w_redis w2)" using sessions_same_trans [OF p1(2) p2(2)] .
    show ?thesis
    proof (cases e2)
      case (Some e)
      then have "w' = record_event svc (login_event [] (login_email svc c) ''login_rate_limited'' c) (en_now env) w2" "r = Inl e"
        using assms 1 2 None by (simp_all add: Login_def)
      then show ?thesis
        using limited [of e] check_error [OF 2 [unfolded Some]] ss p1(1) p2(1) record_parts [where w = w2] by simp
    next
      case None2: None
      obtain w3 q where 3: "on_pg (ByEmailWithCredential (sv_users svc) (login_email svc c) (en_now env)) w2 = (w3, q)" by fastforce
      have "(w', r) = (case q of
         Inl x \<Rightarrow> if x = ErrUserNotFound \<or> x = ErrNoCredentials
           then refuse_login svc env c [] (login_email svc c) ''login_failed_unknown_user'' w3 else (w3, Inl (UserFault x))
       | Inr (user, hash) \<Rightarrow> if usr_disabled user
           then refuse_login svc env c (usr_ID user) (login_email svc c) ''login_failed_disabled'' w3
           else verify_login svc env c (login_email svc c) user hash w3)"
        using assms 1 2 3 None None2 by (simp add: Login_def Let_def)
      then show ?thesis using lookup [OF _ ss 3] p1(1) p2(1) by simp
    qed
  qed
qed

lemma refuse_parts:
  assumes "refuse_login svc env c i email ev w = (w', r)"
  shows "\<exists>e. r = Inl e \<and> refused e" "w_redis w' = w_redis w" "same_accounts (tables (w_pg w)) (tables (w_pg w'))"
  using assms record_parts [where w = w] by (auto simp: refuse_login_def refused_def split: if_splits)

lemma verify_mismatch:
  assumes "verify_login svc env c email user h w = (w', r)" "\<not> password_matches svc (en_slot env) h (cr_Password c)"
  shows "\<exists>e. r = Inl e \<and> refused e" "w_redis w' = w_redis w" "same_accounts (tables (w_pg w)) (tables (w_pg w'))"
proof -
  let ?v = "VerifyPassword (sv_argon2 svc) (en_slot env) h (cr_Password c)"
  let ?w1 = "record_event svc (login_event (usr_ID user) email ''login_failed_bad_password'' c) (en_now env) w"
  have "(\<exists>e. r = Inl e \<and> refused e) \<and> (w' = w \<or> w' = ?w1)"
  proof (cases ?v)
    case (Inl x)
    then show ?thesis using assms(1) by (auto simp: verify_login_def refused_def split: if_splits)
  next
    case (Inr mb)
    obtain m b where mb: "?v = Inr (m, b)" using Inr by (cases mb) auto
    then have "\<not> m" using assms(2) by (auto simp: password_matches_def)
    then show ?thesis using assms(1) mb by (auto simp: verify_login_def refused_def)
  qed
  then show "\<exists>e. r = Inl e \<and> refused e" "w_redis w' = w_redis w" "same_accounts (tables (w_pg w)) (tables (w_pg w'))"
    using record_parts [where w = w] by auto
qed

lemma finish_parts:
  assumes "finish_login svc env c email user w = (w', r)"
  obtains (failed) x where "r = Inl (SessionFault x)"
  | (finished) w2 w3 token sess where "sessions_same entries (en_now env) (w_redis w) (w_redis w2)"
      "create_session svc env user c w2 = (w3, Inr (token, sess))" "r = Inr (user, token, sess)"
      "w' = record_event svc (login_event (usr_ID user) email ''login'' c) (en_now env) w3"
proof -
  obtain w2 e where 2: "on_redis (Reset (sv_limiter svc) (''login:account:'' @ email) (en_now env)) w = (w2, e)" by fastforce
  obtain w3 q where 3: "create_session svc env user c w2 = (w3, q)" by fastforce
  show ?thesis
  proof (cases q)
    case (Inl x)
    then show ?thesis using assms 2 3 failed [of x] by (simp add: finish_login_def)
  next
    case (Inr ts)
    obtain token sess where "q = Inr (token, sess)" using Inr by (cases ts) auto
    then show ?thesis using assms 2 3 finished [of w2 w3 token sess] reset_parts(2) [OF 2] by (simp add: finish_login_def)
  qed
qed

lemma verify_success:
  fixes w :: "('s, 'p, 'm) world_scheme"
  assumes "verify_login svc env c email user h w = (w', Inr (user', token, sess))"
  shows "password_matches svc (en_slot env) h (cr_Password c) \<and> user' = user \<and> s_UserID sess = usr_ID user \<and>
    s_ID sess = hashToken (sv_sessions svc) token \<and> s_CreatedAt sess = en_now env \<and>
    s_ExpiresAt sess = en_now env + absoluteTTL (sv_sessions svc)"
proof -
  have m: "password_matches svc (en_slot env) h (cr_Password c)" using verify_mismatch(1) [OF assms] by auto
  then obtain b where "VerifyPassword (sv_argon2 svc) (en_slot env) h (cr_Password c) = Inr (True, b)"
    by (auto simp: password_matches_def)
  then obtain w1 where "finish_login svc env c email user w1 = (w', Inr (user', token, sess))"
    using assms by (auto simp: verify_login_def split: prod.splits if_splits)
  then obtain w2 w3 :: "('s, 'p, 'm) world_scheme" where cs: "create_session svc env user c w2 = (w3, Inr (token, sess))" and u: "user' = user"
    by (cases rule: finish_parts) auto
  have "Create (sv_sessions svc) (en_token env) (usr_ID user) (cr_IP c) (cr_UserAgent c) (en_now env) (w_redis w2) =
      (w_redis w3, Inr (token, sess))"
    using on_redis_parts [OF cs [unfolded create_session_def]] by simp
  from created_session_fields [OF this] show ?thesis using m u by simp
qed

lemma login_accepts:
  assumes "Login svc env c w = (w', Inr (user, token, sess))"
  shows "\<exists>i u h. (i, u, h) \<in> accounts (tables (w_pg w)) \<and> ci (u_email u) = ci (login_email svc c) \<and> u_disabled_at u = None \<and>
    user = scan_user i u \<and> password_matches svc (en_slot env) h (cr_Password c) \<and> s_UserID sess = i \<and>
    s_ID sess = hashToken (sv_sessions svc) token \<and> s_CreatedAt sess = en_now env"
  using assms
proof (cases rule: login_gate)
  case (lookup w2 w3 q)
  note p = on_pg_parts [OF lookup(3)]
  have no: "refuse_login svc env c i email ev w3 \<noteq> (w', Inr (user, token, sess))" for i email ev
    using refuse_parts(1) by blast
  obtain user0 h where q: "q = Inr (user0, h)" "\<not> usr_disabled user0"
    and v: "verify_login svc env c (login_email svc c) user0 h w3 = (w', Inr (user, token, sess))"
  proof (cases q)
    case (Inl x)
    then show ?thesis using lookup(4) [symmetric] no by (simp split: if_splits)
  next
    case (Inr uh)
    then show ?thesis using lookup(4) [symmetric] no that by (cases uh) (simp split: if_splits)
  qed
  obtain i u where "(i, u, h) \<in> accounts (tables (w_pg w))" "user0 = scan_user i u" "ci (u_email u) = ci (login_email svc c)"
    using ByEmail_spec(3) [OF p [THEN conjunct2] q(1)] lookup(1) by auto
  moreover from this have "u_disabled_at u = None" using q(2) by (simp add: scan_user_def)
  ultimately show ?thesis using verify_success [OF v] by (auto simp: scan_user_def)
qed simp

lemma login_refuses:
  assumes "Login svc env c w = (w', r)"
    and "\<And>i u h. (i, u, h) \<in> accounts (tables (w_pg w)) \<Longrightarrow> ci (u_email u) = ci (login_email svc c) \<Longrightarrow> u_disabled_at u = None \<Longrightarrow>
      \<not> password_matches svc (en_slot env) h (cr_Password c)"
  shows "\<exists>e. r = Inl e \<and> (refused e \<or> limited e \<or> e = UserFault (DbFailed OpSelectUser))"
    "sessions_same entries (en_now env) (w_redis w) (w_redis w')" "same_accounts (tables (w_pg w)) (tables (w_pg w'))"
proof -
  have "(\<exists>e. r = Inl e \<and> (refused e \<or> limited e \<or> e = UserFault (DbFailed OpSelectUser))) \<and>
    sessions_same entries (en_now env) (w_redis w) (w_redis w') \<and> same_accounts (tables (w_pg w)) (tables (w_pg w'))"
    using assms(1)
  proof (cases rule: login_gate)
    case (lookup w2 w3 q)
    note p = on_pg_parts [OF lookup(3)]
    note b = ByEmail_spec [OF p [THEN conjunct2]]
    have t3: "tables (w_pg w3) = tables (w_pg w)" "w_redis w3 = w_redis w2" using b(1) p lookup(1) by simp_all
    have "(\<exists>e. r = Inl e \<and> (refused e \<or> e = UserFault (DbFailed OpSelectUser))) \<and> w_redis w' = w_redis w3 \<and>
      same_accounts (tables (w_pg w3)) (tables (w_pg w'))"
    proof (cases q)
      case (Inl x)
      have "x \<in> {ErrUserNotFound, ErrNoCredentials, DbFailed OpSelectUser}"
        using p Inl by (auto simp: ByEmailWithCredential_def split: prod.splits sum.splits option.splits)
      then show ?thesis using lookup(4) Inl refuse_parts [of env c "[]" "login_email svc c" _ w3 w' r] by (auto split: if_splits)
    next
      case (Inr uh)
      obtain user h where uh: "q = Inr (user, h)" using Inr by (cases uh) auto
      show ?thesis
      proof (cases "usr_disabled user")
        case True
        then show ?thesis
          using lookup(4) uh refuse_parts [of env c "usr_ID user" "login_email svc c" "''login_failed_disabled''" w3 w' r] by auto
      next
        case False
        from b(3) [OF uh] obtain i u where "(i, u, h) \<in> accounts (tables (w_pg w))" "user = scan_user i u"
          "ci (u_email u) = ci (login_email svc c)" using lookup(1) by auto
        then have "\<not> password_matches svc (en_slot env) h (cr_Password c)" using assms(2) False by (simp add: scan_user_def)
        moreover have v: "verify_login svc env c (login_email svc c) user h w3 = (w', r)" using lookup(4) uh False by simp
        ultimately show ?thesis using verify_mismatch [OF v] by auto
      qed
    qed
    then show ?thesis using lookup(2) t3 by auto
  qed auto
  then show "\<exists>e. r = Inl e \<and> (refused e \<or> limited e \<or> e = UserFault (DbFailed OpSelectUser))"
    "sessions_same entries (en_now env) (w_redis w) (w_redis w')" "same_accounts (tables (w_pg w)) (tables (w_pg w'))" by blast+
qed

text \<open>A successful password change went through every step.\<close>

lemma change_parts:
  fixes w :: "('s, 'p, 'm) world_scheme"
  assumes "ChangePassword svc env uid cur new keep e w = (w', None)"
  obtains w2 w3 :: "('s, 'p, 'm) world_scheme" and h upd n where
    "sessions_same entries (en_now env) (w_redis w) (w_redis w2)" "tables (w_pg w2) = tables (w_pg w)"
    "\<exists>i. uuid_in uid = Some i \<and> t_creds (tables (w_pg w)) i = Some h" "password_matches svc (en_slot env) h cur"
    "ValidatePassword (sv_lower svc) new = None" "HashPassword (sv_argon2 svc) (en_salt env) (en_rehash_slot env) new = Inr upd"
    "\<exists>i. uuid_in uid = Some i \<and> tables (w_pg w3) = set_cred i upd (tables (w_pg w))" "w_redis w3 = w_redis w2"
    "RevokeAllForUser (sv_sessions svc) uid keep (en_now env) (w_redis w3) = (w_redis w', Inr n)"
    "same_accounts (tables (w_pg w3)) (tables (w_pg w'))"
proof -
  obtain w1 e1 where 1: "check svc (''password:ip:'' @ ae_IP e) PasswordChangeIP (en_now env) w = (w1, e1)" by fastforce
  have e1: "e1 = None" using assms 1 by (cases e1) (simp_all add: ChangePassword_def)
  note p1 = check_parts [OF 1]
  obtain w2 q where 2: "on_pg (CredentialByUserID (sv_users svc) uid (en_now env)) w1 = (w2, q)" by fastforce
  obtain h where h: "q = Inr h" using assms 1 2 e1 by (cases q) (simp_all add: ChangePassword_def)
  note p2 = on_pg_parts [OF 2]
  note c = Credential_spec [OF p2 [THEN conjunct2]]
  have m: "password_matches svc (en_slot env) h cur" and v: "ValidatePassword (sv_lower svc) new = None"
    and rp: "replace_password svc env uid new keep e w2 = (w', None)"
    using assms 1 2 e1 h
    by (auto simp: ChangePassword_def Let_def password_matches_def split: if_splits sum.splits prod.splits option.splits)
  obtain upd where upd: "HashPassword (sv_argon2 svc) (en_salt env) (en_rehash_slot env) new = Inr upd"
    using rp by (cases "HashPassword (sv_argon2 svc) (en_salt env) (en_rehash_slot env) new") (simp_all add: replace_password_def)
  obtain w3 x where 3: "on_pg (UpdatePassword (sv_users svc) uid upd (en_now env)) w2 = (w3, x)" by fastforce
  have x: "x = None" using rp upd 3 by (cases x) (simp_all add: replace_password_def)
  note p3 = on_pg_parts [OF 3]
  obtain w4 y where 4: "on_redis (RevokeAllForUser (sv_sessions svc) uid keep (en_now env)) w3 = (w4, y)" by fastforce
  obtain n where n: "y = Inr n" using rp upd 3 4 x by (cases y) (simp_all add: replace_password_def)
  note p4 = on_redis_parts [OF 4]
  have w': "w' = record_event svc (e\<lparr>ae_Event := ''password_changed''\<rparr>) (en_now env) w4"
    using rp upd 3 4 x n by (simp add: replace_password_def)
  show ?thesis
  proof (rule that [of w2 h upd w3 n])
    show "sessions_same entries (en_now env) (w_redis w) (w_redis w2)" using p1(2) p2 by simp
    show t2: "tables (w_pg w2) = tables (w_pg w)" using c p1(1) by simp
    show "\<exists>i. uuid_in uid = Some i \<and> t_creds (tables (w_pg w)) i = Some h" using c h p1(1) by simp
    show "\<exists>i. uuid_in uid = Some i \<and> tables (w_pg w3) = set_cred i upd (tables (w_pg w))"
      using Update_spec(2) [OF p3 [THEN conjunct2] x] t2 by auto
    show "RevokeAllForUser (sv_sessions svc) uid keep (en_now env) (w_redis w3) = (w_redis w', Inr n)"
      using p4 n by (simp add: w' record_parts(1))
    show "same_accounts (tables (w_pg w3)) (tables (w_pg w'))"
      using record_parts(2) [of w4] p4 by (simp add: w')
  qed (use m v upd p3 in simp_all)
qed

lemma change_evicts:
  assumes "sess_reach (sv_sessions svc) entries (t0, w_redis w)" "t0 \<le> en_now env"
    and "ChangePassword svc env uid cur new keep e w = (w', None)"
    and "en_now env < t'" "Get (sv_sessions svc) token t' (w_redis w') = (s2, Inr sess)" "s_UserID sess = uid"
  shows "keep \<noteq> [] \<and> hashToken (sv_sessions svc) token = hashToken (sv_sessions svc) keep"
  using assms(3)
proof (cases rule: change_parts)
  case (1 w2 w3 h upd n)
  have "sess_reach (sv_sessions svc) entries (en_now env, w_redis w3)"
    using sess_reach.more [OF assms(1) sessions_same_step [OF assms(2) 1(1)]] 1(8) by simp
  from revoke_all_effective [OF this order_refl 1(9) assms(4-6)] show ?thesis .
qed

text \<open>A successful registration went through every step.\<close>

lemma register_parts:
  assumes "Register svc env c w = (w', Inr (user, token, sess))" "db_reach (sv_users svc) tables (w_pg w)"
  obtains i u h where "(i, u, h) \<in> accounts (tables (w_pg w'))" "u_email u = login_email svc c" "user = scan_user i u"
    "u_disabled_at u = None" "HashPassword (sv_argon2 svc) (en_salt env) (en_slot env) (cr_Password c) = Inr h"
    "ValidatePassword (sv_lower svc) (cr_Password c) = None" "db_reach (sv_users svc) tables (w_pg w')" "s_UserID sess = i"
proof -
  obtain w1 e1 where 1: "check svc (''register:ip:'' @ cr_IP c) RegisterPerIP (en_now env) w = (w1, e1)" by fastforce
  have e1: "e1 = None" using assms(1) 1 by (cases e1) (simp_all add: Register_def Let_def)
  note p1 = check_parts [OF 1]
  obtain email where em: "validateEmail svc (cr_Email c) = Some email"
    using assms(1) 1 e1 by (cases "validateEmail svc (cr_Email c)") (simp_all add: Register_def Let_def)
  then have email: "email = login_email svc c"
    by (auto simp: validateEmail_def Let_def split: if_splits option.splits prod.splits)
  let ?dn = "display_name_of (cr_DisplayName c) email"
  have dn: "\<not> (rune_count ?dn < 1 \<or> rune_count ?dn > 100)" using assms(1) 1 e1 em by (auto simp: Register_def Let_def split: if_splits)
  have v: "ValidatePassword (sv_lower svc) (cr_Password c) = None"
    using assms(1) 1 e1 em dn by (cases "ValidatePassword (sv_lower svc) (cr_Password c)") (simp_all add: Register_def Let_def)
  obtain h where h: "HashPassword (sv_argon2 svc) (en_salt env) (en_slot env) (cr_Password c) = Inr h"
    using assms(1) 1 e1 em dn v
    by (cases "HashPassword (sv_argon2 svc) (en_salt env) (en_slot env) (cr_Password c)") (simp_all add: Register_def Let_def)
  obtain w2 q where 2: "on_pg (UserStore_Create (sv_users svc) email ?dn h (en_now env)) w1 = (w2, q)" by fastforce
  obtain user0 where q: "q = Inr user0" using assms(1) 1 e1 em dn v h 2 by (cases q) (simp_all add: Register_def Let_def)
  note p2 = on_pg_parts [OF 2, unfolded q]
  let ?w3 = "record_event svc (login_event (usr_ID user0) email ''register'' c) (en_now env) w2"
  obtain w4 x where 4: "create_session svc env user0 c ?w3 = (w4, x)" by fastforce
  have x: "x = Inr (token, sess)" "user = user0" "w' = w4"
    using assms(1) 1 e1 em dn v h 2 q 4 by (cases x; force simp: Register_def Let_def)+
  note p4 = on_redis_parts [OF 4 [unfolded create_session_def]]
  have r2: "db_reach (sv_users svc) tables (w_pg w2)"
    using db_reach.step [OF _ db_step.register [OF p2 [THEN conjunct2]]] assms(2) p1(1) by simp
  have r': "db_reach (sv_users svc) tables (w_pg w')" using record_reach [OF r2] p4 x(3) by simp
  from p2 [THEN conjunct2] show ?thesis
  proof (cases rule: create_spec)
    case (created i u)
    have "(i, u, h) \<in> accounts (tables (w_pg w2))" using created(1,2) p1(1) by (simp add: accounts_new new_account_def)
    moreover have "accounts (tables (w_pg w')) = accounts (tables (w_pg w2))"
      using same_accounts_accounts [OF record_parts(2)] p4 x(3) by simp
    moreover have "s_UserID sess = usr_ID user" using created_session_fields [OF p4 [THEN conjunct2, unfolded x(1)]] x(2) by simp
    ultimately show ?thesis
      using that [of i u h] created email x(2) h v r' by (auto simp: new_account_def scan_user_def)
  qed simp
qed

lemma matching_login:
  assumes "accounts_ok uuid_in ci (tables (w_pg w))" "(i, u, h) \<in> accounts (tables (w_pg w))"
    and "ci (login_email svc c) = ci (u_email u)" "u_disabled_at u = None" "Login svc env c w = (w', r)"
    and "VerifyPassword (sv_argon2 svc) (en_slot env) h (cr_Password c) = Inr (True, False)"
  shows "(\<exists>token sess. r = Inr (scan_user i u, token, sess)) \<or>
    (\<exists>e. r = Inl e \<and> (limited e \<or> e = UserFault (DbFailed OpSelectUser) \<or> (\<exists>x. e = SessionFault x)))"
  using assms(5)
proof (cases rule: login_gate)
  case (lookup w2 w3 q)
  note p = on_pg_parts [OF lookup(3)]
  from lookup_account [OF _ _ assms(3) p [THEN conjunct2], of i h] lookup(1) assms(1,2)
  consider "q = Inr (scan_user i u, h)" | "q = Inl (DbFailed OpSelectUser)" by auto
  then show ?thesis
  proof cases
    case 1
    have "\<not> usr_disabled (scan_user i u)" using assms(4) by (simp add: scan_user_def)
    then have "finish_login svc env c (login_email svc c) (scan_user i u) w3 = (w', r)"
      using lookup(4) 1 assms(6) by (simp add: verify_login_def)
    then show ?thesis by (cases rule: finish_parts) auto
  qed (use lookup(4) in simp)
qed auto

subsection \<open>The middleware\<close>

lemma identify_spec:
  assumes "identify mw now r s = (s1, q)" "mw_svc mw = svc" "store_ok (sv_sessions svc) now (live now (entries (w_redis s)))"
  shows "tables (w_pg s1) = tables (w_pg s)"
    and "q = Inr i \<Longrightarrow> id_Token i = tokenFrom mw r \<and> tokenFrom mw r \<noteq> [] \<and>
      Get (sv_sessions svc) (tokenFrom mw r) now (w_redis s) = (w_redis s1, Inr (id_Session i)) \<and>
      now \<le> s_ExpiresAt (id_Session i) \<and> s_ID (id_Session i) = hashToken (sv_sessions svc) (tokenFrom mw r) \<and>
      (\<exists>j u. uuid_in (s_UserID (id_Session i)) = Some j \<and> t_users (tables (w_pg s)) j = Some u \<and>
         u_disabled_at u = None \<and> id_User i = scan_user j u)"
    and "q = Inl e \<Longrightarrow> (\<exists>x. Get (sv_sessions svc) (tokenFrom mw r) now (w_redis s) = (w_redis s1, x)) \<or> s1 = s"
proof -
  let ?tok = "tokenFrom mw r" and ?st = "sv_sessions svc"
  obtain w1 g where g: "on_redis (Get ?st ?tok now) s = (w1, g)" by fastforce
  note pg = on_redis_parts [OF g]
  consider (none) "?tok = []" "s1 = s" "q = Inl (SessionFault ErrSessionNotFound)"
    | (miss) x where "?tok \<noteq> []" "g = Inl x" "s1 = w1" "q = Inl (SessionFault x)"
    | (user) sess v where "?tok \<noteq> []" "g = Inr sess" "on_pg (ByID (sv_users svc) (s_UserID sess) now) w1 = (s1, v)"
        "q = (case v of Inl x \<Rightarrow> Inl (UserFault x) | Inr user \<Rightarrow> Inr \<lparr>id_User = user, id_Session = sess, id_Token = ?tok\<rparr>)"
    using assms(1,2) g by (auto simp: identify_def Let_def split: if_splits sum.splits prod.splits)
  note alt = this
  show "tables (w_pg s1) = tables (w_pg s)"
    using alt
  proof cases
    case (user sess v)
    then show ?thesis using ByID_spec(1) on_pg_parts [OF user(3)] pg by metis
  qed (use pg in simp_all)
  show "q = Inl e \<Longrightarrow> (\<exists>x. Get ?st ?tok now (w_redis s) = (w_redis s1, x)) \<or> s1 = s"
    using alt
  proof cases
    case (user sess v)
    then show ?thesis using on_pg_parts [OF user(3)] pg by simp
  qed (use pg in simp_all)
  assume q: "q = Inr i"
  from alt q obtain sess usr where tok: "?tok \<noteq> []" and sess: "g = Inr sess"
    and v: "on_pg (ByID (sv_users svc) (s_UserID sess) now) w1 = (s1, Inr usr)"
    and i: "i = \<lparr>id_User = usr, id_Session = sess, id_Token = ?tok\<rparr>"
    by cases (auto split: sum.splits)
  note pu = on_pg_parts [OF v]
  have "now \<le> s_ExpiresAt sess \<and> s_ID sess = hashToken ?st ?tok"
    using Get_spec(2) [OF _ assms(3), of ?tok "w_redis w1" g sess] pg sess by auto
  with ByID_spec(2) [OF pu [THEN conjunct2] refl] i tok sess pu pg
  show "id_Token i = ?tok \<and> ?tok \<noteq> [] \<and> Get ?st ?tok now (w_redis s) = (w_redis s1, Inr (id_Session i)) \<and>
      now \<le> s_ExpiresAt (id_Session i) \<and> s_ID (id_Session i) = hashToken ?st ?tok \<and>
      (\<exists>j u. uuid_in (s_UserID (id_Session i)) = Some j \<and> t_users (tables (w_pg s)) j = Some u \<and>
         u_disabled_at u = None \<and> id_User i = scan_user j u)" by auto
qed

lemma require_guard:
  assumes "Require mw now nxt r w s = (s', out)" "mw_svc mw = svc"
    and "sess_reach (sv_sessions svc) entries (t0, w_redis s)" "t0 \<le> now"
  shows "(\<exists>i s1. (s', out) = nxt (Some i) r w s1 \<and> tables (w_pg s1) = tables (w_pg s) \<and>
      sess_reach (sv_sessions svc) entries (now, w_redis s1) \<and>
      id_Token i = tokenFrom mw r \<and> tokenFrom mw r \<noteq> [] \<and> now \<le> s_ExpiresAt (id_Session i) \<and>
      s_ID (id_Session i) = hashToken (sv_sessions svc) (tokenFrom mw r) \<and>
      (\<exists>j u. uuid_in (s_UserID (id_Session i)) = Some j \<and> t_users (tables (w_pg s)) j = Some u \<and>
         u_disabled_at u = None \<and> id_User i = scan_user j u)) \<or>
    out \<in> {Done (http_Error 401 ''unauthenticated'' ''sign in to continue'' (ClearCookie mw w)), Done (internal_error w)} \<and>
      tables (w_pg s') = tables (w_pg s) \<and> sess_reach (sv_sessions svc) entries (now, w_redis s')"
proof -
  have ok: "store_ok (sv_sessions svc) now (live now (entries (w_redis s)))" using sess_reach_later [OF assms(3,4)] .
  obtain s1 q where q: "identify mw now r s = (s1, q)" by fastforce
  note sp = identify_spec [OF q assms(2) ok]
  show ?thesis
  proof (cases q)
    case (Inl e)
    then have out: "s' = s1" "out \<in> {Done (http_Error 401 ''unauthenticated'' ''sign in to continue'' (ClearCookie mw w)), Done (internal_error w)}"
      using assms(1) q by (auto simp: Require_def internal_error_def)
    have "sess_reach (sv_sessions svc) entries (now, w_redis s1)"
      using sp(3) [OF Inl]
    proof
      assume "\<exists>x. Get (sv_sessions svc) (tokenFrom mw r) now (w_redis s) = (w_redis s1, x)"
      then show ?thesis using sess_reach.more [OF assms(3) sess_step.get [OF assms(4)]] by blast
    next
      assume "s1 = s"
      then show ?thesis using sess_reach.more [OF assms(3) sessions_same_step [OF assms(4)]] by simp
    qed
    then show ?thesis using out sp(1) by simp
  next
    case (Inr i)
    note g = sp(2) [OF Inr]
    obtain s2 x where t: "on_redis (Touch (sv_sessions svc) (id_Session i) now) s1 = (s2, x)" by fastforce
    note pt = on_redis_parts [OF t]
    have "sess_reach (sv_sessions svc) entries (now, w_redis s2)"
      using sess_reach.more [OF assms(3) sess_step.touch [OF assms(4) _ order_refl]] g pt by blast
    moreover have "nxt (Some i) r w s2 = (s', out)" using assms(1,2) q Inr t by (simp add: Require_def)
    ultimately show ?thesis using g pt sp(1) by (intro disjI1 exI [of _ i] exI [of _ s2]) simp
  qed
qed

end

lemma check_frame:
  "check svc key limit now (w\<lparr>w_pg := p\<rparr>) = (case check svc key limit now w of (w', e) \<Rightarrow> (w'\<lparr>w_pg := p\<rparr>, e))"
  by (cases w) (auto simp: check_def on_redis_def split: prod.splits option.splits)

lemma later_not_limited:
  "snd (refuse_login svc env c i email ev w) \<noteq> Inl (RateLimitError d)"
  "snd (finish_login svc env c email user w) \<noteq> Inl (RateLimitError d)"
  by (simp_all add: refuse_login_def finish_login_def Let_def split: prod.splits sum.splits)

lemma verify_not_limited: "snd (verify_login svc env c email user h w) \<noteq> Inl (RateLimitError d)"
  by (simp add: verify_login_def later_not_limited(2) split: prod.splits sum.splits bool.splits)

text \<open>Whether a login is rate limited does not depend on the database.\<close>

lemma limit_before_lookup:
  assumes "snd (Login svc env c w) = Inl (RateLimitError d)"
  shows "snd (Login svc env c (w\<lparr>w_pg := p\<rparr>)) = Inl (RateLimitError d)"
proof -
  let ?email = "login_email svc c"
  obtain w1 e1 where 1: "check svc (''login:ip:'' @ cr_IP c) LoginPerIP (en_now env) w = (w1, e1)" by fastforce
  obtain w2 e2 where 2: "check svc (''login:account:'' @ ?email) LoginPerAccount (en_now env) w1 = (w2, e2)" by fastforce
  show ?thesis
  proof (cases "e1 = None \<and> e2 = None")
    case True
    obtain w3 q where 3: "on_pg (ByEmailWithCredential (sv_users svc) ?email (en_now env)) w2 = (w3, q)" by fastforce
    have "snd (Login svc env c w) \<noteq> Inl (RateLimitError d)"
      using True unfolding Login_def Let_def 1
      by (simp add: 2 [simplified] 3 later_not_limited(1) verify_not_limited split: sum.splits prod.splits)
    then show ?thesis using assms by simp
  next
    case False
    have f1: "check svc (''login:ip:'' @ cr_IP c) LoginPerIP (en_now env) (w\<lparr>w_pg := p\<rparr>) = (w1\<lparr>w_pg := p\<rparr>, e1)"
      unfolding check_frame 1 by simp
    have f2: "check svc (''login:account:'' @ ?email) LoginPerAccount (en_now env) (w1\<lparr>w_pg := p\<rparr>) = (w2\<lparr>w_pg := p\<rparr>, e2)"
      unfolding check_frame 2 by simp
    show ?thesis
    proof (cases e1)
      case None
      with False obtain x where "e2 = Some x" by auto
      then show ?thesis using assms None unfolding Login_def Let_def 1 f1 by (simp add: 2 [simplified] f2 [simplified])
    next
      case (Some x)
      then show ?thesis using assms unfolding Login_def Let_def 1 f1 by simp
    qed
  qed
qed

subsection \<open>A registered account in the in-memory instance\<close>

definition demo_env :: "gotime \<Rightarrow> req_env" where
  "demo_env t = \<lparr>en_now = t, en_salt = Some ''0123456789abcdef'', en_token = Some ''r'', en_slot = True, en_rehash_slot = True\<rparr>"

definition demo_cred :: Credentials where
  "demo_cred = \<lparr>cr_Email = '' A@b.C'', cr_Password = ''hunter2-hunter2'', cr_DisplayName = ''A'', cr_IP = ''i'', cr_UserAgent = ''ua''\<rparr>"

definition demo_hash :: string where
  "demo_hash = phc argon2Params ''0123456789abcdef'' ''hunter2-hunter20123456789abcdefx''"

definition demo_world :: "(mem, mempg) world" where
  "demo_world = \<lparr>w_redis = empty_mem, w_pg = empty_pg\<rparr>"

definition demo_home :: "(mem, mempg) world" where
  "demo_home = \<lparr>w_redis = empty_mem, w_pg = demo_account demo_hash\<rparr>"

lemma demo_cred_sel: "cr_Password demo_cred = ''hunter2-hunter2''" "cr_DisplayName demo_cred = ''A''" "cr_IP demo_cred = ''i''"
  "cr_UserAgent demo_cred = ''ua''"
  by (simp_all add: demo_cred_def)

lemma demo_email: "login_email demo_svc demo_cred = ''a@b.c''"
  by code_simp

lemma demo_valid_email: "validateEmail demo_svc (cr_Email demo_cred) = Some ''a@b.c''"
  by code_simp

lemma demo_hashes: "HashPassword demo_argon2 (Some ''0123456789abcdef'') True ''hunter2-hunter2'' = Inr demo_hash"
proof -
  have "demo_argon2 ''hunter2-hunter2'' ''0123456789abcdef'' (iterations argon2Params) (memoryKiB argon2Params)
      (parallelism argon2Params) (keyLength argon2Params) = Some ''hunter2-hunter20123456789abcdefx''" by code_simp
  then show ?thesis by (simp add: HashPassword_def deriveKey_def demo_hash_def)
qed

lemma demo_verifies: "VerifyPassword demo_argon2 True demo_hash ''hunter2-hunter2'' = Inr (True, False)"
  by (rule hash_accepted [OF demo_argon2_sized _ demo_hashes]) simp

lemma demo_policy: "ValidatePassword (\<lambda>x. x) ''hunter2-hunter2'' = None"
  by code_simp

lemma demo_svc_sel:
  "sv_users demo_svc = mem_pg" "sv_sessions demo_svc = text_store" "sv_limiter demo_svc = mem_redis" "sv_argon2 demo_svc = demo_argon2"
  "sv_lower demo_svc = (\<lambda>x. x)" "sv_parse_ip demo_svc = (\<lambda>x. None)"
  by (simp_all add: demo_svc_def)

text \<open>An attempt on a key the server does not hold is allowed.\<close>

lemma demo_check:
  assumes "mem_up (w_redis w)" "mem_db (w_redis w) (rl_key key) = None" "1 \<le> lim_Requests limit" "millisecond \<le> lim_Window limit"
  shows "\<exists>x. check demo_svc key limit now w = (w\<lparr>w_redis := mem_put (rl_key key) (Some x) (w_redis w)\<rparr>, None)"
proof -
  have "0 < lim_Window limit div millisecond" using assms(4) by (simp add: pos_imp_zdiv_pos_iff)
  then show ?thesis
    using assms by (auto simp: check_def on_redis_def demo_svc_sel Allow_def incrementAndExpire_def mem_redis_def
        mem_find_def mem_put_def Let_def)
qed

lemma mem_put_sel [simp]: "mem_up (mem_put k x s) = mem_up s" "mem_db (mem_put k x s) = (mem_db s)(k := x)"
  by (simp_all add: mem_put_def)

text \<open>A login of a user without sessions on a working server succeeds.\<close>

lemma demo_create:
  assumes "mem_up s" "mem_db s (userIndexPrefix @ u) = None"
  shows "\<exists>s' sess. Create text_store (Some ''r'') u ip ua t s = (s', Inr (demo_token, sess)) \<and> mem_up s'"
  using assms by (simp add: sess_eval)

lemma demo_registers: "\<exists>w sess. Register demo_svc (demo_env 0) demo_cred demo_world = (w, Inr (demo_user, demo_token, sess))"
proof -
  obtain x where c: "check demo_svc (''register:ip:'' @ cr_IP demo_cred) RegisterPerIP 0 demo_world =
      (demo_world\<lparr>w_redis := mem_put (rl_key (''register:ip:'' @ cr_IP demo_cred)) (Some x) (w_redis demo_world)\<rparr>, None)"
    using demo_check [of demo_world "''register:ip:'' @ cr_IP demo_cred" RegisterPerIP 0]
    by (auto simp: demo_world_def empty_mem_def RegisterPerIP_def)
  let ?s = "mem_put (rl_key (''register:ip:'' @ cr_IP demo_cred)) (Some x) empty_mem"
  have d: "display_name_of ''A'' ''a@b.c'' = ''A''" "rune_count ''A'' = 1" by code_simp+
  have e: "userIndexPrefix @ demo_owner \<noteq> rl_key k" for k by simp
  obtain s' sess where cr: "Create text_store (Some ''r'') demo_owner ''i'' ''ua'' 0 ?s = (s', Inr (demo_token, sess))"
    using demo_create [of ?s demo_owner "''i''" "''ua''" 0] e by (auto simp: empty_mem_def)
  show ?thesis
    using cr unfolding Register_def demo_env_def req_env.simps c
    by (simp add: demo_valid_email demo_svc_sel Let_def d demo_policy demo_hashes on_pg_def on_redis_def create_session_def
        demo_register record_event_def demo_world_def demo_user_def demo_cred_sel split: prod.splits)
qed

lemma demo_logs_in: "\<exists>w sess. Login demo_svc (demo_env 1) demo_cred demo_home = (w, Inr (demo_user, demo_token, sess))"
proof -
  obtain x y where c: "check demo_svc (''login:ip:'' @ cr_IP demo_cred) LoginPerIP 1 demo_home =
      (demo_home\<lparr>w_redis := mem_put (rl_key (''login:ip:'' @ cr_IP demo_cred)) (Some x) empty_mem\<rparr>, None)"
    and c': "check demo_svc (''login:account:'' @ ''a@b.c'') LoginPerAccount 1
        (demo_home\<lparr>w_redis := mem_put (rl_key (''login:ip:'' @ cr_IP demo_cred)) (Some x) empty_mem\<rparr>) =
      (demo_home\<lparr>w_redis := mem_put (rl_key (''login:account:'' @ ''a@b.c'')) (Some y)
        (mem_put (rl_key (''login:ip:'' @ cr_IP demo_cred)) (Some x) empty_mem)\<rparr>, None)"
    using demo_check [of demo_home "''login:ip:'' @ cr_IP demo_cred" LoginPerIP 1]
      demo_check [of "demo_home\<lparr>w_redis := mem_put (rl_key (''login:ip:'' @ cr_IP demo_cred)) (Some _) empty_mem\<rparr>"
        "''login:account:'' @ ''a@b.c''" LoginPerAccount 1]
    by (fastforce simp: demo_home_def empty_mem_def LoginPerIP_def LoginPerAccount_def rl_key_def)
  let ?s = "mem_put (rl_key (''login:account:'' @ ''a@b.c'')) (Some y)
        (mem_put (rl_key (''login:ip:'' @ cr_IP demo_cred)) (Some x) empty_mem)"
  have b: "ByEmailWithCredential mem_pg ''a@b.c'' 1 (demo_account demo_hash) = (demo_account demo_hash, Inr (demo_user, demo_hash))"
    by (simp add: ByEmailWithCredential_def mem_pg_def demo_account_def empty_pg_def scan_user_def demo_user_def)
  obtain s1 where r: "Reset mem_redis (''login:account:'' @ ''a@b.c'') 1 ?s = (s1, None)" "mem_up s1"
      "mem_db s1 (userIndexPrefix @ demo_owner) = None"
    by (simp add: Reset_def mem_redis_def empty_mem_def)
  obtain s' sess where cr: "Create text_store (Some ''r'') demo_owner ''i'' ''ua'' 1 s1 = (s', Inr (demo_token, sess))"
    using demo_create [OF r(2,3), of "''i''" "''ua''" 1] by blast
  have pg: "w_pg (demo_home\<lparr>w_redis := z\<rparr>) = demo_account demo_hash" for z by (simp add: demo_home_def)
  have "Login demo_svc (demo_env 1) demo_cred demo_home =
      verify_login demo_svc (demo_env 1) demo_cred ''a@b.c'' demo_user demo_hash (demo_home\<lparr>w_redis := ?s\<rparr>)"
    unfolding Login_def Let_def demo_email demo_env_def req_env.simps c
    by (simp add: c' [simplified] on_pg_def pg demo_svc_sel b) (simp add: demo_user_def demo_home_def)
  also have "\<dots> = finish_login demo_svc (demo_env 1) demo_cred ''a@b.c'' demo_user (demo_home\<lparr>w_redis := ?s\<rparr>)"
    by (simp add: verify_login_def demo_svc_sel demo_cred_sel demo_env_def demo_verifies)
  finally show ?thesis
    using cr r(1) by (simp add: finish_login_def on_redis_def demo_svc_sel demo_env_def create_session_def demo_user_def demo_cred_sel)
qed

subsection \<open>Properties\<close>

text \<open>C16. A login is granted only to the holder of an account: when it succeeds there is an enabled account under
  that address, in any spelling the database identifies, whose stored hash the given password verifies
  against; the returned user is that account's and the new session belongs to it.\<close>

theorem login_sound:
  assumes "auth_world svc entries tables work uuid_in ci text_le" "Login svc env c w = (w', Inr (user, token, sess))"
  shows "\<exists>i u h b. t_users (tables (w_pg w)) i = Some u \<and> t_creds (tables (w_pg w)) i = Some h \<and>
    ci (u_email u) = ci (NormalizeEmail (sv_lower svc) (cr_Email c)) \<and> u_disabled_at u = None \<and>
    VerifyPassword (sv_argon2 svc) (en_slot env) h (cr_Password c) = Inr (True, b) \<and>
    user = scan_user i u \<and> s_UserID sess = i \<and> s_ID sess = hashToken (sv_sessions svc) token \<and> s_CreatedAt sess = en_now env"
  using auth_world.login_accepts [OF assms] by (auto simp: accounts_def password_matches_def)

theorem login_sound_witness:
  "\<exists>w sess b. Login demo_svc (demo_env 1) demo_cred demo_home = (w, Inr (demo_user, demo_token, sess)) \<and>
     s_UserID sess = usr_ID demo_user \<and> VerifyPassword demo_argon2 True demo_hash ''hunter2-hunter2'' = Inr (True, b)"
proof -
  obtain w sess where l: "Login demo_svc (demo_env 1) demo_cred demo_home = (w, Inr (demo_user, demo_token, sess))"
    using demo_logs_in by blast
  obtain i u where "demo_user = scan_user i u" "s_UserID sess = i" using login_sound [OF demo.auth_world_axioms l] by blast
  then have "s_UserID sess = usr_ID demo_user" by (metis scan_user_ID)
  then show ?thesis using l demo_verifies by blast
qed

text \<open>C32. A failed login says nothing about the account: whether the address is unknown, the account disabled or
  the password wrong, the answer is the same refusal, unless a quota was exceeded or a server failed; no
  session is created and no account changed.  And whether a quota was exceeded does not depend on the
  contents of the database.\<close>

theorem login_no_oracle:
  assumes "auth_world svc entries tables work uuid_in ci text_le" "Login svc env c w = (w', r)"
    and "\<forall>i u h. t_users (tables (w_pg w)) i = Some u \<and> t_creds (tables (w_pg w)) i = Some h \<and>
      ci (u_email u) = ci (NormalizeEmail (sv_lower svc) (cr_Email c)) \<and> u_disabled_at u = None \<longrightarrow>
      (\<forall>b. VerifyPassword (sv_argon2 svc) (en_slot env) h (cr_Password c) \<noteq> Inr (True, b))"
  shows "(r = Inl ErrInvalidCredentials \<or> (\<exists>d. r = Inl (RateLimitError d)) \<or> (\<exists>x. r = Inl (LimiterUnavailable x)) \<or>
      r = Inl (UserFault (DbFailed OpSelectUser)) \<or> r = Inl PanicFault) \<and>
    (\<forall>i. live (en_now env) (entries (w_redis w')) (sessionKeyPrefix @ i) = live (en_now env) (entries (w_redis w)) (sessionKeyPrefix @ i)) \<and>
    t_users (tables (w_pg w')) = t_users (tables (w_pg w)) \<and> t_creds (tables (w_pg w')) = t_creds (tables (w_pg w)) \<and>
    (\<forall>d p. r = Inl (RateLimitError d) \<longrightarrow> snd (Login svc env c (w\<lparr>w_pg := p\<rparr>)) = r)"
proof -
  have no: "\<not> password_matches svc (en_slot env) h (cr_Password c)"
    if "(i, u, h) \<in> accounts (tables (w_pg w))" "ci (u_email u) = ci (login_email svc c)" "u_disabled_at u = None" for i u h
    using assms(3) that by (auto simp: accounts_def password_matches_def)
  have l: "\<exists>e. r = Inl e \<and> (refused e \<or> limited e \<or> e = UserFault (DbFailed OpSelectUser))"
    by (rule auth_world.login_refuses(1) [OF assms(1,2)]) (rule no)
  have ss: "sessions_same entries (en_now env) (w_redis w) (w_redis w')"
    by (rule auth_world.login_refuses(2) [OF assms(1,2)]) (rule no)
  have sa: "same_accounts (tables (w_pg w)) (tables (w_pg w'))"
    by (rule auth_world.login_refuses(3) [OF assms(1,2)]) (rule no)
  have "\<forall>d p. r = Inl (RateLimitError d) \<longrightarrow> snd (Login svc env c (w\<lparr>w_pg := p\<rparr>)) = r"
    using limit_before_lookup assms(2) by (metis snd_conv)
  then show ?thesis
    using l ss sa by (auto simp: refused_def limited_def sessions_same_def same_accounts_def)
qed

theorem login_no_oracle_witness:
  "\<exists>e. snd (Login demo_svc (demo_env 1) demo_cred demo_world) = Inl e \<and>
     (e = ErrInvalidCredentials \<or> (\<exists>d. e = RateLimitError d) \<or> (\<exists>x. e = LimiterUnavailable x) \<or>
      e = UserFault (DbFailed OpSelectUser) \<or> e = PanicFault)"
proof -
  obtain w r where l: "Login demo_svc (demo_env 1) demo_cred demo_world = (w, r)" by fastforce
  have "t_users (pm_tables (w_pg demo_world)) i = None" for i
    by (simp add: demo_world_def pm_tables_def md_abs_def empty_pg_def)
  with login_no_oracle [OF demo.auth_world_axioms l] l show ?thesis by auto
qed

text \<open>C33. Whoever registers can log in: after a successful registration a login with the same password, under any
  spelling of the address that normalizes to the same text, gives that user, unless a quota was exceeded or a
  server failed.\<close>

theorem registered_can_login:
  assumes "auth_world svc entries tables work uuid_in ci text_le" "db_reach (sv_users svc) tables (w_pg w)"
    and "keys_sized (sv_argon2 svc)" "en_salt env = Some salt" "length salt = 16"
    and "Register svc env c w = (w1, Inr (user, token, sess))" "Login svc env' c' w1 = (w2, r)" "en_slot env'"
    and "NormalizeEmail (sv_lower svc) (cr_Email c') = NormalizeEmail (sv_lower svc) (cr_Email c)" "cr_Password c' = cr_Password c"
  shows "(\<exists>token' sess'. r = Inr (user, token', sess')) \<or> (\<exists>d. r = Inl (RateLimitError d)) \<or>
    (\<exists>x. r = Inl (LimiterUnavailable x)) \<or> r = Inl (UserFault (DbFailed OpSelectUser)) \<or> (\<exists>x. r = Inl (SessionFault x))"
proof (rule auth_world.register_parts [OF assms(1,6,2)])
  fix i u h
  assume a: "(i, u, h) \<in> accounts (tables (w_pg w1))" "u_email u = login_email svc c" "user = scan_user i u" "u_disabled_at u = None"
    "HashPassword (sv_argon2 svc) (en_salt env) (en_slot env) (cr_Password c) = Inr h" "db_reach (sv_users svc) tables (w_pg w1)"
  have pg: "postgres (sv_users svc) tables work uuid_in ci text_le" using assms(1) by (rule auth_world.axioms(2))
  have v: "VerifyPassword (sv_argon2 svc) (en_slot env') h (cr_Password c') = Inr (True, False)"
    using hash_accepted [OF assms(3,5)] a(5) assms(4,8,10) by auto
  have "ci (login_email svc c') = ci (u_email u)" using a(2) assms(9) by simp
  from auth_world.matching_login [OF assms(1) postgres.reach_ok [OF pg a(6)] a(1) this a(4) assms(7) v] a(3)
  show ?thesis by (auto simp: limited_def)
qed

theorem registered_can_login_witness:
  "\<exists>w sess e. Register demo_svc (demo_env 0) demo_cred demo_world = (w, Inr (demo_user, demo_token, sess)) \<and>
     (snd (Login demo_svc (demo_env 1) demo_cred w) = Inl e \<longrightarrow> e \<noteq> ErrInvalidCredentials)"
proof -
  obtain w sess where g: "Register demo_svc (demo_env 0) demo_cred demo_world = (w, Inr (demo_user, demo_token, sess))"
    using demo_registers by blast
  obtain w2 r where l: "Login demo_svc (demo_env 1) demo_cred w = (w2, r)" by fastforce
  have d: "db_reach (sv_users demo_svc) pm_tables (w_pg demo_world)" "keys_sized (sv_argon2 demo_svc)"
    "en_salt (demo_env 0) = Some ''0123456789abcdef''" "length ''0123456789abcdef'' = 16" "en_slot (demo_env 1)"
    using empty_pg_reach demo_argon2_sized by (simp_all add: demo_world_def demo_svc_sel demo_env_def)
  have "r \<noteq> Inl ErrInvalidCredentials"
    using registered_can_login [OF demo.auth_world_axioms d(1-4) g l d(5)] by auto
  then show ?thesis using g l by auto
qed


definition demo_event :: AuthEvent where
  "demo_event = \<lparr>ae_UserID = demo_owner, ae_Email = ''a@b.c'', ae_Event = [], ae_IP = ''i'', ae_UserAgent = ''ua''\<rparr>"

lemma demo_changes:
  "\<exists>w. ChangePassword demo_svc (demo_env 1) demo_owner ''hunter2-hunter2'' ''correct-staple'' [] demo_event demo_home = (w, None)"
proof -
  let ?k = "''password:ip:'' @ ae_IP demo_event"
  obtain x where c: "check demo_svc ?k PasswordChangeIP 1 demo_home =
      (demo_home\<lparr>w_redis := mem_put (rl_key ?k) (Some x) empty_mem\<rparr>, None)"
    using demo_check [of demo_home ?k PasswordChangeIP 1] by (auto simp: demo_home_def empty_mem_def PasswordChangeIP_def)
  have v: "ValidatePassword (\<lambda>x. x) ''correct-staple'' = None" by code_simp
  obtain upd where h: "HashPassword demo_argon2 (Some ''0123456789abcdef'') True ''correct-staple'' = Inr upd"
    by (simp add: HashPassword_def deriveKey_def demo_argon2_def argon2Params_def)
  have q: "CredentialByUserID mem_pg demo_owner 1 (demo_account demo_hash) = (demo_account demo_hash, Inr demo_hash)"
    by (simp add: CredentialByUserID_def mem_pg_def demo_owner_uuid demo_account_def empty_pg_def)
  obtain d where u: "UpdatePassword mem_pg demo_owner upd 1 (demo_account demo_hash) = (d, None)"
    by (simp add: UpdatePassword_def mem_pg_def demo_owner_uuid demo_account_def empty_pg_def)
  obtain s n where r: "RevokeAllForUser text_store demo_owner [] 1 (mem_put (rl_key ?k) (Some x) empty_mem) = (s, Inr n)"
    by (simp add: sess_eval)
  have pg: "w_pg (demo_home\<lparr>w_redis := z\<rparr>) = demo_account demo_hash" for z by (simp add: demo_home_def)
  have "ChangePassword demo_svc (demo_env 1) demo_owner ''hunter2-hunter2'' ''correct-staple'' [] demo_event demo_home =
      replace_password demo_svc (demo_env 1) demo_owner ''correct-staple'' [] demo_event
        (demo_home\<lparr>w_redis := mem_put (rl_key ?k) (Some x) empty_mem\<rparr>)"
    unfolding ChangePassword_def demo_env_def req_env.simps c
    by (simp add: on_pg_def pg demo_svc_sel q demo_verifies v) (simp add: demo_home_def)
  then show ?thesis
    using r u by (simp add: replace_password_def demo_env_def demo_svc_sel h on_pg_def pg on_redis_def)
qed


text \<open>C35. Behind the middleware a handler runs only for a live session of an enabled account: either it was called
  with the identity found under the token of the request, whose session has not passed its absolute expiry
  and whose user row is, at this moment, present and not disabled, or it was not called, the answer is 401 with
  the cookie cleared or 500, and the accounts are as they were.  Both ways the session store stays in a state
  its operations can reach.\<close>

theorem require_guards:
  assumes "auth_world (mw_svc mw) entries tables work uuid_in ci text_le"
    and "sess_reach (sv_sessions (mw_svc mw)) entries (t0, w_redis s)" "t0 \<le> now" "Require mw now handler r w s = (s', out)"
  shows "(\<exists>i s1 j u. (s', out) = handler (Some i) r w s1 \<and> tables (w_pg s1) = tables (w_pg s) \<and>
      sess_reach (sv_sessions (mw_svc mw)) entries (now, w_redis s1) \<and>
      id_Token i = tokenFrom mw r \<and> tokenFrom mw r \<noteq> [] \<and> now \<le> s_ExpiresAt (id_Session i) \<and>
      s_ID (id_Session i) = hashToken (sv_sessions (mw_svc mw)) (tokenFrom mw r) \<and>
      uuid_in (s_UserID (id_Session i)) = Some j \<and> t_users (tables (w_pg s)) j = Some u \<and>
      u_disabled_at u = None \<and> id_User i = scan_user j u) \<or>
    out \<in> {Done (http_Error 401 ''unauthenticated'' ''sign in to continue'' (ClearCookie mw w)), Done (internal_error w)} \<and>
      tables (w_pg s') = tables (w_pg s) \<and> sess_reach (sv_sessions (mw_svc mw)) entries (now, w_redis s')"
  using auth_world.require_guard [OF assms(1,4) refl assms(2,3)] by blast

definition demo_mw :: "(mem, mempg) middleware" where
  "demo_mw = NewMiddleware demo_svc (\<lambda>x. x) ''cb_session'' [] True (7 * 24 * hour) (30 * 24 * hour) False"

definition demo_request :: http_request where
  "demo_request = \<lparr>rq_method = ''GET'', rq_path = ''/api/auth/me'', rq_host = ''h'', rq_remote = ''1.2.3.4:5'', rq_header = (\<lambda>_. []),
     rq_query = (\<lambda>_. []), rq_cookies = [(''cb_session'', demo_token)], rq_slug = [], rq_contentLength = 0, rq_body = []\<rparr>"

definition demo_inside :: "(mem, mempg) world" where
  "demo_inside = \<lparr>w_redis = fst (Create text_store (Some ''r'') demo_owner ''i'' ''ua'' 1 empty_mem), w_pg = demo_account demo_hash\<rparr>"

definition demo_handler :: "(mem, mempg) world auth_handler" where
  "demo_handler i r w s = (s, Done (WriteHeader (if i = None then 500 else 204) w))"

theorem require_guards_witness:
  "\<exists>i :: Identity. snd (Require demo_mw 5 demo_handler demo_request no_response demo_inside) = Done (WriteHeader 204 no_response) \<and>
     id_Token i = demo_token \<and> id_User i = demo_user"
proof -
  have "is_ascii demo_owner" using mempg.uuid_ascii [OF demo_owner_uuid] .
  then have co: "coerce_utf8 demo_owner = demo_owner" by (rule coerce_ascii)
  have reach: "sess_reach (sv_sessions (mw_svc demo_mw)) mem_entries (1, w_redis demo_inside)"
    using sess_reach.more [OF empty_reach sess_step.create [OF _ \<open>is_ascii demo_owner\<close> prod.collapse [symmetric]], of 1]
    by (simp add: demo_mw_def NewMiddleware_def demo_svc_sel demo_inside_def)
  have aw: "auth_world (mw_svc demo_mw) mem_entries pm_tables pm_view mem_uuid mem_ci text_leq"
    using demo.auth_world_axioms by (simp add: demo_mw_def NewMiddleware_def)
  have tok: "tokenFrom demo_mw demo_request = demo_token"
    by (simp add: tokenFrom_def demo_request_def demo_mw_def NewMiddleware_def request_cookie_def)
  let ?s = "fst (Create text_store (Some ''r'') demo_owner ''i'' ''ua'' 1 empty_mem)"
  obtain sess where g: "Get text_store demo_token 5 ?s = (?s, Inr sess)" "s_UserID sess = demo_owner"
    by (simp add: sess_eval co)
  have b: "ByID mem_pg demo_owner 5 (demo_account demo_hash) = (demo_account demo_hash, Inr demo_user)"
    by (simp add: ByID_def mem_pg_def demo_owner_uuid demo_account_def empty_pg_def scan_user_def demo_user_def)
  have i: "identify demo_mw 5 demo_request demo_inside = (demo_inside, Inr \<lparr>id_User = demo_user, id_Session = sess, id_Token = demo_token\<rparr>)"
    using g b demo_token_nonempty unfolding identify_def tok Let_def
    by (simp add: demo_mw_def NewMiddleware_def demo_svc_sel on_redis_def on_pg_def demo_inside_def)
  obtain s' out where r: "Require demo_mw 5 demo_handler demo_request no_response demo_inside = (s', out)" by fastforce
  then have out: "out = Done (WriteHeader 204 no_response)" by (simp add: Require_def i demo_handler_def)
  then have "out \<notin> {Done (http_Error 401 ''unauthenticated'' ''sign in to continue'' (ClearCookie demo_mw no_response)),
      Done (internal_error no_response)}"
    by (auto simp: http_Error_def http_JSON_def ErrorBody_def internal_error_def Write_def WriteHeader_def no_response_def set_header_def
        Let_def ClearCookie_def http_SetCookie_def split: if_splits)
  with require_guards [OF aw reach _ r] obtain i' :: Identity and j u where "id_Token i' = demo_token" "id_User i' = scan_user j u"
    "t_users (pm_tables (w_pg demo_inside)) j = Some u" using tok by auto
  moreover from this have "scan_user j u = demo_user"
    by (auto simp: demo_inside_def pm_tables_def md_abs_def demo_account_def scan_user_def demo_user_def split: if_splits)
  ultimately show ?thesis using r out by auto
qed

end
