(* ===== verification/RoomHandlers.thy ===== *)
theory RoomHandlers
  imports AuthHandlers Rooms
begin

text \<open>
  \<^verbatim>\<open>internal/rooms/handlers.go\<close>: the room endpoints, each behind \<^verbatim>\<open>Require\<close>.  \<open>rh_pg\<close> is the pool the room
  service was built on and \<open>rh_rand\<close> the random source a request draws its slugs from.
\<close>

definition maxBodyBytes :: nat where "maxBodyBytes = 2 * 2 ^ 10"

record createRequest =
  crq_Name :: string

record 'p room_handlers =
  rh_pg :: "'p pg"
  rh_lower :: "string \<Rightarrow> string"
  rh_dec :: "string \<Rightarrow> bool \<Rightarrow> createRequest option"

definition json_room :: "Rooms.Room \<Rightarrow> json_value" where
  "json_room r = JObj ([(''id'', JStr (rm_ID r)), (''slug'', JStr (rm_Slug r)), (''name'', JStr (rm_Name r))] @
     [(''created_by'', JStr (rm_CreatedBy r))] @
     (if rm_CreatedByName r = [] then [] else [(''created_by_name'', JStr (rm_CreatedByName r))]) @
     [(''created_at'', JTime (rm_CreatedAt r))])"

definition room_not_found :: "http_response \<Rightarrow> http_response" where
  "room_not_found w = http_Error 404 ''room_not_found'' ''no such room'' w"

definition invalid_name_text :: string where
  "invalid_name_text = ''rooms: name must be 1-'' @ format_nat maxNameLength @ '' characters''"

subsection \<open>Endpoints\<close>

text \<open>The body is decoded only when the request announces one.\<close>

definition handle_create ::
    "'p room_handlers \<Rightarrow> rand \<Rightarrow> gotime \<Rightarrow> ('s, 'p, 'm) world_scheme auth_handler" where
  "handle_create h rand now i r w s = (case i of
     None \<Rightarrow> (s, Done (unauthenticated_error w))
   | Some i \<Rightarrow>
       (case (if rq_contentLength r > 0 then DecodeJSON (rh_dec h) maxBodyBytes r else Some \<lparr>crq_Name = []\<rparr>) of
          None \<Rightarrow> (s, Done (invalid_body w))
        | Some req \<Rightarrow>
            (case on_pg (Rooms_Create (rh_pg h) rand (usr_ID (id_User i)) (crq_Name req) now) s of
               (s1, Inl e) \<Rightarrow>
                 (s1, Done (if e = ErrInvalidName then http_Error 400 ''invalid_name'' invalid_name_text w
                            else internal_error w))
             | (s1, Inr room) \<Rightarrow> (s1, Done (http_JSON 201 (json_room room) w)))))"

definition handle_list :: "'p room_handlers \<Rightarrow> gotime \<Rightarrow> ('s, 'p, 'm) world_scheme auth_handler" where
  "handle_list h now i r w s = (case i of
     None \<Rightarrow> (s, Done (unauthenticated_error w))
   | Some _ \<Rightarrow>
       (case on_pg (Rooms_List (rh_pg h) now) s of
          (s1, Inl _) \<Rightarrow> (s1, Done (internal_error w))
        | (s1, Inr list) \<Rightarrow> (s1, Done (http_JSON 200 (JObj [(''rooms'', JArr (map json_room list))]) w))))"

definition handle_delete :: "'p room_handlers \<Rightarrow> gotime \<Rightarrow> ('s, 'p, 'm) world_scheme auth_handler" where
  "handle_delete h now i r w s = (case i of
     None \<Rightarrow> (s, Done (unauthenticated_error w))
   | Some _ \<Rightarrow>
       (case on_pg (Rooms_Delete (rh_pg h) (rh_lower h) (rq_slug r) now) s of
          (s1, Some e) \<Rightarrow> (s1, Done (if e = ErrNotFound then room_not_found w else internal_error w))
        | (s1, None) \<Rightarrow> (s1, Done (WriteHeader 204 w))))"

text \<open>This endpoint does not look at the identity itself: \<^verbatim>\<open>Require\<close> has.\<close>

definition handle_bySlug :: "'p room_handlers \<Rightarrow> gotime \<Rightarrow> ('s, 'p, 'm) world_scheme auth_handler" where
  "handle_bySlug h now i r w s =
     (case on_pg (Rooms_BySlug (rh_pg h) (rh_lower h) (rq_slug r) now) s of
        (s1, Inl e) \<Rightarrow> (s1, Done (if e = ErrNotFound then room_not_found w else internal_error w))
      | (s1, Inr room) \<Rightarrow> (s1, Done (http_JSON 200 (json_room room) w)))"

end
