(* ===== verification/Regexp.thy ===== *)
theory Regexp
  imports GoStrings
begin

text \<open>
  The part of Go's \<^verbatim>\<open>regexp\<close> the server uses: anchored sequences of byte classes with bounded repetition.  An
  expression has a language, and \<open>rx_matches\<close> decides it by derivatives; both patterns only name ASCII, so
  matching bytes and matching characters agree.
\<close>

datatype rx =
    RNever
  | REmpty
  | RClass "(char \<times> char) list"
  | RCat rx rx
  | RAlt rx rx

definition in_class :: "(char \<times> char) list \<Rightarrow> char \<Rightarrow> bool" where
  "in_class rs c \<longleftrightarrow> list_ex (\<lambda>(lo, hi). byte lo \<le> byte c \<and> byte c \<le> byte hi) rs"

text \<open>\<open>r{m,n}\<close>: \<open>m\<close> copies, then up to \<open>n - m\<close> optional ones, nested.\<close>

fun rx_rep :: "rx \<Rightarrow> nat \<Rightarrow> nat \<Rightarrow> rx" where
  "rx_rep r (Suc m) n = RCat r (rx_rep r m (n - 1))"
| "rx_rep r 0 (Suc n) = RAlt REmpty (RCat r (rx_rep r 0 n))"
| "rx_rep r 0 0 = REmpty"

definition rx_char :: "char \<Rightarrow> rx" where
  "rx_char c = RClass [(c, c)]"

fun rx_seq :: "rx list \<Rightarrow> rx" where
  "rx_seq [] = REmpty"
| "rx_seq (r # rs) = RCat r (rx_seq rs)"

subsection \<open>Matching\<close>

fun rx_lang :: "rx \<Rightarrow> string set" where
  "rx_lang RNever = {}"
| "rx_lang REmpty = {[]}"
| "rx_lang (RClass rs) = {[c] |c. in_class rs c}"
| "rx_lang (RCat r s) = {a @ b |a b. a \<in> rx_lang r \<and> b \<in> rx_lang s}"
| "rx_lang (RAlt r s) = rx_lang r \<union> rx_lang s"

fun rx_null :: "rx \<Rightarrow> bool" where
  "rx_null RNever \<longleftrightarrow> False"
| "rx_null REmpty \<longleftrightarrow> True"
| "rx_null (RClass rs) \<longleftrightarrow> False"
| "rx_null (RCat r s) \<longleftrightarrow> rx_null r \<and> rx_null s"
| "rx_null (RAlt r s) \<longleftrightarrow> rx_null r \<or> rx_null s"

fun rx_deriv :: "char \<Rightarrow> rx \<Rightarrow> rx" where
  "rx_deriv c RNever = RNever"
| "rx_deriv c REmpty = RNever"
| "rx_deriv c (RClass rs) = (if in_class rs c then REmpty else RNever)"
| "rx_deriv c (RCat r s) =
     (if rx_null r then RAlt (RCat (rx_deriv c r) s) (rx_deriv c s) else RCat (rx_deriv c r) s)"
| "rx_deriv c (RAlt r s) = RAlt (rx_deriv c r) (rx_deriv c s)"

fun rx_matches :: "rx \<Rightarrow> string \<Rightarrow> bool" where
  "rx_matches r [] \<longleftrightarrow> rx_null r"
| "rx_matches r (c # s) \<longleftrightarrow> rx_matches (rx_deriv c r) s"

lemma rx_null_lang: "rx_null r \<longleftrightarrow> [] \<in> rx_lang r"
  by (induction r) auto

lemma rx_deriv_lang: "s \<in> rx_lang (rx_deriv c r) \<longleftrightarrow> c # s \<in> rx_lang r"
proof (induction r arbitrary: s)
  case (RCat r1 r2)
  have "c # s \<in> rx_lang (RCat r1 r2) \<longleftrightarrow>
      (\<exists>a b. s = a @ b \<and> c # a \<in> rx_lang r1 \<and> b \<in> rx_lang r2) \<or> ([] \<in> rx_lang r1 \<and> c # s \<in> rx_lang r2)"
    by (auto simp: Cons_eq_append_conv)
  with RCat show ?case by (auto simp: rx_null_lang)
qed auto

lemma rx_matches_lang: "rx_matches r s \<longleftrightarrow> s \<in> rx_lang r"
  by (induction s arbitrary: r) (simp_all add: rx_null_lang rx_deriv_lang)

subsection \<open>Repeated classes\<close>

lemma rx_lang_cat_class: "s \<in> rx_lang (RCat (RClass rs) r) \<longleftrightarrow> (\<exists>c t. s = c # t \<and> in_class rs c \<and> t \<in> rx_lang r)"
  by (auto intro: exI [of _ "[_]"])

lemma rx_lang_seq_Cons: "s \<in> rx_lang (rx_seq (r # rs)) \<longleftrightarrow> (\<exists>a b. s = a @ b \<and> a \<in> rx_lang r \<and> b \<in> rx_lang (rx_seq rs))"
  by simp

lemma rx_lang_rep:
  "m \<le> n \<Longrightarrow> s \<in> rx_lang (rx_rep (RClass rs) m n) \<longleftrightarrow> m \<le> length s \<and> length s \<le> n \<and> list_all (in_class rs) s"
proof (induction "RClass rs" m n arbitrary: s rule: rx_rep.induct)
  case (1 m n)
  have "s \<in> rx_lang (rx_rep (RClass rs) (Suc m) n) \<longleftrightarrow>
      (\<exists>c t. s = c # t \<and> in_class rs c \<and> t \<in> rx_lang (rx_rep (RClass rs) m (n - 1)))"
    by (simp only: rx_rep.simps rx_lang_cat_class)
  also have "\<dots> \<longleftrightarrow> (\<exists>c t. s = c # t \<and> in_class rs c \<and> m \<le> length t \<and> length t \<le> n - 1 \<and> list_all (in_class rs) t)"
    using 1 by auto
  also have "\<dots> \<longleftrightarrow> Suc m \<le> length s \<and> length s \<le> n \<and> list_all (in_class rs) s"
    using 1(2) by (cases s) auto
  finally show ?case .
next
  case (2 n)
  have "s \<in> rx_lang (rx_rep (RClass rs) 0 (Suc n)) \<longleftrightarrow>
      s = [] \<or> (\<exists>c t. s = c # t \<and> in_class rs c \<and> t \<in> rx_lang (rx_rep (RClass rs) 0 n))"
    using rx_lang_cat_class [of s rs "rx_rep (RClass rs) 0 n"] by simp
  also have "\<dots> \<longleftrightarrow> s = [] \<or> (\<exists>c t. s = c # t \<and> in_class rs c \<and> length t \<le> n \<and> list_all (in_class rs) t)"
    using 2 by auto
  also have "\<dots> \<longleftrightarrow> length s \<le> Suc n \<and> list_all (in_class rs) s" by (cases s) auto
  finally show ?case by simp
qed auto

lemma rx_lang_char [simp]: "rx_lang (rx_char c) = {[c]}"
proof -
  have "byte c \<le> byte d \<and> byte d \<le> byte c \<longleftrightarrow> d = c" for d
    by (auto simp: byte_def intro: of_char_eq_iff [THEN iffD1])
  then show ?thesis by (simp add: rx_char_def in_class_def)
qed

end
