(* ===== verification/Invites.thy ===== *)
theory Invites
  imports RoomHandlers InboxProps RoomProps AuthWorld Regexp
begin

text \<open>
  \<^verbatim>\<open>internal/invites/handlers.go\<close>: ringing a user into a room.  The world gains the inbox hub; \<open>iv_rooms\<close> and
  \<open>iv_users\<close> are the database as the room service and the user store see it, \<open>iv_dec\<close> decodes the request
  body to its \<^verbatim>\<open>user_id\<close>.
\<close>

record ('s, 'p) ib_world = "('s, 'p) world" +
  wd_inbox :: inbox

record ('s, 'p) invite_handlers =
  iv_rooms :: "'p pg"
  iv_users :: "'p pg"
  iv_limiter :: "'s redis"
  iv_lower :: "string \<Rightarrow> string"
  iv_dec :: "string \<Rightarrow> bool \<Rightarrow> string option"

definition maxBodyBytes :: nat where "maxBodyBytes = 2 ^ 10"

definition PerSender :: Limit where "PerSender = \<lparr>lim_Requests = 30, lim_Window = minute\<rparr>"

definition hex_class :: "(char \<times> char) list" where
  "hex_class = [(CHR ''0'', CHR ''9''), (CHR ''a'', CHR ''f''), (CHR ''A'', CHR ''F'')]"

definition uuidPattern :: rx where
  "uuidPattern = rx_seq
     [rx_rep (RClass hex_class) 8 8, rx_char (CHR ''-''), rx_rep (RClass hex_class) 4 4, rx_char (CHR ''-''),
      rx_rep (RClass hex_class) 4 4, rx_char (CHR ''-''), rx_rep (RClass hex_class) 4 4, rx_char (CHR ''-''),
      rx_rep (RClass hex_class) 12 12]"

definition slugPattern :: rx where
  "slugPattern = RCat (RClass [(CHR ''a'', CHR ''z''), (CHR ''0'', CHR ''9'')])
     (rx_rep (RClass [(CHR ''a'', CHR ''z''), (CHR ''0'', CHR ''9''), (CHR ''-'', CHR ''-'')]) 2 63)"

definition invite_event :: "string \<Rightarrow> string \<Rightarrow> string \<Rightarrow> User \<Rightarrow> Event" where
  "invite_event eventType slug name u =
     \<lparr>ev_Type = eventType, ev_Room = \<lparr>room_Slug = slug, room_Name = name\<rparr>,
      ev_From = \<lparr>sender_ID = usr_ID u, sender_DisplayName = usr_DisplayName u\<rparr>\<rparr>"

definition invalid_user :: "string \<Rightarrow> http_response \<Rightarrow> http_response" where
  "invalid_user message w = http_Error 400 ''invalid_user'' message w"

text \<open>The room's name, empty when a cancel or a decline outlives the room; otherwise the error answer.\<close>

definition invite_room ::
    "('s, 'p) invite_handlers \<Rightarrow> string \<Rightarrow> string \<Rightarrow> gotime \<Rightarrow> ('s, 'p, 'm) ib_world_scheme \<Rightarrow>
     ('s, 'p, 'm) ib_world_scheme \<times> ((http_response \<Rightarrow> http_response) + string)" where
  "invite_room h eventType slug now s =
     (case on_pg (Rooms_BySlug (iv_rooms h) (iv_lower h) slug now) s of
        (s1, Inr room) \<Rightarrow> (s1, Inr (rm_Name room))
      | (s1, Inl e) \<Rightarrow>
          (s1, if e = ErrNotFound \<and> eventType \<noteq> TypeInvite then Inr []
               else if e = ErrNotFound then Inl room_not_found else Inl internal_error))"

definition invite_deliver ::
    "('s, 'p) invite_handlers \<Rightarrow> ib_sched \<Rightarrow> Event \<Rightarrow> string \<Rightarrow> gotime \<Rightarrow> http_response \<Rightarrow> ('s, 'p, 'm) ib_world_scheme \<Rightarrow>
     ('s, 'p, 'm) ib_world_scheme \<times> http_response" where
  "invite_deliver h S event recipient now w s =
     (case on_pg (ByID (iv_users h) recipient now) s of
        (s1, Inl e) \<Rightarrow>
          (s1, if e = ErrUserNotFound \<or> e = ErrUserDisabled
               then http_Error 404 ''user_not_found'' ''no such user'' w else internal_error w)
      | (s1, Inr _) \<Rightarrow>
          (case Deliver S recipient (Event_Encode event) (wd_inbox s1) of
             (ib, delivered) \<Rightarrow>
               (s1\<lparr>wd_inbox := ib\<rparr>, http_JSON 200 (JObj [(''delivered'', JInt (int delivered))]) w)))"

definition invite_handle ::
    "('s, 'p) invite_handlers \<Rightarrow> ib_sched \<Rightarrow> string \<Rightarrow> gotime \<Rightarrow> ('s, 'p, 'm) ib_world_scheme auth_handler" where
  "invite_handle h S eventType now i r w s = (case i of
     None \<Rightarrow> (s, Done (unauthenticated_error w))
   | Some i \<Rightarrow>
       (case DecodeJSON (iv_dec h) maxBodyBytes r of
          None \<Rightarrow> (s, Done (invalid_body w))
        | Some userID \<Rightarrow>
            (let recipient = to_lower (iv_lower h) (trim_space userID);
                 slug = to_lower (iv_lower h) (trim_space (rq_slug r))
             in if \<not> rx_matches uuidPattern recipient then (s, Done (invalid_user ''user_id must be a user id'' w))
                else if recipient = usr_ID (id_User i) then (s, Done (invalid_user ''you cannot ring yourself'' w))
                else if \<not> rx_matches slugPattern slug then (s, Done (room_not_found w))
                else case on_redis (Allow (iv_limiter h) (''invite:user:'' @ usr_ID (id_User i)) PerSender now) s of
                  (s1, allowed, retryAfter, Some _) \<Rightarrow> (s1, Done (internal_error w))
                | (s1, allowed, retryAfter, None) \<Rightarrow>
                    if \<not> allowed
                    then (s1, Done (http_Error 429 ''rate_limited'' ''too many calls, try again later'' (retry_after retryAfter w)))
                    else (case invite_room h eventType slug now s1 of
                            (s2, Inl answer) \<Rightarrow> (s2, Done (answer w))
                          | (s2, Inr name) \<Rightarrow>
                              (case invite_deliver h S (invite_event eventType slug name (id_User i)) recipient now w s2 of
                                 (s3, w3) \<Rightarrow> (s3, Done w3))))))"

subsection \<open>The two patterns\<close>

definition is_hex :: "char \<Rightarrow> bool" where
  "is_hex c \<longleftrightarrow> is_digit c \<or> 0x61 \<le> byte c \<and> byte c \<le> 0x66 \<or> 0x41 \<le> byte c \<and> byte c \<le> 0x46"

lemma in_hex_class: "in_class hex_class = is_hex"
  by (auto simp: fun_eq_iff in_class_def hex_class_def is_hex_def is_digit_def byte_def)

lemma in_slug_class:
  "in_class [(CHR ''a'', CHR ''z''), (CHR ''0'', CHR ''9'')] = slug_start"
  "in_class [(CHR ''a'', CHR ''z''), (CHR ''0'', CHR ''9''), (CHR ''-'', CHR ''-'')] = (\<lambda>c. slug_start c \<or> c = CHR ''-'')"
proof -
  have "byte c = 45 \<longleftrightarrow> c = CHR ''-''" for c
    using of_char_eq_iff [of c "CHR ''-''", where 'a = nat] by (simp add: byte_def)
  moreover have "45 \<le> n \<and> n \<le> 45 \<longleftrightarrow> n = (45::nat)" for n by auto
  ultimately show "in_class [(CHR ''a'', CHR ''z''), (CHR ''0'', CHR ''9'')] = slug_start"
    "in_class [(CHR ''a'', CHR ''z''), (CHR ''0'', CHR ''9''), (CHR ''-'', CHR ''-'')] = (\<lambda>c. slug_start c \<or> c = CHR ''-'')"
    by (auto simp: fun_eq_iff in_class_def slug_start_def is_digit_def byte_def)
qed

lemma slugPattern_format: "rx_matches slugPattern s \<longleftrightarrow> slug_format s"
proof -
  have "rx_matches slugPattern s \<longleftrightarrow>
      (\<exists>c t. s = c # t \<and> slug_start c \<and> 2 \<le> length t \<and> length t \<le> 63 \<and> list_all (\<lambda>c. slug_start c \<or> c = CHR ''-'') t)"
    unfolding rx_matches_lang slugPattern_def rx_lang_cat_class by (simp add: rx_lang_rep in_slug_class)
  then show ?thesis by (cases s) (auto simp: slug_format_def)
qed

definition hex_group :: "nat \<Rightarrow> string \<Rightarrow> bool" where
  "hex_group n g \<longleftrightarrow> length g = n \<and> list_all is_hex g"

lemma rx_hex_group: "g \<in> rx_lang (rx_rep (RClass hex_class) n n) \<longleftrightarrow> hex_group n g"
  by (auto simp: rx_lang_rep in_hex_class hex_group_def)

lemma dash_not_hex: "hex_group n g \<Longrightarrow> CHR ''-'' \<notin> set g"
  by (auto simp: hex_group_def list_all_iff is_hex_def is_digit_def byte_def)

lemma uuidPattern_groups:
  "rx_matches uuidPattern s \<longleftrightarrow> list_all2 hex_group [8, 4, 4, 4, 12] (split (CHR ''-'') s)"
proof -
  let ?d = "CHR ''-''"
  have "rx_matches uuidPattern s \<longleftrightarrow> (\<exists>a b c d e. s = a @ ?d # b @ ?d # c @ ?d # d @ ?d # e \<and>
      hex_group 8 a \<and> hex_group 4 b \<and> hex_group 4 c \<and> hex_group 4 d \<and> hex_group 12 e)"
    unfolding rx_matches_lang uuidPattern_def rx_lang_seq_Cons rx_hex_group rx_lang_char by fastforce
  also have "\<dots> \<longleftrightarrow> list_all2 hex_group [8, 4, 4, 4, 12] (split ?d s)"
  proof
    assume "\<exists>a b c d e. s = a @ ?d # b @ ?d # c @ ?d # d @ ?d # e \<and>
      hex_group 8 a \<and> hex_group 4 b \<and> hex_group 4 c \<and> hex_group 4 d \<and> hex_group 12 e"
    then show "list_all2 hex_group [8, 4, 4, 4, 12] (split ?d s)"
      using dash_not_hex by (auto simp: split_append split_no_sep)
  next
    assume "list_all2 hex_group [8, 4, 4, 4, 12] (split ?d s)"
    then obtain a b c d e where g: "split ?d s = [a, b, c, d, e]" "hex_group 8 a" "hex_group 4 b" "hex_group 4 c"
      "hex_group 4 d" "hex_group 12 e" by (auto simp: list_all2_Cons1)
    have "s = a @ ?d # b @ ?d # c @ ?d # d @ ?d # e" using join_split [of ?d s] g(1) by simp
    with g(2-6) show "\<exists>a b c d e. s = a @ ?d # b @ ?d # c @ ?d # d @ ?d # e \<and>
      hex_group 8 a \<and> hex_group 4 b \<and> hex_group 4 c \<and> hex_group 4 d \<and> hex_group 12 e" by blast
  qed
  finally show ?thesis .
qed

text \<open>C37. The two patterns of the package match what their comments say: \<^verbatim>\<open>slugPattern\<close> exactly the strings the
  check constraint on room slugs accepts, and \<^verbatim>\<open>uuidPattern\<close> exactly the strings whose parts between dashes are
  8, 4, 4, 4 and 12 hexadecimal digits; so every slug the service can generate passes.\<close>

theorem patterns_exact:
  "rx_matches slugPattern = slug_format \<and>
   rx_matches uuidPattern = (\<lambda>s. list_all2 hex_group [8, 4, 4, 4, 12] (split (CHR ''-'') s)) \<and>
   (\<forall>rand k. case generateSlug rand k of None \<Rightarrow> True | Some slug \<Rightarrow> rx_matches slugPattern slug)"
  using generated_canonical(1) by (auto simp: fun_eq_iff slugPattern_format uuidPattern_groups split: option.splits)

end
