(* ===== verification/InviteProps.thy ===== *)
theory InviteProps
  imports Invites
begin

text \<open>What ringing does, for any database and any key-value server with the promised behaviour.\<close>

context postgres
begin

lemma BySlug_spec:
  assumes "Rooms_BySlug P ut x t s = (s', r)"
  shows "tables s' = tables s"
    and "r = Inr room \<Longrightarrow> \<exists>i q. t_rooms (tables s) i = Some q \<and> r_slug q = to_lower ut (trim_space x) \<and> room = scan_room i q []"
    and "r = Inl ErrNotFound \<Longrightarrow> \<not> slug_taken (to_lower ut (trim_space x)) (tables s)"
proof -
  obtain v where v: "pg_select_room P (to_lower ut (trim_space x)) t s = (s', v)"
    using assms by (auto simp: Rooms_BySlug_def Store_BySlug_def split: prod.splits sum.splits option.splits)
  show "tables s' = tables s" using room_keeps [OF v] .
  have e: "r = (case v of Inl _ \<Rightarrow> Inl (RoomDbFailed SelectRoom) | Inr None \<Rightarrow> Inl ErrNotFound
      | Inr (Some (i, q)) \<Rightarrow> Inr (scan_room i q []))"
    using assms v by (auto simp: Rooms_BySlug_def Store_BySlug_def split: sum.splits option.splits)
  show "r = Inr room \<Longrightarrow> \<exists>i q. t_rooms (tables s) i = Some q \<and> r_slug q = to_lower ut (trim_space x) \<and> room = scan_room i q []"
    using e v room_ok [of "to_lower ut (trim_space x)" t s s' "projr v"] by (auto split: sum.splits option.splits)
  show "r = Inl ErrNotFound \<Longrightarrow> \<not> slug_taken (to_lower ut (trim_space x)) (tables s)"
    using e v room_ok [of "to_lower ut (trim_space x)" t s s' "projr v"]
    by (auto simp: slug_taken_def split: sum.splits option.splits)
qed

end

subsection \<open>Parts of a request\<close>

definition recipient_ok :: "(string \<Rightarrow> string option) \<Rightarrow> pgdb \<Rightarrow> string \<Rightarrow> bool" where
  "recipient_ok uuid_in d y \<longleftrightarrow> (\<exists>j u. uuid_in y = Some j \<and> t_users d j = Some u \<and> u_disabled_at u = None)"

definition names_room :: "pgdb \<Rightarrow> string \<Rightarrow> string \<Rightarrow> string \<Rightarrow> bool" where
  "names_room d eventType slug name \<longleftrightarrow>
     (\<exists>k q. t_rooms d k = Some q \<and> r_slug q = slug \<and> r_name q = name) \<or>
     (eventType \<noteq> TypeInvite \<and> name = [] \<and> \<not> slug_taken slug d)"

text \<open>Every connection the event was queued on, and nothing else changed.\<close>

definition rang :: "string \<Rightarrow> string \<Rightarrow> inbox \<Rightarrow> inbox \<Rightarrow> bool" where
  "rang recipient data ib ib' \<longleftrightarrow>
     (\<forall>c\<in>set (conns recipient ib'). c \<in> set (conns recipient ib) \<and> ib_log ib' c = ib_log ib c @ [data]) \<and>
     (\<forall>c\<in>set (conns recipient ib) - set (conns recipient ib'). ib_full ib c \<and> \<not> ib_open ib' c \<and> ib_log ib' c = ib_log ib c) \<and>
     (\<forall>v. v \<noteq> recipient \<longrightarrow> conns v ib' = conns v ib) \<and>
     (\<forall>c. c \<notin> set (conns recipient ib) \<longrightarrow> ib_heap ib' c = ib_heap ib c)"

lemma on_pg_inbox [simp]: "on_pg f s = (s', a) \<Longrightarrow> wd_inbox s' = wd_inbox s"
  for s :: "('s, 'p, 'm) ib_world_scheme"
  by (auto simp: on_pg_def split: prod.splits)

lemma on_redis_inbox [simp]: "on_redis f s = (s', a) \<Longrightarrow> wd_inbox s' = wd_inbox s"
  for s :: "('s, 'p, 'm) ib_world_scheme"
  by (auto simp: on_redis_def split: prod.splits)

lemma invite_room_spec:
  fixes s :: "('s, 'p, 'm) ib_world_scheme"
  assumes pg: "postgres (iv_rooms h) tables work uuid_in ci text_le"
    and "slug_format slug" "invite_room h eventType slug now s = (s', res)"
  shows "tables (w_pg s') = tables (w_pg s)" "wd_inbox s' = wd_inbox s"
    and "res = Inr name \<Longrightarrow> names_room (tables (w_pg s)) eventType slug name"
    and "res = Inl answer \<Longrightarrow> answer = internal_error \<or> (answer = room_not_found \<and> eventType = TypeInvite \<and> \<not> slug_taken slug (tables (w_pg s)))"
proof -
  obtain v where v: "on_pg (Rooms_BySlug (iv_rooms h) (iv_lower h) slug now) s = (s', v)"
    using assms(3) by (auto simp: invite_room_def split: prod.splits sum.splits)
  note q = on_pg_parts [OF v, THEN conjunct2]
  note spec = postgres.BySlug_spec [OF pg q, unfolded slug_format_canonical(1) [OF assms(2)]]
  show "tables (w_pg s') = tables (w_pg s)" using spec(1) .
  show "wd_inbox s' = wd_inbox s" using v by simp
  have r: "res = (case v of Inr room \<Rightarrow> Inr (rm_Name room) | Inl e \<Rightarrow>
      if e = ErrNotFound \<and> eventType \<noteq> TypeInvite then Inr [] else if e = ErrNotFound then Inl room_not_found else Inl internal_error)"
    using assms(3) v by (auto simp: invite_room_def split: sum.splits)
  show "res = Inr name \<Longrightarrow> names_room (tables (w_pg s)) eventType slug name"
    using r spec(2,3) by (fastforce simp: names_room_def scan_room_def split: sum.splits if_splits)
  show "res = Inl answer \<Longrightarrow> answer = internal_error \<or> (answer = room_not_found \<and> eventType = TypeInvite \<and> \<not> slug_taken slug (tables (w_pg s)))"
    using r spec(3) by (auto split: sum.splits if_splits)
qed

lemma invite_deliver_spec:
  fixes s :: "('s, 'p, 'm) ib_world_scheme"
  assumes pg: "postgres (iv_users h) tables work uuid_in ci text_le"
    and "ib_inv (wd_inbox s)" "ib_valid S" "rs_sent w = None" "invite_deliver h S ev recipient now w s = (s', w')"
  shows "tables (w_pg s') = tables (w_pg s)"
    and "wd_inbox s' = wd_inbox s \<and> status_of (Done w') \<in> {Some 404, Some 500} \<or>
      recipient_ok uuid_in (tables (w_pg s)) recipient \<and> rang recipient (Event_Encode ev) (wd_inbox s) (wd_inbox s') \<and>
      w' = http_JSON 200 (JObj [(''delivered'', JInt (int (length (conns recipient (wd_inbox s')))))]) w"
proof -
  obtain s1 v where v: "on_pg (ByID (iv_users h) recipient now) s = (s1, v)" by fastforce
  note spec = postgres.ByID_spec [OF pg on_pg_parts [OF v, THEN conjunct2]]
  have ib: "wd_inbox s1 = wd_inbox s" using v by simp
  show "tables (w_pg s') = tables (w_pg s)" using spec(1) assms(5) v
    by (auto simp: invite_deliver_def split: sum.splits prod.splits)
  show "wd_inbox s' = wd_inbox s \<and> status_of (Done w') \<in> {Some 404, Some 500} \<or>
      recipient_ok uuid_in (tables (w_pg s)) recipient \<and> rang recipient (Event_Encode ev) (wd_inbox s) (wd_inbox s') \<and>
      w' = http_JSON 200 (JObj [(''delivered'', JInt (int (length (conns recipient (wd_inbox s')))))]) w"
  proof (cases v)
    case (Inl e)
    then show ?thesis using assms(4,5) v ib by (auto simp: invite_deliver_def internal_error_def split: if_splits)
  next
    case (Inr u)
    obtain ib' n where d: "Deliver S recipient (Event_Encode ev) (wd_inbox s) = (ib', n)" by fastforce
    from Deliver_counts [OF assms(2,3) d] have "rang recipient (Event_Encode ev) (wd_inbox s) ib'" "n = length (conns recipient ib')"
      by (simp_all add: rang_def)
    moreover have "recipient_ok uuid_in (tables (w_pg s)) recipient" using spec(2) Inr by (auto simp: recipient_ok_def)
    ultimately show ?thesis using assms(5) v Inr ib d by (auto simp: invite_deliver_def)
  qed
qed

text \<open>The checks before anything is looked up, and the quota.\<close>

lemma invite_handle_steps:
  fixes s :: "('s, 'p, 'm) ib_world_scheme"
  assumes "invite_handle h S eventType now (Some i) r w s = (s', out)" "rs_sent w = None"
  obtains (refused) "w_pg s' = w_pg s" "wd_inbox s' = wd_inbox s" "status_of out \<in> {Some 400, Some 404, Some 429, Some 500}"
  | (looked_up) uid recipient slug s1 retry s2 res where "DecodeJSON (iv_dec h) Invites.maxBodyBytes r = Some uid"
      "recipient = to_lower (iv_lower h) (trim_space uid)" "recipient \<noteq> usr_ID (id_User i)" "rx_matches uuidPattern recipient"
      "slug = to_lower (iv_lower h) (trim_space (rq_slug r))" "slug_format slug"
      "on_redis (Allow (iv_limiter h) (''invite:user:'' @ usr_ID (id_User i)) PerSender now) s = (s1, True, retry, None)"
      "invite_room h eventType slug now s1 = (s2, res)"
      "(s', out) = (case res of Inl answer \<Rightarrow> (s2, Done (answer w)) | Inr name \<Rightarrow>
         (case invite_deliver h S (invite_event eventType slug name (id_User i)) recipient now w s2 of (s3, w3) \<Rightarrow> (s3, Done w3)))"
proof (cases "DecodeJSON (iv_dec h) Invites.maxBodyBytes r")
  case None
  then show ?thesis using assms refused by (auto simp: invite_handle_def invalid_body_def)
next
  case (Some uid)
  let ?r = "to_lower (iv_lower h) (trim_space uid)" and ?slug = "to_lower (iv_lower h) (trim_space (rq_slug r))"
  show ?thesis
  proof (cases "rx_matches uuidPattern ?r \<and> ?r \<noteq> usr_ID (id_User i) \<and> rx_matches slugPattern ?slug")
    case False
    then have "s' = s" "status_of out \<in> {Some 400, Some 404}"
      using assms Some by (auto simp: invite_handle_def Let_def invalid_user_def room_not_found_def split: if_splits)
    then show ?thesis using refused by auto
  next
    case True
    obtain s1 allowed retry e
      where a: "on_redis (Allow (iv_limiter h) (''invite:user:'' @ usr_ID (id_User i)) PerSender now) s = (s1, allowed, retry, e)"
      by (metis prod_cases4)
    show ?thesis
    proof (cases "e = None \<and> allowed")
      case False
      then have "s' = s1" "status_of out \<in> {Some 429, Some 500}"
        using assms Some True a by (auto simp: invite_handle_def Let_def internal_error_def retry_after_def split: option.splits if_splits)
      then show ?thesis using refused a on_redis_parts [OF a] by auto
    next
      case ok: True
      obtain s2 res where "invite_room h eventType ?slug now s1 = (s2, res)" by fastforce
      then show ?thesis using looked_up [OF Some refl _ _ refl] True a ok assms(1) Some
        by (simp add: invite_handle_def Let_def slugPattern_format split: sum.splits)
    qed
  qed
qed

text \<open>C36. Ringing, cancelling and declining: the request changes no table, and either nobody is reached and the
  answer is an error, or the recipient is an existing enabled user other than the caller, the caller was within
  its quota, the room is the one named by the path (a cancel or a decline may outlive it), every connection of
  the recipient that is still draining was given exactly one event, stamped with the caller's own identity, the
  others were closed, nobody else's connections changed, and the answer counts the connections reached.\<close>

theorem invite_rings:
  fixes s :: "('s, 'p, 'm) ib_world_scheme"
  assumes "postgres (iv_rooms h) tables work uuid_in ci text_le" "postgres (iv_users h) tables work uuid_in ci text_le"
    and "ib_inv (wd_inbox s)" "ib_valid S" "rs_sent w = None" "invite_handle h S eventType now (Some i) r w s = (s', out)"
  shows "tables (w_pg s') = tables (w_pg s) \<and>
    (wd_inbox s' = wd_inbox s \<and> status_of out \<in> {Some 400, Some 404, Some 429, Some 500} \<or>
     (\<exists>uid recipient slug name. DecodeJSON (iv_dec h) Invites.maxBodyBytes r = Some uid \<and>
        recipient = to_lower (iv_lower h) (trim_space uid) \<and> recipient \<noteq> usr_ID (id_User i) \<and>
        recipient_ok uuid_in (tables (w_pg s)) recipient \<and>
        slug = to_lower (iv_lower h) (trim_space (rq_slug r)) \<and> names_room (tables (w_pg s)) eventType slug name \<and>
        fst (snd (Allow (iv_limiter h) (''invite:user:'' @ usr_ID (id_User i)) PerSender now (w_redis s))) \<and>
        rang recipient (Event_Encode (invite_event eventType slug name (id_User i))) (wd_inbox s) (wd_inbox s') \<and>
        out = Done (http_JSON 200 (JObj [(''delivered'', JInt (int (length (conns recipient (wd_inbox s')))))]) w)))"
  using assms(6,5)
proof (cases rule: invite_handle_steps)
  case refused
  then show ?thesis by simp
next
  case (looked_up uid recipient slug s1 retry s2 res)
  note p = on_redis_parts [OF looked_up(7)]
  have ib1: "wd_inbox s1 = wd_inbox s" using looked_up(7) by simp
  note room = invite_room_spec [OF assms(1) looked_up(6,8)]
  show ?thesis
  proof (cases res)
    case (Inl answer)
    then have "s' = s2" "out = Done (answer w)" using looked_up(9) by auto
    moreover from this have "status_of out \<in> {Some 404, Some 500}"
      using room(4) [OF Inl] assms(5) by (auto simp: internal_error_def room_not_found_def)
    ultimately show ?thesis using room(1,2) p ib1 by auto
  next
    case (Inr name)
    obtain w' where d: "invite_deliver h S (invite_event eventType slug name (id_User i)) recipient now w s2 = (s', w')" "out = Done w'"
      using looked_up(9) Inr by (auto split: prod.splits)
    have "ib_inv (wd_inbox s2)" using assms(3) room(2) ib1 by simp
    note del = invite_deliver_spec [OF assms(2) this assms(4,5) d(1)]
    have t: "tables (w_pg s2) = tables (w_pg s)" "wd_inbox s2 = wd_inbox s" using room(1,2) p ib1 by simp_all
    have "names_room (tables (w_pg s)) eventType slug name" using room(3) [OF Inr] p by simp
    moreover have "fst (snd (Allow (iv_limiter h) (''invite:user:'' @ usr_ID (id_User i)) PerSender now (w_redis s)))" using p by simp
    ultimately show ?thesis using del d(2) t looked_up(1-3,5) by auto
  qed
qed

definition demo_invites :: "(mem, mempg) invite_handlers" where
  "demo_invites = \<lparr>iv_rooms = mem_pg, iv_users = mem_pg, iv_limiter = mem_redis, iv_lower = (\<lambda>x. x), iv_dec = (\<lambda>b cut. Some b)\<rparr>"

definition demo_caller :: Identity where
  "demo_caller = \<lparr>id_User = \<lparr>usr_ID = ''u2'', usr_Email = ''c@d.e'', usr_DisplayName = ''C'', usr_EmailVerified = False,
     usr_CreatedAt = 0, usr_disabled = False\<rparr>,
     id_Session = \<lparr>s_ID = [], s_UserID = ''u2'', s_CreatedAt = 0, s_ExpiresAt = 0, s_LastSeenAt = 0, s_IP = [], s_UserAgent = []\<rparr>, id_Token = []\<rparr>"

definition demo_room_row :: room_row where
  "demo_room_row = \<lparr>r_slug = ''bcd-kmnp-tvwx'', r_name = ''R'', r_created_by = demo_owner, r_created_at = 0\<rparr>"

definition demo_ring_pg :: mempg where
  "demo_ring_pg = demo_pg\<lparr>pm_db := (pm_db demo_pg)\<lparr>md_rooms := [(''r1'', demo_room_row)]\<rparr>\<rparr>"

definition demo_ring_inbox :: inbox where
  "demo_ring_inbox = fst (ib_add 0 (fst (new_conn ''1'' demo_owner (NewInbox (\<lambda>_. demo_conn)))))"

definition demo_ring_world :: "(mem, mempg) ib_world" where
  "demo_ring_world = \<lparr>w_redis = demo_mem, w_pg = demo_ring_pg, wd_inbox = demo_ring_inbox\<rparr>"

definition demo_ring_request :: http_request where
  "demo_ring_request = \<lparr>rq_method = ''POST'', rq_path = ''/api/rooms/bcd-kmnp-tvwx/invites'', rq_host = ''h'', rq_remote = ''1.2.3.4:5'',
     rq_header = (\<lambda>_. []), rq_query = (\<lambda>_. []), rq_cookies = [], rq_slug = ''bcd-kmnp-tvwx'', rq_contentLength = 36,
     rq_body = demo_owner\<rparr>"

lemma demo_owner_format: "slug_format demo_owner"
  by code_simp

lemma demo_ring_room: "slug_format ''bcd-kmnp-tvwx''"
  by code_simp

lemma demo_owner_pattern: "rx_matches uuidPattern demo_owner"
  unfolding uuidPattern_groups by code_simp

lemma demo_ring_inv: "ib_inv demo_ring_inbox"
  by (simp add: demo_ring_inbox_def ib_inv_def demo_inbox_defs ib_open_def chan_ok_def)

lemma demo_rings:
  "status_of (snd (invite_handle demo_invites demo_ib_sched TypeInvite 0 (Some demo_caller) demo_ring_request no_response demo_ring_world)) = Some 200"
proof -
  have u: "to_lower (\<lambda>x. x) (trim_space demo_owner) = demo_owner" using slug_format_canonical(1) [OF demo_owner_format] .
  have g: "to_lower (\<lambda>x. x) (trim_space ''bcd-kmnp-tvwx'') = ''bcd-kmnp-tvwx''" using slug_format_canonical(1) [OF demo_ring_room] .
  have a: "snd (Allow mem_redis (''invite:user:'' @ ''u2'') PerSender 0 demo_mem) = (True, 0, None)"
    by (simp add: demo_rl_defs PerSender_def)
  obtain m where m: "Allow mem_redis (''invite:user:'' @ ''u2'') PerSender 0 demo_mem = (m, True, 0, None)"
    using a by (metis prod.collapse)
  have b: "Rooms_BySlug mem_pg (\<lambda>x. x) ''bcd-kmnp-tvwx'' 0 demo_ring_pg = (demo_ring_pg, Inr (scan_room ''r1'' demo_room_row []))"
    unfolding Rooms_BySlug_def g by (simp add: Store_BySlug_def mem_pg_def demo_ring_pg_def demo_pg_def demo_room_row_def)
  have i: "ByID mem_pg demo_owner 0 demo_ring_pg = (demo_ring_pg, Inr demo_user)"
    by (simp add: ByID_def mem_pg_def demo_owner_uuid demo_ring_pg_def demo_pg_def scan_user_def demo_user_def)
  have d: "DecodeJSON (iv_dec demo_invites) Invites.maxBodyBytes demo_ring_request = Some demo_owner"
    by (simp add: DecodeJSON_def demo_invites_def demo_ring_request_def Invites.maxBodyBytes_def demo_owner_def)
  have n: "demo_owner \<noteq> ''u2''" by (simp add: demo_owner_def)
  have "rq_slug demo_ring_request = ''bcd-kmnp-tvwx''" "iv_lower demo_invites = (\<lambda>x. x)" "usr_ID (id_User demo_caller) = ''u2''"
    "iv_limiter demo_invites = mem_redis" "iv_rooms demo_invites = mem_pg" "iv_users demo_invites = mem_pg"
    by (simp_all add: demo_ring_request_def demo_invites_def demo_caller_def)
  note sel = this
  show ?thesis
    unfolding invite_handle_def option.case d Let_def sel u g slugPattern_format
    using n m demo_owner_pattern demo_ring_room
    by (simp add: slugPattern_format on_redis_def demo_ring_world_def invite_room_def invite_deliver_def sel on_pg_def b i
        no_response_def split: prod.splits)
qed

theorem invite_rings_witness:
  "\<exists>s' out. invite_handle demo_invites demo_ib_sched TypeInvite 0 (Some demo_caller) demo_ring_request no_response demo_ring_world = (s', out) \<and>
     status_of out = Some 200 \<and>
     rang demo_owner (Event_Encode (invite_event TypeInvite ''bcd-kmnp-tvwx'' ''R'' (id_User demo_caller))) demo_ring_inbox (wd_inbox s')"
proof -
  obtain s' out where h: "invite_handle demo_invites demo_ib_sched TypeInvite 0 (Some demo_caller) demo_ring_request no_response
      demo_ring_world = (s', out)" by fastforce
  have st: "status_of out = Some 200" using demo_rings h by simp
  have pg: "postgres (iv_rooms demo_invites) pm_tables pm_view mem_uuid mem_ci text_leq"
    "postgres (iv_users demo_invites) pm_tables pm_view mem_uuid mem_ci text_leq"
    using mempg.postgres_axioms by (simp_all add: demo_invites_def)
  have inv: "ib_inv (wd_inbox demo_ring_world)" using demo_ring_inv by (simp add: demo_ring_world_def)
  have "rs_sent no_response = None" by (simp add: no_response_def)
  from invite_rings [OF pg inv demo_ib_valid this h] st
  obtain uid slug name where r: "DecodeJSON (iv_dec demo_invites) Invites.maxBodyBytes demo_ring_request = Some uid"
    "slug = to_lower (iv_lower demo_invites) (trim_space (rq_slug demo_ring_request))"
    "names_room (pm_tables (w_pg demo_ring_world)) TypeInvite slug name"
    "rang (to_lower (iv_lower demo_invites) (trim_space uid))
       (Event_Encode (invite_event TypeInvite slug name (id_User demo_caller))) (wd_inbox demo_ring_world) (wd_inbox s')"
    by auto
  have "uid = demo_owner" using r(1)
    by (simp add: DecodeJSON_def demo_invites_def demo_ring_request_def Invites.maxBodyBytes_def demo_owner_def)
  moreover have "slug = ''bcd-kmnp-tvwx''"
    using r(2) slug_format_canonical(1) [OF demo_ring_room] by (simp add: demo_invites_def demo_ring_request_def)
  moreover from r(3) have "name = ''R''"
    by (auto simp: names_room_def pm_tables_def md_abs_def demo_ring_world_def demo_ring_pg_def demo_room_row_def split: if_splits)
  ultimately show ?thesis using h st r(4) slug_format_canonical(1) [OF demo_owner_format]
    by (auto simp: demo_ring_world_def demo_invites_def)
qed

end
