(* ===== verification/Turn.thy ===== *)
theory Turn
  imports AuthHandlers
begin

text \<open>
  \<^verbatim>\<open>internal/turn/handlers.go\<close>: relay credentials in coturn's shared-secret scheme.  HMAC-SHA1 is the argument
  \<open>hmac\<close> (key, then message).
\<close>

record turn_handlers =
  th_secret :: string
  th_urls :: "string list"
  th_ttl :: duration
  th_hmac :: "string \<Rightarrow> string \<Rightarrow> string"

record turn_credentials =
  tc_URLs :: "string list"
  tc_Username :: string
  tc_Credential :: string
  tc_TTL :: int

text \<open>\<^verbatim>\<open>base64.StdEncoding\<close>: padded to a multiple of four characters.\<close>

definition b64_padded :: "string \<Rightarrow> string" where
  "b64_padded s = (let e = b64_encode std_alphabet s in e @ replicate ((4 - length e mod 4) mod 4) (CHR ''=''))"

definition mint :: "turn_handlers \<Rightarrow> gotime \<Rightarrow> string \<Rightarrow> turn_credentials" where
  "mint h now userID =
     (let username = format_int ((now + th_ttl h) div second) @ '':'' @ userID
      in \<lparr>tc_URLs = th_urls h, tc_Username = username,
          tc_Credential = b64_padded (th_hmac h (th_secret h) username), tc_TTL = int_seconds (th_ttl h)\<rparr>)"

definition json_turn :: "turn_credentials \<Rightarrow> json_value" where
  "json_turn c = JObj [(''urls'', JArr (map JStr (tc_URLs c))), (''username'', JStr (tc_Username c)),
     (''credential'', JStr (tc_Credential c)), (''ttl'', JInt (tc_TTL c))]"

definition handle_credentials :: "turn_handlers \<Rightarrow> gotime \<Rightarrow> ('s, 'p, 'm) world_scheme auth_handler" where
  "handle_credentials h now i r w s =
     (if th_secret h = [] then (s, Done (http_Error 503 ''turn_disabled'' ''no TURN relay is configured'' w))
      else case i of
        None \<Rightarrow> (s, Done (unauthenticated_error w))
      | Some i \<Rightarrow> (s, Done (http_JSON 200 (json_turn (mint h now (usr_ID (id_User i)))) w)))"

subsection \<open>What a relay reads back\<close>

text \<open>The padded decoder: whole groups of four, at most two of padding.\<close>

definition b64_unpad :: "string \<Rightarrow> string option" where
  "b64_unpad s =
     (let e = takeWhile (\<lambda>c. c \<noteq> CHR ''='') s; k = length s - length e
      in if length s mod 4 \<noteq> 0 \<or> 2 < k \<or> drop (length e) s \<noteq> replicate k (CHR ''='') then None
         else b64_decode std_alphabet e)"

lemma b64_length_mod: "length (b64_encode al s) mod 4 \<noteq> 1"
proof -
  have "length s mod 3 = 0 \<or> length s mod 3 = 1 \<or> length s mod 3 = 2" by presburger
  then show ?thesis unfolding length_b64_encode by presburger
qed

lemma b64_padding: "x mod 4 \<noteq> (1::nat) \<Longrightarrow> (x + (4 - x mod 4) mod 4) mod 4 = 0 \<and> (4 - x mod 4) mod 4 \<le> 2"
proof -
  assume "x mod 4 \<noteq> 1"
  then consider "x mod 4 = 0" | "x mod 4 = 2" | "x mod 4 = 3" by linarith
  then show ?thesis by cases (simp_all, presburger+)
qed

lemma b64_padded_roundtrip: "b64_unpad (b64_padded s) = Some s"
proof -
  define e where "e = b64_encode std_alphabet s"
  define k where "k = (4 - length e mod 4) mod 4"
  have "CHR ''='' \<notin> set std_alphabet" by (simp add: std_alphabet_def)
  then have "\<forall>c\<in>set e. c \<noteq> CHR ''=''" using b64_encode_set [OF alphabet_std] unfolding e_def by blast
  then have t: "takeWhile (\<lambda>c. c \<noteq> CHR ''='') (e @ replicate k (CHR ''='')) = e"
    by (simp add: takeWhile_append2 takeWhile_replicate)
  have "(length e + k) mod 4 = 0 \<and> k \<le> 2"
    unfolding k_def e_def by (rule b64_padding [OF b64_length_mod])
  moreover have "b64_padded s = e @ replicate k (CHR ''='')" by (simp add: b64_padded_def e_def k_def Let_def)
  ultimately show ?thesis using t b64_roundtrip [OF alphabet_std, of s] e_def by (simp add: b64_unpad_def Let_def)
qed

lemma cut_append: "sep \<notin> set a \<Longrightarrow> cut sep (a @ sep # b) = (a, b, True)"
  by (induction a) auto

lemma colon_not_digit: "CHR '':'' \<notin> set (format_nat n)"
  using format_nat_digits [of n] by (auto simp: list_all_iff is_digit_def byte_def)

text \<open>C38. The credentials handed out are what the relay's shared-secret scheme expects: the user name is the
  expiry in whole seconds, a colon and the user id, and reads back to exactly these; the expiry is the ttl from
  now, rounded down to a second; the password decodes to the MAC of that user name under the shared secret; and
  no two users are ever given the same user name.\<close>

theorem turn_credentials_decode:
  assumes "0 \<le> now + th_ttl h"
  shows "\<exists>e. cut (CHR '':'') (tc_Username (mint h now u)) = (format_nat e, u, True) \<and> digits_value (format_nat e) = e \<and>
    now + th_ttl h - second < int e * second \<and> int e * second \<le> now + th_ttl h \<and>
    b64_unpad (tc_Credential (mint h now u)) = Some (th_hmac h (th_secret h) (tc_Username (mint h now u))) \<and>
    (\<forall>now' v. tc_Username (mint h now' v) = tc_Username (mint h now u) \<longrightarrow> 0 \<le> now' + th_ttl h \<longrightarrow> v = u)"
proof -
  have s: "0 < second" by simp
  let ?e = "\<lambda>t. nat ((t + th_ttl h) div second)"
  have name: "cut (CHR '':'') (tc_Username (mint h t v)) = (format_nat (?e t), v, True)" if "0 \<le> t + th_ttl h" for t v
  proof -
    have "0 \<le> (t + th_ttl h) div second" using that s by (simp add: pos_imp_zdiv_nonneg_iff)
    then show ?thesis using cut_append [OF colon_not_digit] by (simp add: mint_def Let_def format_int_def)
  qed
  have "int (?e now) = (now + th_ttl h) div second" using assms s by (simp add: pos_imp_zdiv_nonneg_iff)
  moreover have "(now + th_ttl h) div second * second + (now + th_ttl h) mod second = now + th_ttl h" by simp
  moreover have "0 \<le> (now + th_ttl h) mod second \<and> (now + th_ttl h) mod second < second" using s by simp
  ultimately have "now + th_ttl h - second < int (?e now) * second \<and> int (?e now) * second \<le> now + th_ttl h" by linarith
  moreover have "v = u" if "tc_Username (mint h now' v) = tc_Username (mint h now u)" "0 \<le> now' + th_ttl h" for now' v
    using name [OF that(2), of v] name [OF assms, of u] that(1) by simp
  ultimately show ?thesis
    using name [OF assms] digits_value_format by (intro exI [of _ "?e now"]) (auto simp: mint_def Let_def b64_padded_roundtrip)
qed

definition demo_turn :: turn_handlers where
  "demo_turn = \<lparr>th_secret = ''k'', th_urls = [''turn:t''], th_ttl = 24 * 3600 * second, th_hmac = (\<lambda>k m. take 20 (k @ m))\<rparr>"

theorem turn_credentials_decode_witness:
  "tc_Username (mint demo_turn 1500000000 ''ann'') = ''86401:ann'' \<and>
   b64_unpad (tc_Credential (mint demo_turn 1500000000 ''ann'')) = Some ''k86401:ann''"
proof -
  have u: "tc_Username (mint demo_turn 1500000000 ''ann'') = ''86401:ann''"
    by (simp add: mint_def Let_def demo_turn_def format_int_def format_nat.simps digit_def) code_simp
  have "0 \<le> 1500000000 + th_ttl demo_turn" by (simp add: demo_turn_def)
  from turn_credentials_decode [OF this, of "''ann''"] u show ?thesis by (auto simp: demo_turn_def)
qed

end
