(* ===== verification/Config.thy ===== *)
theory Config
  imports Encoding
begin

text \<open>
  \<^verbatim>\<open>internal/config/config.go\<close>: the configuration read from the environment, a function \<open>env\<close> from names to
  values (empty when unset).  The parsers of the standard library it relies on are modelled: \<^verbatim>\<open>strconv.ParseBool\<close>,
  \<^verbatim>\<open>time.ParseDuration\<close> with its 64-bit arithmetic, and the text form of \<^verbatim>\<open>slog.Level\<close>.  Two things stay
  arguments: \<open>fl f n u\<close>, the double-precision product of a fraction \<open>f / 10 ^ n\<close> with a unit, rounded down, and
  \<open>uu\<close>, the upper case of a character beyond ASCII.
\<close>

record Config =
  cf_Addr :: string
  cf_LogLevel :: int
  cf_AllowedOrigins :: string
  cf_TrustProxy :: bool
  cf_DatabaseURL :: string
  cf_RedisURL :: string
  cf_CookieName :: string
  cf_CookieDomain :: string
  cf_CookieSecure :: bool
  cf_SessionIdleTTL :: duration
  cf_SessionAbsoluteTTL :: duration
  cf_WSTicketTTL :: duration
  cf_TURNSecret :: string
  cf_TURNURLs :: "string list"
  cf_TURNCredentialTTL :: duration

datatype config_error = BadLevel string | BadBool string string | BadDuration string string | NotPositive string duration
  | TurnHalfSet | DatabaseRequired | RedisRequired | IdleExceedsAbsolute duration duration

type_synonym env = "string \<Rightarrow> string"

definition envOr :: "env \<Rightarrow> string \<Rightarrow> string \<Rightarrow> string" where
  "envOr env key fallback = (let v = trim_space (env key) in if v \<noteq> [] then v else fallback)"

definition splitCSV :: "string \<Rightarrow> string list" where
  "splitCSV raw = filter (\<lambda>v. v \<noteq> []) (map trim_space (split (CHR '','') raw))"

subsection \<open>Booleans\<close>

definition ParseBool :: "string \<Rightarrow> bool option" where
  "ParseBool s =
     (if s \<in> set [''1'', ''t'', ''T'', ''TRUE'', ''true'', ''True''] then Some True
      else if s \<in> set [''0'', ''f'', ''F'', ''FALSE'', ''false'', ''False''] then Some False else None)"

definition parseBool :: "env \<Rightarrow> string \<Rightarrow> bool \<Rightarrow> bool \<times> config_error option" where
  "parseBool env key fallback =
     (let raw = trim_space (env key)
      in if raw = [] then (fallback, None)
         else case ParseBool raw of None \<Rightarrow> (fallback, Some (BadBool key raw)) | Some v \<Rightarrow> (v, None))"

subsection \<open>Durations\<close>

text \<open>\<^verbatim>\<open>leadingInt\<close>: the digits at the front, with the value accumulated so far; \<open>None\<close> on overflow.\<close>

fun leadingInt :: "nat \<Rightarrow> string \<Rightarrow> (nat \<times> string) option" where
  "leadingInt x [] = Some (x, [])"
| "leadingInt x (c # s) =
     (if \<not> is_digit c then Some (x, c # s)
      else if x > 2 ^ 63 div 10 then None
      else let y = x * 10 + (byte c - 48) in if y > 2 ^ 63 then None else leadingInt y s)"

text \<open>\<^verbatim>\<open>leadingFraction\<close>: value and number of digits kept; digits past the range are skipped.\<close>

fun leadingFraction :: "nat \<Rightarrow> nat \<Rightarrow> bool \<Rightarrow> string \<Rightarrow> nat \<times> nat \<times> string" where
  "leadingFraction x n overflow [] = (x, n, [])"
| "leadingFraction x n overflow (c # s) =
     (if \<not> is_digit c then (x, n, c # s)
      else if overflow \<or> x > (2 ^ 63 - 1) div 10 then leadingFraction x n True s
      else let y = x * 10 + (byte c - 48)
           in if y > 2 ^ 63 then leadingFraction x n True s else leadingFraction y (Suc n) False s)"

definition unitMap :: "(string \<times> nat) list" where
  "unitMap = [(''ns'', 1), (''us'', 1000), ([CHR 0xC2, CHR 0xB5] @ ''s'', 1000), ([CHR 0xCE, CHR 0xBC] @ ''s'', 1000),
     (''ms'', 1000000), (''s'', 1000000000), (''m'', 60 * 1000000000), (''h'', 3600 * 1000000000)]"

definition num_char :: "char \<Rightarrow> bool" where
  "num_char c \<longleftrightarrow> c = CHR ''.'' \<or> is_digit c"

text \<open>The part after the point: value, digits, rest, and whether there was a digit.\<close>

definition fraction_part :: "string \<Rightarrow> nat \<times> nat \<times> string \<times> bool" where
  "fraction_part s =
     (if s \<noteq> [] \<and> hd s = CHR ''.''
      then (case leadingFraction 0 0 False (tl s) of (f, n, r) \<Rightarrow> (f, n, r, length r \<noteq> length (tl s)))
      else (0, 0, s, False))"

text \<open>One number with its unit; the unit runs up to the next digit or point.\<close>

definition duration_part :: "(nat \<Rightarrow> nat \<Rightarrow> nat \<Rightarrow> nat) \<Rightarrow> string \<Rightarrow> (nat \<times> string) option" where
  "duration_part fl s =
     (if s = [] \<or> \<not> num_char (hd s) then None
      else case leadingInt 0 s of
        None \<Rightarrow> None
      | Some (v, s1) \<Rightarrow>
          (let pre = length s1 \<noteq> length s;
               (f, n, s2, post) = fraction_part s1;
               u = takeWhile (\<lambda>c. \<not> num_char c) s2; s3 = dropWhile (\<lambda>c. \<not> num_char c) s2
           in if \<not> pre \<and> \<not> post then None
              else if u = [] then None
              else case map_of unitMap u of
                None \<Rightarrow> None
              | Some k \<Rightarrow>
                  if v > 2 ^ 63 div k then None
                  else let w = v * k + (if f > 0 then fl f n k else 0)
                       in if f > 0 \<and> w > 2 ^ 63 then None else Some (w, s3)))"

lemma leadingInt_length: "leadingInt x s = Some (v, r) \<Longrightarrow> length r \<le> length s"
  by (induction s arbitrary: x) (auto simp: Let_def le_SucI split: if_splits)

lemma leadingFraction_length: "leadingFraction x n e s = (v, k, r) \<Longrightarrow> length r \<le> length s"
  by (induction s arbitrary: x n e) (auto simp: Let_def le_SucI split: if_splits)

lemma fraction_part_length: "fraction_part s = (f, n, r, p) \<Longrightarrow> length r \<le> length s"
  by (cases s) (auto simp: fraction_part_def le_SucI split: if_splits prod.splits dest: leadingFraction_length)

lemma dropWhile_shorter: "takeWhile p t \<noteq> [] \<Longrightarrow> length (dropWhile p t) < length t"
  by (cases t) (auto simp: length_dropWhile_le le_imp_less_Suc split: if_splits)

lemma duration_part_shorter: "duration_part fl s = Some (v, r) \<Longrightarrow> length r < length s"
proof -
  assume a: "duration_part fl s = Some (v, r)"
  obtain x s1 where l: "leadingInt 0 s = Some (x, s1)" using a by (auto simp: duration_part_def split: if_splits option.splits)
  obtain f n s2 post where f: "fraction_part s1 = (f, n, s2, post)" by (metis prod_cases4)
  have "takeWhile (\<lambda>c. \<not> num_char c) s2 \<noteq> []" "r = dropWhile (\<lambda>c. \<not> num_char c) s2"
    using a l f by (auto simp: duration_part_def Let_def split: if_splits option.splits)
  then show ?thesis using leadingInt_length [OF l] fraction_part_length [OF f] dropWhile_shorter by fastforce
qed

function parse_parts :: "(nat \<Rightarrow> nat \<Rightarrow> nat \<Rightarrow> nat) \<Rightarrow> nat \<Rightarrow> string \<Rightarrow> nat option" where
  "parse_parts fl d s =
     (if s = [] then Some d
      else case duration_part fl s of
        None \<Rightarrow> None
      | Some (v, r) \<Rightarrow> let d' = (d + v) mod 2 ^ 64 in if d' > 2 ^ 63 then None else parse_parts fl d' r)"
  by auto

termination
  by (relation "measure (\<lambda>(fl, d, s). length s)") (auto dest: duration_part_shorter)

declare parse_parts.simps [simp del]

definition ParseDuration :: "(nat \<Rightarrow> nat \<Rightarrow> nat \<Rightarrow> nat) \<Rightarrow> string \<Rightarrow> duration option" where
  "ParseDuration fl s =
     (let neg = (take 1 s = ''-''); t = (if take 1 s = ''-'' \<or> take 1 s = ''+'' then tl s else s)
      in if t = ''0'' then Some 0
         else if t = [] then None
         else case parse_parts fl 0 t of
           None \<Rightarrow> None
         | Some d \<Rightarrow>
             if neg then Some (- int d)
             else if d > 2 ^ 63 - 1 then None
             else Some (int d))"

definition parseDuration ::
    "(nat \<Rightarrow> nat \<Rightarrow> nat \<Rightarrow> nat) \<Rightarrow> env \<Rightarrow> string \<Rightarrow> duration \<Rightarrow> duration \<times> config_error option" where
  "parseDuration fl env key fallback =
     (let raw = trim_space (env key)
      in if raw = [] then (fallback, None)
         else case ParseDuration fl raw of
           None \<Rightarrow> (fallback, Some (BadDuration key raw))
         | Some d \<Rightarrow> if d \<le> 0 then (fallback, Some (NotPositive key d)) else (d, None))"

subsection \<open>Log levels\<close>

definition upper_ascii :: "char \<Rightarrow> char" where
  "upper_ascii c = (if 0x61 \<le> byte c \<and> byte c \<le> 0x7A then char_of (byte c - 0x20) else c)"

definition to_upper :: "(string \<Rightarrow> string) \<Rightarrow> string \<Rightarrow> string" where
  "to_upper uu s = concat (map (\<lambda>seg. case seg of
     [c] \<Rightarrow> if byte c < 0x80 then [upper_ascii c] else replacement
   | _ \<Rightarrow> uu seg) (segments s))"

text \<open>\<^verbatim>\<open>strconv.Atoi\<close> of a signed number.\<close>

definition Atoi_signed :: "string \<Rightarrow> int option" where
  "Atoi_signed s =
     (let ds = tl s; v = int (digits_value ds)
      in if ds = [] \<or> \<not> list_all is_digit ds then None
         else if hd s = CHR ''-'' then (if v > 2 ^ 63 then None else Some (- v))
         else if v > 2 ^ 63 - 1 then None else Some v)"

definition level_names :: "(string \<times> int) list" where
  "level_names = [(''DEBUG'', - 4), (''INFO'', 0), (''WARN'', 4), (''ERROR'', 8)]"

definition wrap_int :: "int \<Rightarrow> int" where
  "wrap_int x = (x + 2 ^ 63) mod 2 ^ 64 - 2 ^ 63"

definition Level_parse :: "(string \<Rightarrow> string) \<Rightarrow> string \<Rightarrow> int option" where
  "Level_parse uu s =
     (let sign = (\<lambda>c. c = CHR ''+'' \<or> c = CHR ''-''); name = takeWhile (\<lambda>c. \<not> sign c) s; rest = dropWhile (\<lambda>c. \<not> sign c) s
      in case (if rest = [] then Some 0 else Atoi_signed rest) of
           None \<Rightarrow> None
         | Some offset \<Rightarrow> map_option (\<lambda>l. wrap_int (l + offset)) (map_of level_names (to_upper uu name)))"

definition parseLevel :: "(string \<Rightarrow> string) \<Rightarrow> string \<Rightarrow> int \<times> config_error option" where
  "parseLevel uu raw = (case Level_parse uu raw of None \<Rightarrow> (0, Some (BadLevel raw)) | Some l \<Rightarrow> (l, None))"

subsection \<open>Load\<close>

definition collect :: "config_error option list \<Rightarrow> config_error list" where
  "collect errs = map the (filter (\<lambda>e. e \<noteq> None) errs)"

definition require_that :: "bool \<Rightarrow> config_error \<Rightarrow> config_error option" where
  "require_that ok e = (if ok then None else Some e)"

definition Load :: "(nat \<Rightarrow> nat \<Rightarrow> nat \<Rightarrow> nat) \<Rightarrow> (string \<Rightarrow> string) \<Rightarrow> env \<Rightarrow> config_error list + Config" where
  "Load fl uu env =
     (let secret = envOr env ''TURN_SECRET'' [];
          urls = splitCSV (env ''TURN_URLS'');
          (level, e1) = parseLevel uu (envOr env ''LOG_LEVEL'' ''info'');
          (secure, e2) = parseBool env ''COOKIE_SECURE'' True;
          (proxy, e3) = parseBool env ''TRUST_PROXY'' False;
          (idle, e4) = parseDuration fl env ''SESSION_IDLE_TTL'' (7 * 24 * hour);
          (absolute, e5) = parseDuration fl env ''SESSION_ABSOLUTE_TTL'' (30 * 24 * hour);
          (turn, e6) = parseDuration fl env ''TURN_CREDENTIAL_TTL'' (24 * hour);
          errs = collect [e1, e2, e3, e4, e5, e6,
            require_that ((secret = []) = (urls = [])) TurnHalfSet,
            require_that (trim_space (env ''DATABASE_URL'') \<noteq> []) DatabaseRequired,
            require_that (trim_space (env ''REDIS_URL'') \<noteq> []) RedisRequired,
            require_that (idle \<le> absolute) (IdleExceedsAbsolute idle absolute)]
      in if errs \<noteq> [] then Inl errs
         else Inr \<lparr>cf_Addr = envOr env ''ADDR'' '':8080'', cf_LogLevel = level, cf_AllowedOrigins = env ''ALLOWED_ORIGINS'',
           cf_TrustProxy = proxy, cf_DatabaseURL = env ''DATABASE_URL'', cf_RedisURL = env ''REDIS_URL'',
           cf_CookieName = envOr env ''SESSION_COOKIE_NAME'' ''cb_session'', cf_CookieDomain = env ''SESSION_COOKIE_DOMAIN'',
           cf_CookieSecure = secure, cf_SessionIdleTTL = idle, cf_SessionAbsoluteTTL = absolute, cf_WSTicketTTL = 30 * second,
           cf_TURNSecret = secret, cf_TURNURLs = urls, cf_TURNCredentialTTL = turn\<rparr>)"

text \<open>\<^verbatim>\<open>WarnUnsafe\<close>: which of the two warnings are logged.\<close>

datatype config_warning = CookieInsecure | ProxyTrusted

definition WarnUnsafe :: "Config \<Rightarrow> config_warning list" where
  "WarnUnsafe c = (if \<not> cf_CookieSecure c then [CookieInsecure] else []) @ (if cf_TrustProxy c then [ProxyTrusted] else [])"

subsection \<open>What the duration parser accepts\<close>

lemma foldl_digits_ge: "x \<le> foldl (\<lambda>a c. 10 * a + (byte c - 48)) x ds"
proof (induction ds arbitrary: x)
  case (Cons c ds)
  have "x \<le> 10 * x + (byte c - 48)" by simp
  also have "\<dots> \<le> foldl (\<lambda>a c. 10 * a + (byte c - 48)) (10 * x + (byte c - 48)) ds" by (rule Cons)
  finally show ?case by simp
qed simp

lemma leadingInt_digits:
  assumes "list_all is_digit ds" "r = [] \<or> \<not> is_digit (hd r)" "foldl (\<lambda>a c. 10 * a + (byte c - 48)) x ds \<le> 2 ^ 63"
  shows "leadingInt x (ds @ r) = Some (foldl (\<lambda>a c. 10 * a + (byte c - 48)) x ds, r)"
  using assms(1,3)
proof (induction ds arbitrary: x)
  case Nil
  then show ?case using assms(2) by (cases r) auto
next
  case (Cons c ds)
  have "10 * x + (byte c - 48) \<le> 2 ^ 63"
    using Cons.prems(2) foldl_digits_ge [of "10 * x + (byte c - 48)" ds] by simp
  moreover from this have "\<not> x > 2 ^ 63 div 10" by simp
  ultimately have "leadingInt x (c # ds @ r) = leadingInt (10 * x + (byte c - 48)) (ds @ r)"
    using Cons.prems(1) by (simp only: leadingInt.simps Let_def mult.commute [of x] not_less list.pred_inject if_False if_True not_True_eq_False simp_thms) auto
  then show ?case using Cons.IH [of "10 * x + (byte c - 48)"] Cons.prems by simp
qed

lemma unit_letters: "(u, k) \<in> set unitMap \<Longrightarrow> u \<noteq> [] \<and> list_all (\<lambda>c. \<not> num_char c) u \<and> 0 < k \<and> map_of unitMap u = Some k"
proof -
  have "list_all (\<lambda>(u, k). u \<noteq> [] \<and> list_all (\<lambda>c. \<not> num_char c) u \<and> 0 < k \<and> map_of unitMap u = Some k) unitMap"
    by (simp add: unitMap_def num_char_def is_digit_def byte_def)
  then show "(u, k) \<in> set unitMap \<Longrightarrow> ?thesis" by (auto simp: list_all_iff)
qed

lemma duration_part_unit:
  assumes "(u, k) \<in> set unitMap" "n * k \<le> 2 ^ 63"
  shows "duration_part fl (format_nat n @ u) = Some (n * k, [])"
proof -
  note u = unit_letters [OF assms(1)]
  have "hd u \<in> set u" using u by simp
  then have nd: "\<not> num_char (hd u)" using u by (auto simp: list_all_iff)
  then have h: "\<not> is_digit (hd u)" "hd u \<noteq> CHR ''.''" by (auto simp: num_char_def)
  have "n \<le> n * k" using u by simp
  then have n: "n \<le> 2 ^ 63" using assms(2) by linarith
  have f: "foldl (\<lambda>a c. 10 * a + (byte c - 48)) 0 (format_nat n) = n"
    using digits_value_format [of n] by (simp add: digits_value_def)
  have i: "leadingInt 0 (format_nat n @ u) = Some (n, u)"
    using leadingInt_digits [OF format_nat_digits disjI2 [OF h(1)], of 0 n, unfolded f, OF n] .
  have t: "takeWhile (\<lambda>c. \<not> num_char c) u = u" "dropWhile (\<lambda>c. \<not> num_char c) u = []"
    unfolding takeWhile_eq_all_conv dropWhile_eq_Nil_conv using u by (simp_all add: list_all_iff)
  have "num_char (hd (format_nat n @ u))"
    using format_nat_digits [of n] hd_in_set [OF format_nat_nonempty, of n] by (simp add: num_char_def list_all_iff)
  moreover have "\<not> 2 ^ 63 div k < n"
    using u assms(2) by (metis div_le_mono nonzero_mult_div_cancel_right not_less zero_less_iff_neq_zero)
  ultimately show ?thesis
    using i u h by (simp add: duration_part_def fraction_part_def Let_def t)
qed

lemma parse_parts_le: "parse_parts fl d s = Some v \<Longrightarrow> d \<le> 2 ^ 63 \<Longrightarrow> v \<le> 2 ^ 63"
proof (induction fl d s rule: parse_parts.induct)
  case (1 fl d s)
  show ?case
  proof (cases "s = []")
    case True
    then show ?thesis using "1.prems" parse_parts.simps [of fl d s] by simp
  next
    case False
    then obtain x r where p: "duration_part fl s = Some (x, r)"
      using "1.prems"(1) parse_parts.simps [of fl d s] by (auto split: option.splits)
    let ?d = "(d + x) mod 2 ^ 64"
    have "?d \<le> 2 ^ 63" "parse_parts fl ?d r = Some v"
      using "1.prems"(1) False p parse_parts.simps [of fl d s] by (auto simp: Let_def split: if_splits)
    then show ?thesis using "1.IH" [OF False p refl refl] by simp
  qed
qed

text \<open>Durations are read with Go's 64-bit arithmetic: a whole number with a unit is exactly that many
  nanoseconds whenever that fits, and no input whatever yields a value outside the range of a duration.\<close>

lemma parse_duration_exact:
  "(\<forall>u k n. (u, k) \<in> set unitMap \<longrightarrow> int (n * k) < 2 ^ 63 \<longrightarrow> ParseDuration fl (format_nat n @ u) = Some (int (n * k))) \<and>
   (\<forall>s d. ParseDuration fl s = Some d \<longrightarrow> - (2 ^ 63) \<le> d \<and> d < 2 ^ 63)"
proof (intro conjI allI impI)
  fix u k n assume a: "(u, k) \<in> set unitMap" "int (n * k) < 2 ^ 63"
  then have nk: "n * k < 2 ^ 63" by (metis of_nat_less_iff of_nat_numeral of_nat_power)
  have hd: "is_digit (hd (format_nat n @ u))"
    using format_nat_digits [of n] hd_in_set [OF format_nat_nonempty, of n] by (simp add: list_all_iff)
  have "\<not> is_digit (CHR ''-'')" "\<not> is_digit (CHR ''+'')" by (simp_all add: is_digit_def byte_def)
  moreover have "take 1 (format_nat n @ u) = [hd (format_nat n @ u)]"
    by (cases "format_nat n") simp_all
  ultimately have sign: "take 1 (format_nat n @ u) \<noteq> ''-''" "take 1 (format_nat n @ u) \<noteq> ''+''"
    using hd by (metis list.inject)+
  have "format_nat n @ u \<noteq> ''0''" using unit_letters [OF a(1)] by (cases "format_nat n") (auto simp: append_eq_Cons_conv)
  moreover have "parse_parts fl 0 (format_nat n @ u) = Some (n * k)"
    using duration_part_unit [OF a(1), of n fl] nk
    by (simp add: parse_parts.simps [of fl 0 "format_nat n @ u"] parse_parts.simps [of fl _ "[]"] Let_def)
  ultimately show "ParseDuration fl (format_nat n @ u) = Some (int (n * k))"
    using sign nk by (simp add: ParseDuration_def Let_def)
next
  fix s d assume "ParseDuration fl s = Some d"
  then show "- (2 ^ 63) \<le> d" "d < 2 ^ 63"
    using parse_parts_le [of fl 0 _] by (fastforce simp: ParseDuration_def Let_def split: if_splits option.splits)+
qed

subsection \<open>What a loaded configuration guarantees\<close>

lemma envOr_nonempty: "fallback \<noteq> [] \<Longrightarrow> envOr env key fallback \<noteq> []"
  by (simp add: envOr_def Let_def)

lemma splitCSV_entries: "u \<in> set (splitCSV raw) \<Longrightarrow> u \<noteq> [] \<and> trim_space u = u"
  by (auto simp: splitCSV_def)

lemma parseDuration_None:
  "parseDuration fl env key fallback = (d, None) \<Longrightarrow> 0 < fallback \<Longrightarrow> 0 < d"
  by (auto simp: parseDuration_def Let_def split: if_splits option.splits)

definition duration_fault :: "(nat \<Rightarrow> nat \<Rightarrow> nat \<Rightarrow> nat) \<Rightarrow> env \<Rightarrow> config_error \<Rightarrow> bool" where
  "duration_fault fl env e \<longleftrightarrow> (case e of
     BadDuration key raw \<Rightarrow> raw = trim_space (env key) \<and> ParseDuration fl raw = None
   | NotPositive key v \<Rightarrow> v \<le> 0 \<and> ParseDuration fl (trim_space (env key)) = Some v
   | _ \<Rightarrow> False)"

lemma parseDuration_Some: "parseDuration fl env key fallback = (d, Some e) \<Longrightarrow> duration_fault fl env e"
  by (auto simp: parseDuration_def duration_fault_def Let_def split: if_splits option.splits)

lemma parseBool_Some: "parseBool env key fallback = (b, Some e) \<Longrightarrow> e = BadBool key (trim_space (env key))"
  by (auto simp: parseBool_def Let_def split: if_splits option.splits)

lemma parseLevel_Some: "parseLevel uu raw = (l, Some e) \<Longrightarrow> e = BadLevel raw"
  by (auto simp: parseLevel_def split: option.splits)

lemma collect_Nil: "collect es = [] \<longleftrightarrow> (\<forall>e\<in>set es. e = None)"
  by (auto simp: collect_def filter_empty_conv)

lemma collect_set: "e \<in> set (collect es) \<longleftrightarrow> Some e \<in> set es"
  by (auto simp: collect_def image_iff)

lemma require_that_simps [simp]:
  "require_that ok e = None \<longleftrightarrow> ok" "None = require_that ok e \<longleftrightarrow> ok"
  "require_that ok e = Some x \<longleftrightarrow> \<not> ok \<and> x = e" "Some x = require_that ok e \<longleftrightarrow> \<not> ok \<and> x = e"
  by (auto simp: require_that_def)

lemma load_spec:
  "case Load fl uu env of
     Inr c \<Rightarrow> 0 < cf_SessionIdleTTL c \<and> cf_SessionIdleTTL c \<le> cf_SessionAbsoluteTTL c \<and> 0 < cf_TURNCredentialTTL c \<and>
       trim_space (cf_DatabaseURL c) \<noteq> [] \<and> trim_space (cf_RedisURL c) \<noteq> [] \<and> cf_Addr c \<noteq> [] \<and> cf_CookieName c \<noteq> [] \<and>
       (cf_TURNSecret c = [] \<longleftrightarrow> cf_TURNURLs c = []) \<and> (\<forall>u\<in>set (cf_TURNURLs c). u \<noteq> [] \<and> trim_space u = u)
   | Inl errs \<Rightarrow> errs \<noteq> [] \<and>
       (DatabaseRequired \<in> set errs \<longleftrightarrow> trim_space (env ''DATABASE_URL'') = []) \<and>
       (RedisRequired \<in> set errs \<longleftrightarrow> trim_space (env ''REDIS_URL'') = []) \<and>
       (TurnHalfSet \<in> set errs \<longleftrightarrow> (trim_space (env ''TURN_SECRET'') = []) \<noteq> (splitCSV (env ''TURN_URLS'') = [])) \<and>
       (\<forall>key raw. BadDuration key raw \<in> set errs \<longrightarrow> raw = trim_space (env key) \<and> ParseDuration fl raw = None) \<and>
       (\<forall>key v. NotPositive key v \<in> set errs \<longrightarrow> v \<le> 0 \<and> ParseDuration fl (trim_space (env key)) = Some v)"
proof -
  obtain level e1 where e1: "parseLevel uu (envOr env ''LOG_LEVEL'' ''info'') = (level, e1)" by fastforce
  obtain secure e2 where e2: "parseBool env ''COOKIE_SECURE'' True = (secure, e2)" by fastforce
  obtain proxy e3 where e3: "parseBool env ''TRUST_PROXY'' False = (proxy, e3)" by fastforce
  obtain idle e4 where e4: "parseDuration fl env ''SESSION_IDLE_TTL'' (7 * 24 * hour) = (idle, e4)" by fastforce
  obtain absolute e5 where e5: "parseDuration fl env ''SESSION_ABSOLUTE_TTL'' (30 * 24 * hour) = (absolute, e5)" by fastforce
  obtain turn e6 where e6: "parseDuration fl env ''TURN_CREDENTIAL_TTL'' (24 * hour) = (turn, e6)" by fastforce
  define urls where "urls = splitCSV (env ''TURN_URLS'')"
  define secret where "secret = envOr env ''TURN_SECRET'' []"
  define es where "es = [e1, e2, e3, e4, e5, e6, require_that ((secret = []) = (urls = [])) TurnHalfSet,
    require_that (trim_space (env ''DATABASE_URL'') \<noteq> []) DatabaseRequired, require_that (trim_space (env ''REDIS_URL'') \<noteq> []) RedisRequired,
    require_that (idle \<le> absolute) (IdleExceedsAbsolute idle absolute)]"
  have secret: "secret = [] \<longleftrightarrow> trim_space (env ''TURN_SECRET'') = []" by (simp add: secret_def envOr_def Let_def)
  note load = Load_def [of fl uu env, unfolded e1 e2 e3 e4 e5 e6 Let_def prod.case, folded urls_def secret_def, folded es_def]
  show ?thesis
  proof (cases "collect es = []")
    case True
    then have "e4 = None" "e5 = None" "e6 = None" "(secret = []) = (urls = [])" "trim_space (env ''DATABASE_URL'') \<noteq> []"
      "trim_space (env ''REDIS_URL'') \<noteq> []" "idle \<le> absolute" by (simp_all add: collect_Nil es_def)
    then show ?thesis
      using True e4 e5 e6 splitCSV_entries envOr_nonempty by (auto simp: load urls_def dest!: parseDuration_None)
  next
    case False
    have scan: "Some e \<in> set [e1, e2, e3] \<Longrightarrow> (\<exists>r. e = BadLevel r) \<or> (\<exists>k r. e = BadBool k r)" for e
      using e1 e2 e3 parseLevel_Some parseBool_Some by fastforce
    have dur: "Some e \<in> set [e4, e5, e6] \<Longrightarrow> duration_fault fl env e" for e
      using e4 e5 e6 parseDuration_Some by fastforce
    have es: "e \<in> set (collect es) \<longleftrightarrow> Some e \<in> set [e1, e2, e3] \<or> Some e \<in> set [e4, e5, e6] \<or>
        e = TurnHalfSet \<and> (secret = []) \<noteq> (urls = []) \<or> e = DatabaseRequired \<and> trim_space (env ''DATABASE_URL'') = [] \<or>
        e = RedisRequired \<and> trim_space (env ''REDIS_URL'') = [] \<or> e = IdleExceedsAbsolute idle absolute \<and> \<not> idle \<le> absolute" for e
      by (auto simp: collect_set es_def)
    have "DatabaseRequired \<in> set (collect es) \<longleftrightarrow> trim_space (env ''DATABASE_URL'') = []"
      "RedisRequired \<in> set (collect es) \<longleftrightarrow> trim_space (env ''REDIS_URL'') = []"
      "TurnHalfSet \<in> set (collect es) \<longleftrightarrow> (secret = []) \<noteq> (urls = [])"
      unfolding es using scan dur by (fastforce simp: duration_fault_def)+
    moreover have "raw = trim_space (env key) \<and> ParseDuration fl raw = None" if "BadDuration key raw \<in> set (collect es)" for key raw
      using that dur [of "BadDuration key raw"] scan [of "BadDuration key raw"] unfolding es by (auto simp: duration_fault_def)
    moreover have "v \<le> 0 \<and> ParseDuration fl (trim_space (env key)) = Some v" if "NotPositive key v \<in> set (collect es)" for key v
      using that dur [of "NotPositive key v"] scan [of "NotPositive key v"] unfolding es by (auto simp: duration_fault_def)
    ultimately show ?thesis using False secret by (auto simp: load urls_def)
  qed
qed


definition demo_environment :: env where
  "demo_environment k = (if k = ''DATABASE_URL'' then ''db'' else if k = ''REDIS_URL'' then ''rd'' else [])"

lemma demo_load: "\<exists>c. Load (\<lambda>f n k. 0) (\<lambda>x. x) demo_environment = Inr c \<and> cf_SessionIdleTTL c = 7 * 24 * hour \<and> cf_CookieSecure c \<and> cf_AllowedOrigins c = []"
proof -
  have t: "trim_space ''db'' = ''db''" "trim_space ''rd'' = ''rd''" by code_simp+
  have l: "parseLevel (\<lambda>x. x) ''info'' = (0, None)" by code_simp
  show ?thesis
    by (simp add: Load_def envOr_def parseBool_def parseDuration_def splitCSV_def l t collect_def require_that_def demo_environment_def)
qed


end
