(* ===== verification/Migrate.thy ===== *)
theory Migrate
  imports GoStrings "HOL-Library.List_Lexorder" "HOL-Library.Char_ord"
begin

text \<open>
  \<^verbatim>\<open>internal/database/migrate.go\<close>: applying the embedded migrations.  The database is an argument with one
  operation per call the code makes, each reporting whether it succeeded; the embedded files are an association
  list \<open>fs\<close> from paths to contents.  What the database holds is seen as \<open>mig_state\<close>: the recorded versions and the
  scripts that ran, both in the order of their commits.
\<close>

record mig_state =
  ms_versions :: "string list"
  ms_scripts :: "string list"

record 'p mig_db =
  mg_acquire :: "'p \<Rightarrow> 'p \<times> bool"
  mg_release :: "'p \<Rightarrow> 'p"
  mg_lock :: "'p \<Rightarrow> 'p \<times> bool"
  mg_unlock :: "'p \<Rightarrow> 'p \<times> bool"
  mg_create_table :: "'p \<Rightarrow> 'p \<times> bool"
  mg_select_versions :: "'p \<Rightarrow> 'p \<times> (string list \<times> bool) option"
  mg_begin :: "'p \<Rightarrow> 'p \<times> bool"
  mg_exec :: "string \<Rightarrow> 'p \<Rightarrow> 'p \<times> bool"
  mg_record :: "string \<Rightarrow> 'p \<Rightarrow> 'p \<times> bool"
  mg_commit :: "'p \<Rightarrow> 'p \<times> bool"
  mg_rollback :: "'p \<Rightarrow> 'p \<times> bool"

datatype mig_error = NoMigrations | AcquireFailed | LockFailed | CreateTableFailed | ReadVersions | IterateVersions
  | ReadFile string | BeginFailed string | ApplyFailed string | RecordFailed string | CommitFailed string

subsection \<open>The code\<close>

definition migrationFiles :: "(string \<times> string) list \<Rightarrow> mig_error + string list" where
  "migrationFiles fs = (if fs = [] then Inl NoMigrations else Inr (sort (map fst fs)))"

definition appliedVersions :: "'p mig_db \<Rightarrow> 'p \<Rightarrow> 'p \<times> (mig_error + string list)" where
  "appliedVersions M s = (case mg_select_versions M s of
     (s1, None) \<Rightarrow> (s1, Inl ReadVersions)
   | (s1, Some (rows, ok)) \<Rightarrow> (s1, if ok then Inr rows else Inl IterateVersions))"

text \<open>The statements between \<^verbatim>\<open>Begin\<close> and the deferred \<^verbatim>\<open>Rollback\<close>.\<close>

definition migration_tx :: "'p mig_db \<Rightarrow> string \<Rightarrow> string \<Rightarrow> 'p \<Rightarrow> 'p \<times> mig_error option" where
  "migration_tx M name body s =
     (case mg_exec M body s of
        (s1, False) \<Rightarrow> (s1, Some (ApplyFailed name))
      | (s1, True) \<Rightarrow>
          (case mg_record M name s1 of
             (s2, False) \<Rightarrow> (s2, Some (RecordFailed name))
           | (s2, True) \<Rightarrow>
               (case mg_commit M s2 of
                  (s3, False) \<Rightarrow> (s3, Some (CommitFailed name))
                | (s3, True) \<Rightarrow> (s3, None))))"

definition applyMigration :: "'p mig_db \<Rightarrow> (string \<times> string) list \<Rightarrow> string \<Rightarrow> 'p \<Rightarrow> 'p \<times> mig_error option" where
  "applyMigration M fs name s =
     (case map_of fs name of
        None \<Rightarrow> (s, Some (ReadFile name))
      | Some body \<Rightarrow>
          (case mg_begin M s of
             (s1, False) \<Rightarrow> (s1, Some (BeginFailed name))
           | (s1, True) \<Rightarrow>
               (case migration_tx M name body s1 of (s2, e) \<Rightarrow> (fst (mg_rollback M s2), e))))"

fun apply_pending ::
    "'p mig_db \<Rightarrow> (string \<times> string) list \<Rightarrow> string list \<Rightarrow> string list \<Rightarrow> 'p \<Rightarrow> 'p \<times> mig_error option" where
  "apply_pending M fs applied [] s = (s, None)"
| "apply_pending M fs applied (name # names) s =
     (if name \<in> set applied then apply_pending M fs applied names s
      else case applyMigration M fs name s of
        (s1, Some e) \<Rightarrow> (s1, Some e)
      | (s1, None) \<Rightarrow> apply_pending M fs applied names s1)"

text \<open>What runs between taking the lock and the deferred unlock.\<close>

definition migrate_locked :: "'p mig_db \<Rightarrow> (string \<times> string) list \<Rightarrow> string list \<Rightarrow> 'p \<Rightarrow> 'p \<times> mig_error option" where
  "migrate_locked M fs files s =
     (case mg_create_table M s of
        (s1, False) \<Rightarrow> (s1, Some CreateTableFailed)
      | (s1, True) \<Rightarrow>
          (case appliedVersions M s1 of
             (s2, Inl e) \<Rightarrow> (s2, Some e)
           | (s2, Inr applied) \<Rightarrow> apply_pending M fs applied files s2))"

definition Migrate :: "'p mig_db \<Rightarrow> (string \<times> string) list \<Rightarrow> 'p \<Rightarrow> 'p \<times> mig_error option" where
  "Migrate M fs s =
     (case migrationFiles fs of
        Inl e \<Rightarrow> (s, Some e)
      | Inr files \<Rightarrow>
          (case mg_acquire M s of
             (s1, False) \<Rightarrow> (s1, Some AcquireFailed)
           | (s1, True) \<Rightarrow>
               (case mg_lock M s1 of
                  (s2, False) \<Rightarrow> (mg_release M s2, Some LockFailed)
                | (s2, True) \<Rightarrow>
                    (case migrate_locked M fs files s2 of
                       (s3, e) \<Rightarrow> (mg_release M (fst (mg_unlock M s3)), e)))))"

subsection \<open>The database\<close>

text \<open>The advisory lock excludes every other session; a transaction takes effect as a whole or not at all, and a
  failed commit may be either; the version is a primary key; the scripts do not touch the table of versions.\<close>

locale migration_db =
  fixes M :: "'p mig_db" and view :: "'p \<Rightarrow> mig_state" and work :: "'p \<Rightarrow> mig_state option" and locked :: "'p \<Rightarrow> bool"
  assumes acquire_any: "mg_acquire M s = (s', ok) \<Longrightarrow> view s' = view s"
    and release_any: "view (mg_release M s) = view s" "locked (mg_release M s) = locked s"
    and lock_ok: "mg_lock M s = (s', True) \<Longrightarrow> \<not> locked s \<and> view s' = view s"
    and lock_err: "mg_lock M s = (s', False) \<Longrightarrow> view s' = view s"
    and unlock_any: "mg_unlock M s = (s', ok) \<Longrightarrow> view s' = view s \<and> (ok \<longrightarrow> \<not> locked s')"
    and create_any: "mg_create_table M s = (s', ok) \<Longrightarrow> view s' = view s"
    and versions_ok: "mg_select_versions M s = (s', Some (rows, True)) \<Longrightarrow> set rows = set (ms_versions (view s))"
    and versions_any: "mg_select_versions M s = (s', rv) \<Longrightarrow> view s' = view s"
    and begin_any: "mg_begin M s = (s', ok) \<Longrightarrow> view s' = view s \<and> (ok \<longrightarrow> work s' = Some (view s))"
    and exec_any: "mg_exec M body s = (s', ok) \<Longrightarrow> work s = Some d \<Longrightarrow>
      view s' = view s \<and> (ok \<longrightarrow> work s' = Some (d\<lparr>ms_scripts := ms_scripts d @ [body]\<rparr>))"
    and record_any: "mg_record M name s = (s', ok) \<Longrightarrow> work s = Some d \<Longrightarrow>
      view s' = view s \<and> (ok \<longrightarrow> name \<notin> set (ms_versions d) \<and> work s' = Some (d\<lparr>ms_versions := ms_versions d @ [name]\<rparr>))"
    and commit_any: "mg_commit M s = (s', ok) \<Longrightarrow> work s = Some d \<Longrightarrow> view s' = d \<or> (\<not> ok \<and> view s' = view s)"
    and rollback_any: "mg_rollback M s = (s', ok) \<Longrightarrow> view s' = view s"

definition advance :: "(string \<Rightarrow> string) \<Rightarrow> string list \<Rightarrow> mig_state \<Rightarrow> mig_state" where
  "advance body names d = d\<lparr>ms_versions := ms_versions d @ names, ms_scripts := ms_scripts d @ map body names\<rparr>"

lemma advance_Nil [simp]: "advance body [] d = d"
  by (simp add: advance_def)

lemma advance_advance [simp]: "advance body ys (advance body xs d) = advance body (xs @ ys) d"
  by (simp add: advance_def)

lemma advance_sel [simp]:
  "ms_versions (advance body names d) = ms_versions d @ names" "ms_scripts (advance body names d) = ms_scripts d @ map body names"
  by (simp_all add: advance_def)

definition body_of :: "(string \<times> string) list \<Rightarrow> string \<Rightarrow> string" where
  "body_of fs name = the (map_of fs name)"

definition pending :: "(string \<times> string) list \<Rightarrow> mig_state \<Rightarrow> string list" where
  "pending fs d = filter (\<lambda>n. n \<notin> set (ms_versions d)) (sort (map fst fs))"

context migration_db
begin

lemma migration_tx_spec:
  assumes "migration_tx M name body s = (s', e)" "work s = Some d"
  shows "view s' = d\<lparr>ms_versions := ms_versions d @ [name], ms_scripts := ms_scripts d @ [body]\<rparr> \<or> (e \<noteq> None \<and> view s' = view s)"
proof -
  obtain s1 k1 where x: "mg_exec M body s = (s1, k1)" by fastforce
  note x' = exec_any [OF x assms(2)]
  show ?thesis
  proof (cases k1)
    case False
    then show ?thesis using assms(1) x x' by (auto simp: migration_tx_def)
  next
    case True
    let ?d1 = "d\<lparr>ms_scripts := ms_scripts d @ [body]\<rparr>"
    obtain s2 k2 where r: "mg_record M name s1 = (s2, k2)" by fastforce
    have w1: "work s1 = Some ?d1" using x' True by simp
    note r' = record_any [OF r w1]
    obtain s3 k3 where c: "mg_commit M s2 = (s3, k3)" by fastforce
    show ?thesis
    proof (cases k2)
      case False
      then show ?thesis using assms(1) x x' True r r' by (auto simp: migration_tx_def)
    next
      case k2: True
      have "work s2 = Some (?d1\<lparr>ms_versions := ms_versions ?d1 @ [name]\<rparr>)" using r' k2 by simp
      from commit_any [OF c this] show ?thesis
        using assms(1) x x' True r r' k2 c by (cases k3) (auto simp: migration_tx_def)
    qed
  qed
qed

lemma applyMigration_spec:
  assumes "applyMigration M fs name s = (s', e)"
  shows "view s' = advance (body_of fs) [name] (view s) \<or> (e \<noteq> None \<and> view s' = view s)"
proof (cases "map_of fs name")
  case None
  then show ?thesis using assms by (auto simp: applyMigration_def)
next
  case (Some body)
  obtain s1 k where b: "mg_begin M s = (s1, k)" by fastforce
  note b' = begin_any [OF b]
  show ?thesis
  proof (cases k)
    case False
    then show ?thesis using assms Some b b' by (auto simp: applyMigration_def)
  next
    case True
    obtain s2 e2 where t: "migration_tx M name body s1 = (s2, e2)" by fastforce
    have "view s' = view s2" "e = e2"
      using assms Some b t True rollback_any [OF prod.collapse [symmetric], of s2] by (auto simp: applyMigration_def)
    then show ?thesis using migration_tx_spec [OF t, of "view s"] b' True Some by (auto simp: advance_def body_of_def)
  qed
qed

lemma apply_pending_spec:
  "apply_pending M fs applied names s = (s', e) \<Longrightarrow>
   \<exists>n. view s' = advance (body_of fs) (take n (filter (\<lambda>x. x \<notin> set applied) names)) (view s) \<and>
     (e = None \<longrightarrow> length (filter (\<lambda>x. x \<notin> set applied) names) \<le> n)"
proof (induction names arbitrary: s)
  case (Cons name names)
  show ?case
  proof (cases "name \<in> set applied")
    case True
    then show ?thesis using Cons by simp
  next
    case False
    obtain s1 e1 where a: "applyMigration M fs name s = (s1, e1)" by fastforce
    note a' = applyMigration_spec [OF a]
    show ?thesis
    proof (cases e1)
      case None
      then obtain n where "view s' = advance (body_of fs) (take n (filter (\<lambda>x. x \<notin> set applied) names)) (view s1)"
        "e = None \<longrightarrow> length (filter (\<lambda>x. x \<notin> set applied) names) \<le> n" using Cons False a by auto
      then show ?thesis using a' None False by (intro exI [of _ "Suc n"]) auto
    next
      case (Some e')
      then have "s' = s1" "e \<noteq> None" using Cons.prems False a by auto
      then show ?thesis using a' False by (cases "view s1 = view s") (auto intro: exI [of _ 0] exI [of _ 1])
    qed
  qed
qed auto

lemma migrate_locked_spec:
  assumes "migrate_locked M fs (sort (map fst fs)) s = (s', e)"
  shows "\<exists>n. view s' = advance (body_of fs) (take n (pending fs (view s))) (view s) \<and> (e = None \<longrightarrow> length (pending fs (view s)) \<le> n)"
proof -
  obtain s1 k where c: "mg_create_table M s = (s1, k)" by fastforce
  obtain s2 r where a: "appliedVersions M s1 = (s2, r)" by fastforce
  have v1: "view s1 = view s" using create_any [OF c] .
  obtain rv where q: "mg_select_versions M s1 = (s2, rv)"
    using a by (auto simp: appliedVersions_def split: prod.splits option.splits)
  have v2: "view s2 = view s" using versions_any [OF q] v1 by simp
  have rows: "set rows = set (ms_versions (view s))" if "r = Inr rows" for rows
    using a q that versions_ok [of s1 s2 rows] v1 by (auto simp: appliedVersions_def split: option.splits if_splits)
  show ?thesis
  proof (cases "k \<and> isl r \<or> \<not> k")
    case True
    then have "view s' = view s" "e \<noteq> None" using assms c a v1 v2 by (auto simp: migrate_locked_def split: sum.splits bool.splits)
    then show ?thesis by (intro exI [of _ 0]) auto
  next
    case False
    then obtain rows where r: "r = Inr rows" and k by (cases r) auto
    then have "apply_pending M fs rows (sort (map fst fs)) s2 = (s', e)" using assms c a by (simp add: migrate_locked_def)
    from apply_pending_spec [OF this] rows [OF r] v2 show ?thesis by (simp add: pending_def)
  qed
qed

lemma Migrate_spec:
  assumes "Migrate M fs s = (s', e)"
  shows "\<exists>n. view s' = advance (body_of fs) (take n (pending fs (view s))) (view s) \<and> (e = None \<longrightarrow> length (pending fs (view s)) \<le> n)"
proof (cases "fs = []")
  case True
  then show ?thesis using assms by (intro exI [of _ 0]) (auto simp: Migrate_def migrationFiles_def)
next
  case False
  obtain s1 k1 where a: "mg_acquire M s = (s1, k1)" by fastforce
  obtain s2 k2 where l: "mg_lock M s1 = (s2, k2)" by fastforce
  obtain s3 e3 where m: "migrate_locked M fs (sort (map fst fs)) s2 = (s3, e3)" by fastforce
  obtain s4 k4 where u: "mg_unlock M s3 = (s4, k4)" by fastforce
  have v: "view s1 = view s" "view s2 = view s1" "view s4 = view s3" "\<And>x. view (mg_release M x) = view x"
    using acquire_any [OF a] lock_ok [of s1 s2] lock_err [of s1 s2] l unlock_any [OF u] release_any by (cases k2; simp)+
  show ?thesis
  proof (cases "k1 \<and> k2")
    case True
    then have "s' = mg_release M s4" "e = e3" using assms False a l m u by (auto simp: Migrate_def migrationFiles_def)
    then show ?thesis using migrate_locked_spec [OF m] v by simp
  next
    case f: False
    then have "view s' = view s \<and> e \<noteq> None" using assms False a l v by (cases k1) (auto simp: Migrate_def migrationFiles_def)
    then show ?thesis by (intro exI [of _ 0]) auto
  qed
qed

end

subsection \<open>Any number of starts\<close>

text \<open>Replicas starting, restarting and failing at any point, of any releases whose migrations agree on their content;
  the lock makes their runs follow one another.\<close>

inductive mig_reach :: "'p mig_db \<Rightarrow> ('p \<Rightarrow> mig_state) \<Rightarrow> (string \<Rightarrow> string) \<Rightarrow> 'p \<Rightarrow> bool"
  for M :: "'p mig_db" and view :: "'p \<Rightarrow> mig_state" and body :: "string \<Rightarrow> string" where
  fresh: "ms_versions (view s) = [] \<Longrightarrow> ms_scripts (view s) = [] \<Longrightarrow> mig_reach M view body s"
| start: "mig_reach M view body s \<Longrightarrow> distinct (map fst fs) \<Longrightarrow> \<forall>(n, b)\<in>set fs. b = body n \<Longrightarrow> Migrate M fs s = (s', e) \<Longrightarrow>
    mig_reach M view body s'"

lemma pending_distinct: "distinct (map fst fs) \<Longrightarrow> distinct (pending fs d)"
  by (simp add: pending_def)

lemma pending_files: "n \<in> set (pending fs d) \<longleftrightarrow> n \<in> fst ` set fs \<and> n \<notin> set (ms_versions d)"
  by (auto simp: pending_def)

lemma body_of_agrees: "\<forall>(n, b)\<in>set fs. b = body n \<Longrightarrow> n \<in> fst ` set fs \<Longrightarrow> body_of fs n = body n"
proof -
  assume a: "\<forall>(n, b)\<in>set fs. b = body n" "n \<in> fst ` set fs"
  then obtain b where "map_of fs n = Some b" by (metis domD dom_map_of_conv_image_fst)
  then show "body_of fs n = body n" using a(1) map_of_SomeD [of fs n b] by (auto simp: body_of_def)
qed

context migration_db
begin

lemma reach_once: "mig_reach M view body s \<Longrightarrow> distinct (ms_versions (view s)) \<and> ms_scripts (view s) = map body (ms_versions (view s))"
proof (induction rule: mig_reach.induct)
  case (start s fs s' e)
  obtain n where n: "view s' = advance (body_of fs) (take n (pending fs (view s))) (view s)"
    using Migrate_spec [OF start(4)] by blast
  let ?new = "take n (pending fs (view s))"
  have new: "\<forall>x\<in>set ?new. x \<in> fst ` set fs \<and> x \<notin> set (ms_versions (view s))"
    using set_take_subset [of n "pending fs (view s)"] pending_files by fast
  then have "map (body_of fs) ?new = map body ?new" using body_of_agrees [OF start(3)] by simp
  moreover have "distinct (ms_versions (view s) @ ?new)" using start pending_distinct [OF start(2)] new by auto
  ultimately show ?case using start(5) n by simp
qed simp

lemma Migrate_resumes:
  assumes "Migrate M fs s = (s', e)"
  shows "(\<exists>n. view s' = advance (body_of fs) (take n (pending fs (view s))) (view s)) \<and>
    (e = None \<longrightarrow> view s' = advance (body_of fs) (pending fs (view s)) (view s) \<and> pending fs (view s') = [] \<and>
       view (fst (Migrate M fs s')) = view s')"
proof -
  obtain n where n: "view s' = advance (body_of fs) (take n (pending fs (view s))) (view s)" "e = None \<longrightarrow> length (pending fs (view s)) \<le> n"
    using Migrate_spec [OF assms] by blast
  have "view s' = advance (body_of fs) (pending fs (view s)) (view s) \<and> pending fs (view s') = [] \<and> view (fst (Migrate M fs s')) = view s'"
    if "e = None"
  proof -
    have v: "view s' = advance (body_of fs) (pending fs (view s)) (view s)" using n that by simp
    then have p: "pending fs (view s') = []" by (auto simp: pending_def filter_empty_conv)
    obtain s2 e2 where "Migrate M fs s' = (s2, e2)" by fastforce
    from Migrate_spec [OF this] p v this show ?thesis by auto
  qed
  then show ?thesis using n by blast
qed

end

subsection \<open>An instance\<close>

record memmig =
  mm_view :: mig_state
  mm_work :: "mig_state option"
  mm_locked :: bool
  mm_fuel :: nat

text \<open>A database whose calls start failing after \<open>mm_fuel\<close> of them.\<close>

definition mm_call :: "(memmig \<Rightarrow> memmig option) \<Rightarrow> memmig \<Rightarrow> memmig \<times> bool" where
  "mm_call f s = (if mm_fuel s = 0 then (s, False) else
     case f (s\<lparr>mm_fuel := mm_fuel s - 1\<rparr>) of None \<Rightarrow> (s, False) | Some s' \<Rightarrow> (s', True))"

definition mem_mig :: "memmig mig_db" where
  "mem_mig = \<lparr>
     mg_acquire = mm_call Some,
     mg_release = (\<lambda>s. s),
     mg_lock = mm_call (\<lambda>s. if mm_locked s then None else Some (s\<lparr>mm_locked := True\<rparr>)),
     mg_unlock = mm_call (\<lambda>s. Some (s\<lparr>mm_locked := False\<rparr>)),
     mg_create_table = mm_call Some,
     mg_select_versions = (\<lambda>s. if mm_fuel s = 0 then (s, None) else (s, Some (ms_versions (mm_view s), True))),
     mg_begin = mm_call (\<lambda>s. Some (s\<lparr>mm_work := Some (mm_view s)\<rparr>)),
     mg_exec = (\<lambda>b. mm_call (\<lambda>s. map_option (\<lambda>d. s\<lparr>mm_work := Some (d\<lparr>ms_scripts := ms_scripts d @ [b]\<rparr>)\<rparr>) (mm_work s))),
     mg_record = (\<lambda>n. mm_call (\<lambda>s. case mm_work s of None \<Rightarrow> None | Some d \<Rightarrow>
       if n \<in> set (ms_versions d) then None else Some (s\<lparr>mm_work := Some (d\<lparr>ms_versions := ms_versions d @ [n]\<rparr>)\<rparr>))),
     mg_commit = mm_call (\<lambda>s. map_option (\<lambda>d. s\<lparr>mm_view := d, mm_work := None\<rparr>) (mm_work s)),
     mg_rollback = (\<lambda>s. (s\<lparr>mm_work := None\<rparr>, True))\<rparr>"

lemma mm_call_cases:
  "mm_call f s = (s', ok) \<Longrightarrow> (\<not> ok \<and> s' = s) \<or> (ok \<and> f (s\<lparr>mm_fuel := mm_fuel s - 1\<rparr>) = Some s')"
  by (auto simp: mm_call_def split: if_splits option.splits)

interpretation memmig: migration_db mem_mig mm_view mm_work mm_locked
  by unfold_locales (auto simp: mem_mig_def dest!: mm_call_cases split: if_splits option.splits)

subsection \<open>Properties\<close>


definition demo_fs :: "(string \<times> string) list" where
  "demo_fs = [(''0002'', ''two''), (''0001'', ''one'')]"

definition demo_body :: "string \<Rightarrow> string" where
  "demo_body n = (if n = ''0001'' then ''one'' else ''two'')"

definition demo_mig :: "nat \<Rightarrow> memmig" where
  "demo_mig n = \<lparr>mm_view = \<lparr>ms_versions = [], ms_scripts = []\<rparr>, mm_work = None, mm_locked = False, mm_fuel = n\<rparr>"

text \<open>A start that fails while committing the second migration leaves the first.\<close>

lemma demo_failing_start:
  "ms_versions (mm_view (fst (Migrate mem_mig demo_fs (demo_mig 10)))) = [''0001''] \<and>
   snd (Migrate mem_mig demo_fs (demo_mig 10)) = Some (CommitFailed ''0002'')"
  by code_simp


end
