(* ===== verification/Mux.thy ===== *)
theory Mux
  imports Httpx "HOL-Library.List_Lexorder" "HOL-Library.Char_ord"
begin

text \<open>
  The part of \<^verbatim>\<open>http.ServeMux\<close> the server uses: patterns with a method and path segments, literal or one-segment
  wildcards.  The path of a request is its escaped form; it is cleaned first and redirected when it was not clean
  (\<open>loc\<close> is the target as the URL library prints it), matched segment by segment, and answered with 405 or 404 when
  only the method or nothing fits.  No pattern ends in a slash, so the redirects that add one do not arise.
\<close>

datatype seg = Lit string | Wild

type_synonym 'e route = "string \<times> seg list \<times> 'e"

subsection \<open>Paths\<close>

fun clean_stack :: "string list \<Rightarrow> string list \<Rightarrow> string list" where
  "clean_stack acc [] = rev acc"
| "clean_stack acc (x # xs) =
     (if x = [] \<or> x = ''.'' then clean_stack acc xs
      else if x = ''..'' then clean_stack (tl acc) xs
      else clean_stack (x # acc) xs)"

definition path_Clean :: "string \<Rightarrow> string" where
  "path_Clean p = ''/'' @ join ''/'' (clean_stack [] (split (CHR ''/'') p))"

definition cleanPath :: "string \<Rightarrow> string" where
  "cleanPath p =
     (if p = [] then ''/''
      else let p1 = (if hd p = CHR ''/'' then p else CHR ''/'' # p); np = path_Clean p1
           in if last p1 = CHR ''/'' \<and> np \<noteq> ''/'' then np @ ''/'' else np)"

definition hex_value :: "char \<Rightarrow> nat option" where
  "hex_value c = (let b = byte c in
     if 48 \<le> b \<and> b \<le> 57 then Some (b - 48)
     else if 0x61 \<le> b \<and> b \<le> 0x66 then Some (b - 0x61 + 10)
     else if 0x41 \<le> b \<and> b \<le> 0x46 then Some (b - 0x41 + 10) else None)"

fun unescape :: "string \<Rightarrow> string option" where
  "unescape [] = Some []"
| "unescape (c # s) =
     (if c = CHR ''%''
      then (case s of
              a # b # r \<Rightarrow>
                (case (hex_value a, hex_value b) of
                   (Some x, Some y) \<Rightarrow> map_option (\<lambda>t. char_of (16 * x + y) # t) (unescape r)
                 | _ \<Rightarrow> None)
            | _ \<Rightarrow> None)
      else map_option (\<lambda>t. c # t) (unescape s))"

definition pathUnescape :: "string \<Rightarrow> string" where
  "pathUnescape s = (case unescape s of None \<Rightarrow> s | Some t \<Rightarrow> t)"

text \<open>A trailing slash is a segment of its own.\<close>

fun segs_of :: "string list \<Rightarrow> string list" where
  "segs_of [] = []"
| "segs_of [x] = [if x = [] then ''/'' else pathUnescape x]"
| "segs_of (x # xs) = pathUnescape x # segs_of xs"

definition path_segs :: "string \<Rightarrow> string list" where
  "path_segs p = (if p = [] then [] else segs_of (split (CHR ''/'') (tl p)))"

subsection \<open>Matching\<close>

fun match_segs :: "seg list \<Rightarrow> string list \<Rightarrow> string list option" where
  "match_segs [] [] = Some []"
| "match_segs (Lit l # ps) (x # xs) = (if x = l then match_segs ps xs else None)"
| "match_segs (Wild # ps) (x # xs) = (if x \<noteq> ''/'' then map_option (\<lambda>vs. x # vs) (match_segs ps xs) else None)"
| "match_segs _ _ = None"

fun find_route :: "string \<Rightarrow> string list \<Rightarrow> 'e route list \<Rightarrow> ('e \<times> string list) option" where
  "find_route m xs [] = None"
| "find_route m xs ((m', ps, e) # rs) =
     (if m' = m then (case match_segs ps xs of Some vs \<Rightarrow> Some (e, vs) | None \<Rightarrow> find_route m xs rs)
      else find_route m xs rs)"

definition match_route :: "string \<Rightarrow> string list \<Rightarrow> 'e route list \<Rightarrow> ('e \<times> string list) option" where
  "match_route m xs rs = (case find_route m xs rs of
     Some r \<Rightarrow> Some r
   | None \<Rightarrow> if m = ''HEAD'' then find_route ''GET'' xs rs else None)"

definition matchingMethods :: "string list \<Rightarrow> 'e route list \<Rightarrow> string list" where
  "matchingMethods xs rs =
     (let ms = remdups (map fst (filter (\<lambda>(m, ps, e). match_segs ps xs \<noteq> None) rs))
      in sort (if ''GET'' \<in> set ms then List.insert ''HEAD'' ms else ms))"

subsection \<open>Serving\<close>

definition html_escape :: "string \<Rightarrow> string" where
  "html_escape s = concat (map (\<lambda>c.
     if c = CHR ''&'' then ''&amp;'' else if c = CHR ''<'' then ''&lt;'' else if c = CHR ''>'' then ''&gt;''
     else if c = CHR 0x22 then ''&#34;'' else if c = CHR 0x27 then ''&#39;'' else [c]) s)"

definition redirect :: "string \<Rightarrow> http_request \<Rightarrow> http_response \<Rightarrow> http_response" where
  "redirect url r w =
     (let hadCT = (map_of (rs_header w) ''Content-Type'' \<noteq> None);
          w1 = set_header ''Location'' url w;
          w2 = (if \<not> hadCT \<and> (rq_method r = ''GET'' \<or> rq_method r = ''HEAD'')
                then set_header ''Content-Type'' ''text/html; charset=utf-8'' w1 else w1);
          w3 = WriteHeader 301 w2
      in if \<not> hadCT \<and> rq_method r = ''GET''
         then Write (TextBody (''<a href='' @ [CHR 0x22] @ html_escape url @ [CHR 0x22] @ ''>Moved Permanently</a>.'' @ [CHR 0x0A, CHR 0x0A])) w3
         else w3)"

definition mux_serve :: "'e route list \<Rightarrow> (http_request \<Rightarrow> string \<Rightarrow> string) \<Rightarrow> ('e \<Rightarrow> 'w handler) \<Rightarrow> 'w handler" where
  "mux_serve rs loc serve r w s =
     (let path = (if rq_method r = ''CONNECT'' then rq_path r else cleanPath (rq_path r)); xs = path_segs path
      in if path \<noteq> rq_path r then (s, Done (redirect (loc r path) r w))
         else case match_route (rq_method r) xs rs of
           Some (e, vs) \<Rightarrow> serve e (r\<lparr>rq_slug := (case vs of [] \<Rightarrow> [] | v # _ \<Rightarrow> v)\<rparr>) w s
         | None \<Rightarrow>
             (case matchingMethods xs rs of
                [] \<Rightarrow> (s, Done (plain_error 404 ''404 page not found'' w))
              | ms \<Rightarrow> (s, Done (plain_error 405 ''Method Not Allowed'' (set_header ''Allow'' (join '', '' ms) w)))))"

end
