(* ===== verification/Connect.thy ===== *)
theory Connect
  imports GoStrings
begin

text \<open>
  \<^verbatim>\<open>internal/database/postgres.go\<close> and \<^verbatim>\<open>connectRedis\<close> of \<^verbatim>\<open>cmd/server/main.go\<close>: opening the two clients.  The drivers are
  arguments: how an address is parsed and which of the network calls succeed.
\<close>

record PoolConfig =
  pc_address :: string
  pc_MaxConns :: int
  pc_MinConns :: int
  pc_MaxConnLifetime :: duration
  pc_MaxConnIdleTime :: duration
  pc_ConnectTimeout :: duration

record pool_driver =
  pd_ParseConfig :: "string \<Rightarrow> PoolConfig option"
  pd_NewWithConfig :: "PoolConfig \<Rightarrow> bool"
  pd_Ping :: "PoolConfig \<Rightarrow> duration \<Rightarrow> bool"

datatype connect_error = ParseURL | CreatePool | PingDatabase

definition maxConns :: int where "maxConns = 20"

definition minConns :: int where "minConns = 2"

definition maxConnLifetime :: duration where "maxConnLifetime = hour"

definition maxConnIdleTime :: duration where "maxConnIdleTime = 30 * minute"

definition connectTimeout :: duration where "connectTimeout = 10 * second"

lemmas pool_settings = maxConns_def minConns_def maxConnLifetime_def maxConnIdleTime_def connectTimeout_def

definition Connect :: "pool_driver \<Rightarrow> string \<Rightarrow> connect_error + PoolConfig" where
  "Connect drv url =
     (case pd_ParseConfig drv url of
        None \<Rightarrow> Inl ParseURL
      | Some c0 \<Rightarrow>
          (let c = c0\<lparr>pc_MaxConns := maxConns, pc_MinConns := minConns, pc_MaxConnLifetime := maxConnLifetime,
                      pc_MaxConnIdleTime := maxConnIdleTime, pc_ConnectTimeout := connectTimeout\<rparr>
           in if \<not> pd_NewWithConfig drv c then Inl CreatePool
              else if \<not> pd_Ping drv c connectTimeout then Inl PingDatabase
              else Inr c))"

record RedisOptions =
  ro_address :: string
  ro_MaxRetries :: int
  ro_DialTimeout :: duration
  ro_ReadTimeout :: duration
  ro_WriteTimeout :: duration

record redis_driver =
  rd_ParseURL :: "string \<Rightarrow> RedisOptions option"
  rd_Ping :: "RedisOptions \<Rightarrow> bool"
  rd_Close :: "RedisOptions \<Rightarrow> bool"

text \<open>\<open>PingRedis\<close> tells whether closing the client after the failed ping failed as well.\<close>

datatype redis_connect_error = ParseRedisURL | PingRedis bool

definition connectRedis :: "redis_driver \<Rightarrow> string \<Rightarrow> redis_connect_error + RedisOptions" where
  "connectRedis drv url =
     (case rd_ParseURL drv url of
        None \<Rightarrow> Inl ParseRedisURL
      | Some o0 \<Rightarrow>
          (let opts = o0\<lparr>ro_MaxRetries := 3, ro_DialTimeout := 5 * second, ro_ReadTimeout := 3 * second, ro_WriteTimeout := 3 * second\<rparr>
           in if rd_Ping drv opts then Inr opts else Inl (PingRedis (\<not> rd_Close drv opts))))"

text \<open>A client that was opened has the settings and has answered.\<close>

lemma Connect_ok:
  "Connect drv url = Inr c \<Longrightarrow> pd_Ping drv c connectTimeout \<and> 0 < pc_MinConns c \<and> pc_MinConns c \<le> pc_MaxConns c \<and> pc_MaxConns c = 20"
  by (auto simp: Connect_def Let_def pool_settings split: option.splits if_splits)

lemma connectRedis_ok: "connectRedis drv url = Inr x \<Longrightarrow> rd_Ping drv x \<and> ro_MaxRetries x = 3"
  by (auto simp: connectRedis_def Let_def split: option.splits if_splits)

end
