(* ===== verification/Server.thy ===== *)
theory Server
  imports Mux Invites Turn Config Migrate SignalingClient Connect
begin

text \<open>
  \<^verbatim>\<open>cmd/server/main.go\<close>: the server put together.  \<open>externals\<close> holds everything the program takes from outside its
  own code: the two servers, cryptography, decoders, URL and address parsing, Unicode tables.  The state of the
  running server is both servers' state, the inbox hub, the signaling hub and the two connection counters; what a
  request meets besides its input (time, random bytes, schedules of the hubs, the outcome of a websocket handshake and
  of the two pings) is its \<open>srv_env\<close>.
\<close>

record ('s, 'p) externals =
  ex_pg :: "'p pg"
  ex_redis :: "'s redis"
  ex_sha256 :: "string \<Rightarrow> string"
  ex_marshal :: "Session \<Rightarrow> string option"
  ex_unmarshal :: "string \<Rightarrow> Session option"
  ex_argon2 :: argon2_fn
  ex_lower :: "string \<Rightarrow> string"
  ex_fold :: "string \<Rightarrow> string"
  ex_parse_ip :: "string \<Rightarrow> string option"
  ex_parse_addr :: "string \<Rightarrow> (string \<times> string) option"
  ex_url_parse :: "string \<Rightarrow> (string \<times> string) option"
  ex_dec_credentials :: "string \<Rightarrow> bool \<Rightarrow> credentialsRequest option"
  ex_dec_passwords :: "string \<Rightarrow> bool \<Rightarrow> changePasswordRequest option"
  ex_dec_room :: "string \<Rightarrow> bool \<Rightarrow> createRequest option"
  ex_dec_invite :: "string \<Rightarrow> bool \<Rightarrow> string option"
  ex_hmac :: "string \<Rightarrow> string \<Rightarrow> string"
  ex_jcompact :: "string \<Rightarrow> string option"
  ex_location :: "http_request \<Rightarrow> string \<Rightarrow> string"

record ('s, 'p) server =
  sr_ext :: "('s, 'p) externals"
  sr_policy :: OriginPolicy
  sr_auth :: "('s, 'p) auth_handlers"
  sr_rooms :: "'p room_handlers"
  sr_invites :: "('s, 'p) invite_handlers"
  sr_turn :: turn_handlers

record ('s, 'p) server_world = "('s, 'p) ib_world" +
  wd_hub :: hub
  wd_clientIDs :: "64 word"
  wd_connIDs :: "64 word"

record srv_env =
  en_req :: req_env
  en_rand :: rand
  en_sched :: sched
  en_ib_sched :: ib_sched
  en_handshake :: bool
  en_upgrade_error :: "http_response \<Rightarrow> http_response"
  en_pg_ping :: "string option"
  en_redis_ping :: "string option"

subsection \<open>Wiring\<close>

definition wire :: "('s, 'p) externals \<Rightarrow> Config \<Rightarrow> OriginPolicy \<Rightarrow> ('s, 'p) server" where
  "wire ext cfg policy =
     (let sessions = \<lparr>rdb = ex_redis ext, idleTTL = cf_SessionIdleTTL cfg, absoluteTTL = cf_SessionAbsoluteTTL cfg,
                      ticketTTL = cf_WSTicketTTL cfg, sha256 = ex_sha256 ext, marshal = ex_marshal ext, unmarshal = ex_unmarshal ext\<rparr>;
          svc = \<lparr>sv_users = ex_pg ext, sv_sessions = sessions, sv_limiter = ex_redis ext, sv_argon2 = ex_argon2 ext,
                 sv_lower = ex_lower ext, sv_parse_ip = ex_parse_ip ext, sv_parse_addr = ex_parse_addr ext\<rparr>;
          mw = NewMiddleware svc (ex_fold ext) (cf_CookieName cfg) (cf_CookieDomain cfg) (cf_CookieSecure cfg)
                 (cf_SessionIdleTTL cfg) (cf_SessionAbsoluteTTL cfg) (cf_TrustProxy cfg)
      in \<lparr>sr_ext = ext, sr_policy = policy,
          sr_auth = \<lparr>ah_mw = mw, ah_dec_credentials = ex_dec_credentials ext, ah_dec_passwords = ex_dec_passwords ext\<rparr>,
          sr_rooms = \<lparr>rh_pg = ex_pg ext, rh_lower = ex_lower ext, rh_dec = ex_dec_room ext\<rparr>,
          sr_invites = \<lparr>iv_rooms = ex_pg ext, iv_users = ex_pg ext, iv_limiter = ex_redis ext, iv_lower = ex_lower ext,
                        iv_dec = ex_dec_invite ext\<rparr>,
          sr_turn = \<lparr>th_secret = cf_TURNSecret cfg, th_urls = cf_TURNURLs cfg, th_ttl = cf_TURNCredentialTTL cfg,
                     th_hmac = ex_hmac ext\<rparr>\<rparr>)"

definition sr_mw :: "('s, 'p) server \<Rightarrow> ('s, 'p) middleware" where
  "sr_mw sv = ah_mw (sr_auth sv)"

subsection \<open>Endpoints\<close>

text \<open>Translates the room service's not-found into the resolver's.\<close>

definition resolveRoom ::
    "('s, 'p) server \<Rightarrow> string \<Rightarrow> gotime \<Rightarrow> ('s, 'p, 'm) world_scheme \<Rightarrow> ('s, 'p, 'm) world_scheme \<times> (resolve_error + string)" where
  "resolveRoom sv slug now s =
     (case on_pg (Rooms_BySlug (ex_pg (sr_ext sv)) (ex_lower (sr_ext sv)) slug now) s of
        (s1, Inl e) \<Rightarrow> (s1, Inl (if e = ErrNotFound then ErrRoomNotFound else ResolveFailed))
      | (s1, Inr room) \<Rightarrow> (s1, Inr (rm_ID room)))"

text \<open>A failed websocket request: \<^verbatim>\<open>Handler.fail\<close>.  An accepted one is taken over by the websocket library, which
  writes its own response head.\<close>

definition ws_fail :: "nat \<Rightarrow> string \<Rightarrow> http_response \<Rightarrow> http_response" where
  "ws_fail status code w =
     Write (JsonBody (ErrorBody code [])) (WriteHeader status (set_header ''Content-Type'' ''application/json; charset=utf-8'' w))"

definition switch_protocols :: "http_response \<Rightarrow> http_response" where
  "switch_protocols w = w\<lparr>rs_sent := Some (101, [], [])\<rparr>"

definition ws_upgraded :: "('s, 'p) server \<Rightarrow> srv_env \<Rightarrow> http_request \<Rightarrow> bool" where
  "ws_upgraded sv env r \<longleftrightarrow>
     CheckOrigin (ex_url_parse (sr_ext sv)) (ex_lower (sr_ext sv)) (ex_fold (sr_ext sv)) (sr_policy sv) r \<and> en_handshake env"

definition serve_ws :: "('s, 'p) server \<Rightarrow> srv_env \<Rightarrow> ('s, 'p) server_world handler" where
  "serve_ws sv env r w s =
     (let now = en_now (en_req env); slug = rq_query r ''room''
      in case AuthenticateWS (sr_mw sv) now r s of (s1, who) \<Rightarrow>
        (case (if isl who \<or> slug = [] then (s1, Inl ResolveFailed) else resolveRoom sv slug now s1) of (s2, res) \<Rightarrow>
           (case ServeHTTP (en_sched env) (encode (ex_jcompact (sr_ext sv))) who slug (\<lambda>_. res) (ws_upgraded sv env r)
                   (wd_clientIDs s2) (wd_hub s2) of (h, ids, result) \<Rightarrow>
              (s2\<lparr>wd_hub := h, wd_clientIDs := ids\<rparr>,
               Done (case result of
                       Fail status code \<Rightarrow> ws_fail status code w
                     | UpgradeFailed \<Rightarrow> en_upgrade_error env w
                     | _ \<Rightarrow> switch_protocols w)))))"

definition serve_inbox :: "('s, 'p) server \<Rightarrow> srv_env \<Rightarrow> ('s, 'p) server_world handler" where
  "serve_inbox sv env r w s =
     (case AuthenticateWS (sr_mw sv) (en_now (en_req env)) r s of (s1, who) \<Rightarrow>
        (case inbox_ServeHTTP who (ws_upgraded sv env r) (wd_connIDs s1) (wd_inbox s1) of (ib, ids, result) \<Rightarrow>
           (s1\<lparr>wd_inbox := ib, wd_connIDs := ids\<rparr>,
            Done (case result of
                    Unauthenticated \<Rightarrow> ws_fail 401 ''unauthenticated'' w
                  | InboxUpgradeFailed \<Rightarrow> en_upgrade_error env w
                  | _ \<Rightarrow> switch_protocols w))))"

definition serve_health :: "('s, 'p) server_world handler" where
  "serve_health r w s =
     (s, Done (http_JSON 200 (JObj [(''clients'', JInt (ClientCount (wd_hub s))), (''inboxes'', JInt (ConnectionCount (wd_inbox s))),
       (''status'', JStr ''ok'')]) w))"

definition ping_text :: "string option \<Rightarrow> string" where
  "ping_text p = (case p of None \<Rightarrow> ''ok'' | Some e \<Rightarrow> e)"

definition serve_ready :: "srv_env \<Rightarrow> ('s, 'p) server_world handler" where
  "serve_ready env r w s =
     (s, Done (http_JSON (if en_pg_ping env = None \<and> en_redis_ping env = None then 200 else 503)
       (JObj [(''postgres'', JStr (ping_text (en_pg_ping env))), (''redis'', JStr (ping_text (en_redis_ping env)))]) w))"

subsection \<open>Routes\<close>

datatype endpoint = EpRegister | EpLogin | EpLogout | EpWs | EpInbox | EpHealth | EpReady | Signed signed_endpoint
  and signed_endpoint = EpMe | EpLogoutAll | EpPassword | EpTicket | EpContacts | EpRoomCreate | EpRoomList | EpRoomGet | EpRoomDelete
    | EpInvite | EpInviteCancel | EpInviteDecline | EpTurn

text \<open>The \<^verbatim>\<open>Routes\<close> of each package, and the four the server adds itself.\<close>

definition auth_Routes :: "endpoint route list" where
  "auth_Routes =
     [(''POST'', [Lit ''api'', Lit ''auth'', Lit ''register''], EpRegister),
      (''POST'', [Lit ''api'', Lit ''auth'', Lit ''login''], EpLogin),
      (''POST'', [Lit ''api'', Lit ''auth'', Lit ''logout''], EpLogout),
      (''GET'', [Lit ''api'', Lit ''auth'', Lit ''me''], Signed EpMe),
      (''POST'', [Lit ''api'', Lit ''auth'', Lit ''logout-all''], Signed EpLogoutAll),
      (''POST'', [Lit ''api'', Lit ''auth'', Lit ''password''], Signed EpPassword),
      (''POST'', [Lit ''api'', Lit ''auth'', Lit ''ws-ticket''], Signed EpTicket),
      (''GET'', [Lit ''api'', Lit ''users''], Signed EpContacts)]"

definition rooms_Routes :: "endpoint route list" where
  "rooms_Routes =
     [(''POST'', [Lit ''api'', Lit ''rooms''], Signed EpRoomCreate),
      (''GET'', [Lit ''api'', Lit ''rooms''], Signed EpRoomList),
      (''GET'', [Lit ''api'', Lit ''rooms'', Wild], Signed EpRoomGet),
      (''DELETE'', [Lit ''api'', Lit ''rooms'', Wild], Signed EpRoomDelete)]"

definition invites_Routes :: "endpoint route list" where
  "invites_Routes =
     [(''POST'', [Lit ''api'', Lit ''rooms'', Wild, Lit ''invites''], Signed EpInvite),
      (''POST'', [Lit ''api'', Lit ''rooms'', Wild, Lit ''invites'', Lit ''cancel''], Signed EpInviteCancel),
      (''POST'', [Lit ''api'', Lit ''rooms'', Wild, Lit ''invites'', Lit ''decline''], Signed EpInviteDecline)]"

definition turn_Routes :: "endpoint route list" where
  "turn_Routes = [(''GET'', [Lit ''api'', Lit ''turn-credentials''], Signed EpTurn)]"

definition routes :: "endpoint route list" where
  "routes = auth_Routes @ rooms_Routes @ invites_Routes @ turn_Routes @
     [(''GET'', [Lit ''ws''], EpWs),
      (''GET'', [Lit ''ws'', Lit ''inbox''], EpInbox),
      (''GET'', [Lit ''healthz''], EpHealth),
      (''GET'', [Lit ''readyz''], EpReady)]"

lemmas route_defs = routes_def auth_Routes_def rooms_Routes_def invites_Routes_def turn_Routes_def

text \<open>The handlers wrapped in \<^verbatim>\<open>Require\<close>.\<close>

definition serve_signed :: "('s, 'p) server \<Rightarrow> srv_env \<Rightarrow> signed_endpoint \<Rightarrow> ('s, 'p) server_world auth_handler" where
  "serve_signed sv env ep = (let now = en_now (en_req env) in case ep of
     EpMe \<Rightarrow> handle_me (sr_auth sv) (en_req env)
   | EpLogoutAll \<Rightarrow> handle_logoutAll (sr_auth sv) (en_req env)
   | EpPassword \<Rightarrow> handle_changePassword (sr_auth sv) (en_req env)
   | EpTicket \<Rightarrow> handle_wsTicket (sr_auth sv) (en_req env)
   | EpContacts \<Rightarrow> handle_contacts (sr_auth sv) (en_req env)
   | EpRoomCreate \<Rightarrow> handle_create (sr_rooms sv) (en_rand env) now
   | EpRoomList \<Rightarrow> handle_list (sr_rooms sv) now
   | EpRoomGet \<Rightarrow> handle_bySlug (sr_rooms sv) now
   | EpRoomDelete \<Rightarrow> handle_delete (sr_rooms sv) now
   | EpInvite \<Rightarrow> invite_handle (sr_invites sv) (en_ib_sched env) TypeInvite now
   | EpInviteCancel \<Rightarrow> invite_handle (sr_invites sv) (en_ib_sched env) TypeInviteCancelled now
   | EpInviteDecline \<Rightarrow> invite_handle (sr_invites sv) (en_ib_sched env) TypeInviteDeclined now
   | EpTurn \<Rightarrow> handle_credentials (sr_turn sv) now)"

fun serve :: "('s, 'p) server \<Rightarrow> srv_env \<Rightarrow> endpoint \<Rightarrow> ('s, 'p) server_world handler" where
  "serve sv env EpRegister = handle_register (sr_auth sv) (en_req env)"
| "serve sv env EpLogin = handle_login (sr_auth sv) (en_req env)"
| "serve sv env EpLogout = handle_logout (sr_auth sv) (en_req env)"
| "serve sv env (Signed ep) = Require (sr_mw sv) (en_now (en_req env)) (serve_signed sv env ep)"
| "serve sv env EpWs = serve_ws sv env"
| "serve sv env EpInbox = serve_inbox sv env"
| "serve sv env EpHealth = serve_health"
| "serve sv env EpReady = serve_ready env"

definition deny :: "string \<Rightarrow> ('s, 'p) server_world handler" where
  "deny reason r w s = (s, Done (http_Error 403 ''forbidden_origin'' reason w))"

definition server_allows :: "('s, 'p) server \<Rightarrow> http_request \<Rightarrow> bool" where
  "server_allows sv r = origin_Allow (ex_url_parse (sr_ext sv)) (ex_lower (sr_ext sv)) (ex_fold (sr_ext sv)) (sr_policy sv) r"

definition server_mux :: "('s, 'p) server \<Rightarrow> srv_env \<Rightarrow> ('s, 'p) server_world handler" where
  "server_mux sv env = mux_serve routes (ex_location (sr_ext sv)) (serve sv env)"

definition server_handler :: "('s, 'p) server \<Rightarrow> srv_env \<Rightarrow> ('s, 'p) server_world handler" where
  "server_handler sv env = Recover (SecurityHeaders (CSRF (server_allows sv) deny (server_mux sv env)))"

subsection \<open>Start and stop\<close>

datatype run_error = InvalidConfig "config_error list" | ConnectFailed connect_error | MigrateFailed mig_error | RedisFailed redis_connect_error
  | BadOrigins origin_error | ListenFailed | ShutdownTimedOut | ShutdownFailed

text \<open>\<^verbatim>\<open>main\<close> and \<^verbatim>\<open>run\<close> up to the wiring: configuration, database, migrations, key-value server, origin policy, in
  this order, the first failure ending the process.\<close>

definition boot ::
    "('s, 'p) externals \<Rightarrow> (nat \<Rightarrow> nat \<Rightarrow> nat \<Rightarrow> nat) \<Rightarrow> (string \<Rightarrow> string) \<Rightarrow> 'p mig_db \<Rightarrow> (string \<times> string) list \<Rightarrow> env \<Rightarrow>
     pool_driver \<Rightarrow> redis_driver \<Rightarrow> 'p \<Rightarrow> 'p \<times> (run_error + Config \<times> ('s, 'p) server)" where
  "boot ext fl uu M fs env pdrv rdrv p =
     (case Load fl uu env of
        Inl errs \<Rightarrow> (p, Inl (InvalidConfig errs))
      | Inr cfg \<Rightarrow>
          (case Connect pdrv (cf_DatabaseURL cfg) of
             Inl e \<Rightarrow> (p, Inl (ConnectFailed e))
           | Inr pool \<Rightarrow>
               (case Migrate M fs p of
                  (p1, Some e) \<Rightarrow> (p1, Inl (MigrateFailed e))
                | (p1, None) \<Rightarrow>
                    (case connectRedis rdrv (cf_RedisURL cfg) of
                       Inl e \<Rightarrow> (p1, Inl (RedisFailed e))
                     | Inr client \<Rightarrow>
                         (case NewOriginPolicy (ex_url_parse ext) (ex_lower ext) (cf_AllowedOrigins cfg) of
                            Inl e \<Rightarrow> (p1, Inl (BadOrigins e))
                          | Inr policy \<Rightarrow> (p1, Inr (cfg, wire ext cfg policy)))))))"

text \<open>The end of \<^verbatim>\<open>run\<close>: the listener's error if that is what ended the wait (\<open>listen_failed\<close>); otherwise the inbox hub is
  shut down, and the signaling hub's goroutine, stopped by the signal, is waited for.  \<open>signalled\<close> tells whether the
  signal came; without it the signaling hub is still running and the wait times out.\<close>

definition shutdown :: "bool \<Rightarrow> bool \<Rightarrow> bool \<Rightarrow> bool \<Rightarrow> ('s, 'p) server_world \<Rightarrow> ('s, 'p) server_world \<times> run_error option" where
  "shutdown signalled listen_failed hub_in_time http_failed s =
     (if listen_failed then (s, Some ListenFailed)
      else let s1 = s\<lparr>wd_inbox := ib_Shutdown (wd_inbox s), wd_hub := (if signalled then hub_stop (wd_hub s) else wd_hub s)\<rparr>
           in if \<not> (signalled \<and> hub_in_time) then (s1, Some ShutdownTimedOut)
              else if http_failed then (s1, Some ShutdownFailed)
              else (s1, None))"

end
