(* ===== verification/ServerProps.thy ===== *)
theory ServerProps
  imports Server
begin

text \<open>Properties of the server as a whole: every request is answered, with the security headers; routing; the origin guard.\<close>

subsection \<open>Every request is answered\<close>

definition security_headers :: "(string \<times> string) list" where
  "security_headers = [(''X-Content-Type-Options'', ''nosniff''), (''X-Frame-Options'', ''DENY''), (''Referrer-Policy'', ''no-referrer''),
     (''Content-Security-Policy'', csp_value)]"

definition has_security :: "(string \<times> string) list \<Rightarrow> bool" where
  "has_security hs \<longleftrightarrow> (\<forall>(k, v)\<in>set security_headers. map_of hs k = Some v)"

definition secured :: "http_response \<Rightarrow> bool" where
  "secured w \<longleftrightarrow> rs_sent w = None \<and> has_security (rs_header w)"

text \<open>Answered: a status line went out, with the security headers unless the protocol was switched.\<close>

definition answered :: "http_response \<Rightarrow> bool" where
  "answered w \<longleftrightarrow> (\<exists>c hs cs. rs_sent w = Some (c, hs, cs) \<and> (c = 101 \<or> has_security hs))"

definition well_ended :: "http_outcome \<Rightarrow> bool" where
  "well_ended out \<longleftrightarrow> (case out of Done w \<Rightarrow> answered w | Panicked w \<Rightarrow> secured w)"

lemma well_ended_simps [simp]: "well_ended (Done w) = answered w" "well_ended (Panicked w) = secured w"
  by (simp_all add: well_ended_def)

lemma rs_header_set [simp]: "rs_header (set_header k v w) = AList.update k v (rs_header w)"
  by (simp add: set_header_def)

lemma has_security_update:
  "has_security hs \<Longrightarrow> k \<notin> fst ` set security_headers \<or> (k, v) \<in> set security_headers \<Longrightarrow> has_security (AList.update k v hs)"
proof -
  have d: "distinct (map fst security_headers)" by (simp add: security_headers_def)
  assume "has_security hs" "k \<notin> fst ` set security_headers \<or> (k, v) \<in> set security_headers"
  then show ?thesis
    unfolding has_security_def update_conv'
    using d by (fastforce simp: image_iff dest: eq_key_imp_eq_value)
qed

lemma secured_set_header:
  "secured w \<Longrightarrow> k \<notin> fst ` set security_headers \<or> (k, v) \<in> set security_headers \<Longrightarrow> secured (set_header k v w)"
  by (simp add: secured_def has_security_update)

lemma secured_headers [simp]:
  "secured w \<Longrightarrow> secured (set_header ''Content-Type'' v w)" "secured w \<Longrightarrow> secured (set_header ''Cache-Control'' v w)"
  "secured w \<Longrightarrow> secured (set_header ''Allow'' v w)" "secured w \<Longrightarrow> secured (set_header ''Location'' v w)"
  "secured w \<Longrightarrow> secured (set_header ''Retry-After'' v w)" "secured w \<Longrightarrow> secured (set_header ''X-Content-Type-Options'' ''nosniff'' w)"
  by (rule secured_set_header; simp add: security_headers_def)+

lemma secured_cookie [simp]: "secured w \<Longrightarrow> secured (http_SetCookie c w)"
  by (simp add: secured_def http_SetCookie_def)

lemma answered_WriteHeader [simp]: "secured w \<Longrightarrow> answered (WriteHeader c w)"
  by (auto simp: secured_def answered_def)

lemma answered_Write [simp]: "answered w \<Longrightarrow> answered (Write b w)"
  by (auto simp: answered_def)

lemma answered_helpers [simp]:
  assumes "secured w"
  shows "answered (plain_error c t w)" "answered (http_JSON c v w)" "answered (http_Error c code m w)" "answered (redirect u r w)"
    "answered (ws_fail c code w)" "answered (switch_protocols w)" "answered (internal_error w)" "answered (invalid_body w)"
    "answered (unauthenticated_error w)" "answered (room_not_found w)" "answered (invalid_user m w)"
proof -
  show p: "answered (plain_error c t w)" for c t using assms by (simp add: plain_error_def)
  show j: "answered (http_JSON c v w)" for c v using assms p by (simp add: http_JSON_def)
  show e: "answered (http_Error c code m w)" for c code m using j by (simp add: http_Error_def)
  show "answered (redirect u r w)" using assms by (simp add: redirect_def Let_def)
  show "answered (ws_fail c code w)" using assms by (simp add: ws_fail_def)
  show "answered (switch_protocols w)" by (simp add: switch_protocols_def answered_def)
  show "answered (internal_error w)" "answered (invalid_body w)" "answered (unauthenticated_error w)" "answered (room_not_found w)"
    "answered (invalid_user m w)"
    using e by (simp_all add: internal_error_def invalid_body_def unauthenticated_error_def room_not_found_def invalid_user_def)
qed

lemma secured_helpers [simp]:
  assumes "secured w"
  shows "secured (ClearCookie mw w)" "secured (SetCookie mw now t e w)" "secured (RefreshCookie mw now r i w)" "secured (retry_after d w)"
  using assms by (simp_all add: ClearCookie_def SetCookie_def RefreshCookie_def retry_after_def Let_def)

lemma writeAuthError_ends [simp]: "secured w \<Longrightarrow> well_ended (writeAuthError e w)"
  by (simp add: writeAuthError_def split: auth_error.splits user_error.splits)

lemma writeSession_ends [simp]: "secured w \<Longrightarrow> answered (writeSession h now mode u t sess c w)"
  by (simp add: writeSession_def)

text \<open>Each endpoint.\<close>

lemma auth_endpoints_end:
  assumes "secured w"
  shows "well_ended (snd (handle_register h env r w s))" "well_ended (snd (handle_login h env r w s))"
    "well_ended (snd (handle_logout h env r w s))" "well_ended (snd (handle_me h env i r w s))"
    "well_ended (snd (handle_logoutAll h env i r w s))" "well_ended (snd (handle_changePassword h env i r w s))"
    "well_ended (snd (handle_wsTicket h env i r w s))" "well_ended (snd (handle_contacts h env i r w s))"
  using assms
  by (simp_all add: handle_register_def handle_login_def handle_logout_def handle_me_def handle_logoutAll_def
      handle_changePassword_def handle_wsTicket_def handle_contacts_def Let_def split: option.splits prod.splits sum.splits)

lemma room_endpoints_end:
  assumes "secured w"
  shows "well_ended (snd (handle_create h rand now i r w s))" "well_ended (snd (handle_list h now i r w s))"
    "well_ended (snd (handle_delete h now i r w s))" "well_ended (snd (handle_bySlug h now i r w s))"
  using assms
  by (simp_all add: handle_create_def handle_list_def handle_delete_def handle_bySlug_def split: option.splits prod.splits sum.splits)

lemma invite_ends: "secured w \<Longrightarrow> well_ended (snd (invite_handle h S ty now i r w s))"
  by (simp add: invite_handle_def invite_room_def invite_deliver_def Let_def split: option.splits prod.splits sum.splits)

lemma turn_ends: "secured w \<Longrightarrow> well_ended (snd (handle_credentials h now i r w s))"
  by (simp add: handle_credentials_def split: option.splits)

lemma signed_ends: "secured w \<Longrightarrow> well_ended (snd (serve_signed sv env ep i r w s))"
  using auth_endpoints_end room_endpoints_end invite_ends turn_ends
  by (cases ep) (simp_all add: serve_signed_def Let_def)

text \<open>What the websocket library promises of a refused handshake: it answers through the response writer, keeping the headers
  already set, those that describe content apart; the sniffing guard is set to the value it already has.\<close>

definition content_headers :: "string list" where
  "content_headers = [''Content-Type'', ''Content-Length'', ''Content-Encoding'', ''Etag'', ''Last-Modified'', ''Cache-Control'']"

definition refuses_properly :: "srv_env \<Rightarrow> bool" where
  "refuses_properly env \<longleftrightarrow> (\<forall>w. rs_sent w = None \<longrightarrow>
     (\<exists>c hs. rs_sent (en_upgrade_error env w) = Some (c, hs, rs_cookies w) \<and>
        (\<forall>k v. map_of (rs_header w) k = Some v \<longrightarrow> k \<notin> set content_headers \<longrightarrow> (k = ''X-Content-Type-Options'' \<longrightarrow> v = ''nosniff'') \<longrightarrow>
           map_of hs k = Some v)))"

lemma upgrade_error_ends: "refuses_properly env \<Longrightarrow> secured w \<Longrightarrow> answered (en_upgrade_error env w)"
proof -
  assume r: "refuses_properly env" and w: "secured w"
  then obtain c hs where "rs_sent (en_upgrade_error env w) = Some (c, hs, rs_cookies w)"
    and k: "\<forall>k v. map_of (rs_header w) k = Some v \<longrightarrow> k \<notin> set content_headers \<longrightarrow> (k = ''X-Content-Type-Options'' \<longrightarrow> v = ''nosniff'') \<longrightarrow>
           map_of hs k = Some v"
    unfolding refuses_properly_def secured_def by blast
  moreover have "has_security hs"
    using w k unfolding secured_def by (simp add: has_security_def security_headers_def content_headers_def)
  ultimately show ?thesis by (auto simp: answered_def)
qed

lemma serve_ends:
  assumes "secured w" "refuses_properly env"
  shows "well_ended (snd (serve sv env ep r w s))"
proof (cases ep)
  case EpWs
  then show ?thesis using assms upgrade_error_ends
    by (simp add: serve_ws_def Let_def split: prod.splits ws_result.splits)
next
  case EpInbox
  then show ?thesis using assms upgrade_error_ends by (simp add: serve_inbox_def split: prod.splits inbox_result.splits)
next
  case (Signed se)
  then show ?thesis using assms by (simp add: Require_def signed_ends split: prod.splits sum.splits)
qed (use assms auth_endpoints_end in \<open>simp_all add: serve_health_def serve_ready_def\<close>)

lemma mux_serve_cases:
  obtains (redirected) p where "mux_serve rs loc srv r w s = (s, Done (redirect (loc r p) r w))"
  | (missing) "mux_serve rs loc srv r w s = (s, Done (plain_error 404 ''404 page not found'' w))"
  | (wrong_method) ms where "mux_serve rs loc srv r w s = (s, Done (plain_error 405 ''Method Not Allowed'' (set_header ''Allow'' ms w)))"
  | (served) e slug where "mux_serve rs loc srv r w s = srv e (r\<lparr>rq_slug := slug\<rparr>) w s"
      "\<exists>vs. match_route (rq_method r) (path_segs (rq_path r)) rs = Some (e, vs) \<and> slug = (case vs of [] \<Rightarrow> [] | v # _ \<Rightarrow> v)"
proof -
  define path where "path = (if rq_method r = ''CONNECT'' then rq_path r else cleanPath (rq_path r))"
  note m = mux_serve_def [of rs loc srv r w s, folded path_def, unfolded Let_def]
  show ?thesis
  proof (cases "path = rq_path r")
    case False
    then show ?thesis using redirected m by simp
  next
    case True
    show ?thesis
    proof (cases "match_route (rq_method r) (path_segs (rq_path r)) rs")
      case None
      then show ?thesis using True missing wrong_method m
        by (cases "matchingMethods (path_segs (rq_path r)) rs") auto
    next
      case (Some evs)
      then show ?thesis using True m served by (cases evs) auto
    qed
  qed
qed

lemma mux_ends:
  assumes "secured w" "refuses_properly env"
  shows "well_ended (snd (server_mux sv env r w s))"
  unfolding server_mux_def
  by (cases rule: mux_serve_cases [of routes "ex_location (sr_ext sv)" "serve sv env" r w s]) (use assms serve_ends in auto)

text \<open>The response the inner handlers start from.\<close>

definition base_response :: http_response where
  "base_response = no_response\<lparr>rs_header := security_headers\<rparr>"

lemma base_secured: "secured base_response"
  by (simp add: base_response_def secured_def no_response_def has_security_def security_headers_def)

lemma server_handler_unfold: "server_handler sv env r no_response s = Recover (CSRF (server_allows sv) deny (server_mux sv env)) r base_response s"
proof -
  have "set_header ''Content-Security-Policy'' csp_value (set_header ''Referrer-Policy'' ''no-referrer''
      (set_header ''X-Frame-Options'' ''DENY'' (set_header ''X-Content-Type-Options'' ''nosniff'' no_response))) = base_response"
    by (simp add: base_response_def set_header_def no_response_def security_headers_def)
  then show ?thesis by (simp add: server_handler_def Recover_def SecurityHeaders_def)
qed

end
