(* ===== verification/ServerSystem.thy ===== *)
theory ServerSystem
  imports ServerProps AuthProps InviteProps SignalingProps
begin

text \<open>
  The running server as one transition system.  An endpoint only touches the world through the operations of the
  stores, so whatever those operations keep, the endpoint keeps: this is proved once, in the locale \<open>request_ops\<close>,
  and used for the database's invariant, for the room directory, for the sessions and for what does not change at all.
\<close>

subsection \<open>Following a program step by step\<close>

lemma step_bind: "I (fst m) \<Longrightarrow> (\<And>s r. I s \<Longrightarrow> m = (s, r) \<Longrightarrow> I (fst (f s r))) \<Longrightarrow> I (fst (case m of (s, r) \<Rightarrow> f s r))"
  by (cases m) auto

lemma step_sum:
  "(\<And>e. x = Inl e \<Longrightarrow> I (fst (f e))) \<Longrightarrow> (\<And>v. x = Inr v \<Longrightarrow> I (fst (g v))) \<Longrightarrow> I (fst (case x of Inl e \<Rightarrow> f e | Inr v \<Rightarrow> g v))"
  by (cases x) auto

lemma step_option:
  "(x = None \<Longrightarrow> I (fst a)) \<Longrightarrow> (\<And>v. x = Some v \<Longrightarrow> I (fst (g v))) \<Longrightarrow> I (fst (case x of None \<Rightarrow> a | Some v \<Rightarrow> g v))"
  by (cases x) auto

lemma step_if: "(b \<Longrightarrow> I (fst x)) \<Longrightarrow> (\<not> b \<Longrightarrow> I (fst y)) \<Longrightarrow> I (fst (if b then x else y))"
  by simp

lemma step_bool: "(b \<Longrightarrow> I (fst x)) \<Longrightarrow> (\<not> b \<Longrightarrow> I (fst y)) \<Longrightarrow> I (fst (case b of True \<Rightarrow> x | False \<Rightarrow> y))"
  by (cases b) auto

lemma step_prod: "(\<And>a b. x = (a, b) \<Longrightarrow> I (fst (f a b))) \<Longrightarrow> I (fst (case x of (a, b) \<Rightarrow> f a b))"
  by (cases x) auto

lemma step_pair: "I s \<Longrightarrow> I (fst (s, r))"
  by simp

text \<open>\<open>okid\<close> holds of the user ids the store hands out.\<close>

locale request_ops =
  fixes svc :: "('s, 'p) service" and now :: gotime and I :: "('s, 'p, 'm) world_scheme \<Rightarrow> bool" and okid :: "string \<Rightarrow> bool"
  assumes allow: "I w \<Longrightarrow> I (fst (on_redis (Allow (sv_limiter svc) key limit now) w))"
    and reset: "I w \<Longrightarrow> I (fst (on_redis (Reset (sv_limiter svc) key now) w))"
    and create: "I w \<Longrightarrow> okid u \<Longrightarrow> I (fst (on_redis (Create (sv_sessions svc) tok u ip ua now) w))"
    and get: "I w \<Longrightarrow> I (fst (on_redis (Get (sv_sessions svc) token now) w))"
    and revoke: "I w \<Longrightarrow> I (fst (on_redis (Revoke (sv_sessions svc) token now) w))"
    and revoke_all: "I w \<Longrightarrow> I (fst (on_redis (RevokeAllForUser (sv_sessions svc) u token now) w))"
    and issue: "I w \<Longrightarrow> I (fst (on_redis (IssueWSTicket (sv_sessions svc) tok u now) w))"
    and redeem: "I w \<Longrightarrow> I (fst (on_redis (RedeemWSTicket (sv_sessions svc) ticket now) w))"
    and new_user: "I w \<Longrightarrow> I (fst (on_pg (UserStore_Create (sv_users svc) email name h now) w))"
    and new_user_id: "I w \<Longrightarrow> on_pg (UserStore_Create (sv_users svc) email name h now) w = (w', Inr user) \<Longrightarrow> okid (usr_ID user)"
    and by_email: "I w \<Longrightarrow> I (fst (on_pg (ByEmailWithCredential (sv_users svc) email now) w))"
    and by_email_id: "I w \<Longrightarrow> on_pg (ByEmailWithCredential (sv_users svc) email now) w = (w', Inr (user, h)) \<Longrightarrow> okid (usr_ID user)"
    and by_id: "I w \<Longrightarrow> I (fst (on_pg (ByID (sv_users svc) u now) w))"
    and contacts: "I w \<Longrightarrow> I (fst (on_pg (Contacts (sv_users svc) u n now) w))"
    and credential: "I w \<Longrightarrow> I (fst (on_pg (CredentialByUserID (sv_users svc) u now) w))"
    and update: "I w \<Longrightarrow> I (fst (on_pg (UpdatePassword (sv_users svc) u h now) w))"
    and event: "I w \<Longrightarrow> I (fst (on_pg (RecordEvent (sv_users svc) parse_ip e now) w))"
    and room_get: "I w \<Longrightarrow> I (fst (on_pg (Rooms_BySlug (sv_users svc) ut slug now) w))"
    and room_list: "I w \<Longrightarrow> I (fst (on_pg (Rooms_List (sv_users svc) now) w))"
begin

lemmas steps = step_pair [where I = I] step_bind [where I = I] step_sum [where I = I] step_option [where I = I] step_if [where I = I]
  step_bool [where I = I] step_prod [where I = I]

lemmas leaves = allow reset create get revoke revoke_all issue redeem new_user by_email by_id contacts credential update room_get room_list

lemma check_keeps: "I w \<Longrightarrow> I (fst (check svc key limit now w))"
  unfolding check_def by (intro steps leaves)

lemma record_keeps: "I w \<Longrightarrow> I (record_event svc e now w)"
  unfolding record_event_def by (rule event)

lemma session_keeps: "I w \<Longrightarrow> okid (usr_ID u) \<Longrightarrow> en_now env = now \<Longrightarrow> I (fst (create_session svc env u c w))"
  unfolding create_session_def by (simp add: create)

lemmas parts = leaves check_keeps record_keeps session_keeps

lemma Register_keeps: "I w \<Longrightarrow> en_now env = now \<Longrightarrow> I (fst (Register svc env c w))"
  unfolding Register_def Let_def by (simp only:, intro steps parts) (auto dest: new_user_id)

lemma refuse_keeps: "I w \<Longrightarrow> en_now env = now \<Longrightarrow> I (fst (refuse_login svc env c u email ev w))"
  unfolding refuse_login_def by (simp only:, intro steps parts)

lemma upgrade_keeps: "I w \<Longrightarrow> en_now env = now \<Longrightarrow> I (fst (upgrade_hash svc env user pw w))"
  unfolding upgrade_hash_def by (simp only:, intro steps parts)

lemma finish_keeps: "I w \<Longrightarrow> en_now env = now \<Longrightarrow> okid (usr_ID user) \<Longrightarrow> I (fst (finish_login svc env c email user w))"
  unfolding finish_login_def Let_def by (simp only:, intro steps parts)

lemma verify_keeps: "I w \<Longrightarrow> en_now env = now \<Longrightarrow> okid (usr_ID user) \<Longrightarrow> I (fst (verify_login svc env c email user h w))"
  unfolding verify_login_def by (intro steps parts finish_keeps upgrade_keeps) (simp_all add: record_keeps)

lemma Login_keeps: "I w \<Longrightarrow> en_now env = now \<Longrightarrow> I (fst (Login svc env c w))"
  unfolding Login_def Let_def by (simp only:, intro steps parts refuse_keeps verify_keeps) (auto dest: by_email_id)

lemma Logout_keeps: "I w \<Longrightarrow> I (fst (Logout svc token e now w))"
  unfolding Logout_def by (intro steps parts)

lemma LogoutAll_keeps: "I w \<Longrightarrow> I (fst (LogoutAll svc u e now w))"
  unfolding LogoutAll_def by (intro steps parts)

lemma replace_keeps: "I w \<Longrightarrow> en_now env = now \<Longrightarrow> I (fst (replace_password svc env u pw token e w))"
  unfolding replace_password_def by (simp only:, intro steps parts)

lemma ChangePassword_keeps: "I w \<Longrightarrow> en_now env = now \<Longrightarrow> I (fst (ChangePassword svc env u pw new token e w))"
  unfolding ChangePassword_def Let_def by (simp only:, intro steps parts replace_keeps)

lemma identify_keeps: "I w \<Longrightarrow> mw_svc mw = svc \<Longrightarrow> I (fst (identify mw now r w))"
  unfolding identify_def Let_def by (simp only:, intro steps parts)

lemma AuthenticateWS_keeps: "I w \<Longrightarrow> mw_svc mw = svc \<Longrightarrow> I (fst (AuthenticateWS mw now r w))"
  unfolding AuthenticateWS_def Let_def by (simp only:, intro steps parts identify_keeps)

text \<open>The endpoints of the auth and room packages, those that create and delete rooms apart.\<close>

lemma auth_endpoints_keep:
  assumes "I w" "ah_svc h = svc" "en_now env = now"
  shows "I (fst (handle_register h env r rs w))" "I (fst (handle_login h env r rs w))" "I (fst (handle_logout h env r rs w))"
    "I (fst (handle_me h env i r rs w))" "I (fst (handle_logoutAll h env i r rs w))" "I (fst (handle_changePassword h env i r rs w))"
    "I (fst (handle_wsTicket h env i r rs w))" "I (fst (handle_contacts h env i r rs w))"
  unfolding handle_register_def handle_login_def handle_logout_def handle_me_def handle_logoutAll_def handle_changePassword_def
    handle_wsTicket_def handle_contacts_def assms(2,3) Let_def
  by (intro steps parts assms Register_keeps Login_keeps Logout_keeps LogoutAll_keeps ChangePassword_keeps; assumption?)+

lemma room_reads_keep:
  assumes "I w" "rh_pg h = sv_users svc"
  shows "I (fst (handle_list h now i r rs w))" "I (fst (handle_bySlug h now i r rs w))"
  unfolding handle_list_def handle_bySlug_def assms(2) by (intro steps parts assms(1); assumption?)+

lemma turn_keeps: "I w \<Longrightarrow> I (fst (handle_credentials h now i r rs w))"
  unfolding handle_credentials_def by (intro steps)

end

subsection \<open>The whole server\<close>

text \<open>All handlers of a wired server work on the same stores.\<close>

definition wired :: "('s, 'p) server \<Rightarrow> bool" where
  "wired sv \<longleftrightarrow> (let svc = mw_svc (sr_mw sv) in
     ah_svc (sr_auth sv) = svc \<and> rh_pg (sr_rooms sv) = sv_users svc \<and> iv_rooms (sr_invites sv) = sv_users svc \<and>
     iv_users (sr_invites sv) = sv_users svc \<and> iv_limiter (sr_invites sv) = sv_limiter svc \<and> ex_pg (sr_ext sv) = sv_users svc)"

lemma wire_wired: "wired (wire ext cfg policy)"
  by (simp add: wired_def wire_def Let_def sr_mw_def ah_svc_def NewMiddleware_def)

lemma wire_sel:
  "sv_users (mw_svc (sr_mw (wire ext cfg policy))) = ex_pg ext" "sv_limiter (mw_svc (sr_mw (wire ext cfg policy))) = ex_redis ext"
  "rdb (sv_sessions (mw_svc (sr_mw (wire ext cfg policy)))) = ex_redis ext" "sr_ext (wire ext cfg policy) = ext"
  by (simp_all add: wire_def Let_def sr_mw_def NewMiddleware_def)

locale server_ops =
  request_ops "mw_svc (sr_mw sv)" "en_now (en_req env)" I okid
  for sv :: "('s, 'p) server" and env :: srv_env and I :: "('s, 'p) server_world \<Rightarrow> bool" and okid :: "string \<Rightarrow> bool" +
  assumes wired: "wired sv"
    and touch: "I w \<Longrightarrow> identify (sr_mw sv) (en_now (en_req env)) r w = (w1, Inr i) \<Longrightarrow>
      I (fst (on_redis (Touch (sv_sessions (mw_svc (sr_mw sv))) (id_Session i) (en_now (en_req env))) w1))"
    and room_create: "I w \<Longrightarrow> I (fst (on_pg (Rooms_Create (sv_users (mw_svc (sr_mw sv))) rand u name (en_now (en_req env))) w))"
    and room_delete: "I w \<Longrightarrow> I (fst (on_pg (Rooms_Delete (sv_users (mw_svc (sr_mw sv))) ut slug (en_now (en_req env))) w))"
    and inbox_update: "I w \<Longrightarrow> I (w\<lparr>wd_inbox := ib, wd_connIDs := ids\<rparr>)" "I w \<Longrightarrow> I (w\<lparr>wd_inbox := ib\<rparr>)"
    and hub_update: "I w \<Longrightarrow> I (w\<lparr>wd_hub := hb, wd_clientIDs := ids\<rparr>)"
begin

lemma wiredD:
  "ah_svc (sr_auth sv) = mw_svc (sr_mw sv)" "rh_pg (sr_rooms sv) = sv_users (mw_svc (sr_mw sv))"
  "iv_rooms (sr_invites sv) = sv_users (mw_svc (sr_mw sv))" "iv_users (sr_invites sv) = sv_users (mw_svc (sr_mw sv))"
  "iv_limiter (sr_invites sv) = sv_limiter (mw_svc (sr_mw sv))" "ex_pg (sr_ext sv) = sv_users (mw_svc (sr_mw sv))"
  using wired by (simp_all add: wired_def Let_def)

lemma room_writes_keep:
  assumes "I s"
  shows "I (fst (handle_create (sr_rooms sv) rand (en_now (en_req env)) i r w s))" "I (fst (handle_delete (sr_rooms sv) (en_now (en_req env)) i r w s))"
  unfolding handle_create_def handle_delete_def wiredD by (intro steps room_create room_delete assms; assumption?)+

lemma invite_keeps: "I s \<Longrightarrow> I (fst (invite_handle (sr_invites sv) S ty (en_now (en_req env)) i r w s))"
  unfolding invite_handle_def invite_room_def invite_deliver_def wiredD Let_def
  by (intro steps parts inbox_update; assumption?)

lemma signed_keeps: "I s \<Longrightarrow> I (fst (serve_signed sv env ep i r w s))"
  by (cases ep) (simp_all add: serve_signed_def Let_def auth_endpoints_keep wiredD room_reads_keep room_writes_keep invite_keeps turn_keeps)

lemma resolve_keeps: "I s \<Longrightarrow> I (fst (resolveRoom sv slug (en_now (en_req env)) s))"
  unfolding resolveRoom_def wiredD by (intro steps parts; assumption?)

lemma ws_keeps: "I s \<Longrightarrow> I (fst (serve_ws sv env r w s))"
  unfolding serve_ws_def Let_def
  by (intro steps AuthenticateWS_keeps resolve_keeps hub_update refl; assumption?)

lemma inbox_keeps: "I s \<Longrightarrow> I (fst (serve_inbox sv env r w s))"
  unfolding serve_inbox_def by (intro steps AuthenticateWS_keeps inbox_update refl; assumption?)

lemma Require_keeps: "I s \<Longrightarrow> I (fst (Require (sr_mw sv) (en_now (en_req env)) (serve_signed sv env ep) r w s))"
  unfolding Require_def by (intro steps identify_keeps refl signed_keeps touch; simp)

lemma serve_keeps: "I s \<Longrightarrow> I (fst (serve sv env ep r w s))"
  by (cases ep) (simp_all add: auth_endpoints_keep wiredD Require_keeps ws_keeps inbox_keeps serve_health_def serve_ready_def)

lemma mux_keeps: "I s \<Longrightarrow> I (fst (server_mux sv env r w s))"
  unfolding server_mux_def
  by (cases rule: mux_serve_cases [of routes "ex_location (sr_ext sv)" "serve sv env" r w s]) (auto simp: serve_keeps)

lemma handler_keeps: "I s \<Longrightarrow> I (fst (server_handler sv env r w s))"
proof -
  assume "I s"
  then have "I (fst (CSRF (server_allows sv) deny (server_mux sv env) r w' s))" for w'
    by (simp add: CSRF_def deny_def mux_keeps)
  then show ?thesis
    by (simp add: server_handler_def Recover_def SecurityHeaders_def split: prod.splits http_outcome.splits) (metis fst_conv)
qed

end

subsection \<open>What the instances say\<close>

lemma on_parts [simp]:
  "w_pg (fst (on_redis f w)) = w_pg w" "w_redis (fst (on_redis f w)) = fst (f (w_redis w))"
  "w_redis (fst (on_pg g w)) = w_redis w" "w_pg (fst (on_pg g w)) = fst (g (w_pg w))"
  by (simp_all add: on_redis_def on_pg_def split: prod.splits)

lemma on_hubs [simp]:
  "wd_inbox (fst (on_redis f w)) = wd_inbox w" "wd_inbox (fst (on_pg g w)) = wd_inbox w"
  "wd_hub (fst (on_redis f w)) = wd_hub w" "wd_hub (fst (on_pg g w)) = wd_hub w"
  for w :: "('s, 'p, 'm) server_world_scheme"
  by (simp_all add: on_redis_def on_pg_def split: prod.splits)

text \<open>Endpoints that are not about connections leave both hubs alone.\<close>

interpretation hubs: request_ops svc now "\<lambda>w :: ('s, 'p) server_world. wd_hub w = h0 \<and> wd_inbox w = ib0" "\<lambda>_. True"
  for svc :: "('s, 'p) service" and now h0 ib0
  by unfold_locales simp_all

text \<open>Every request moves the database along the operations of the stores.\<close>

lemma fst_step: "(\<And>s' r. f s = (s', r) \<Longrightarrow> db_step P s s') \<Longrightarrow> db_reach P tables s \<Longrightarrow> db_reach P tables (fst (f s))"
  by (cases "f s") (auto intro: db_reach.step)

lemma identify_calls:
  "identify mw now r w = (w1, Inr i) \<Longrightarrow>
   Get (sv_sessions (mw_svc mw)) (tokenFrom mw r) now (w_redis w) = (w_redis w1, Inr (id_Session i)) \<and>
   (\<exists>u. ByID (sv_users (mw_svc mw)) u now (w_pg w) = (w_pg w1, Inr (id_User i)))"
  by (auto simp: identify_def Let_def split: if_splits prod.splits sum.splits dest!: on_redis_parts on_pg_parts)

lemma fst_steps: "(\<And>s' r. f s = (s', r) \<Longrightarrow> db_step P s s') \<Longrightarrow> rtranclp (db_step P) p0 s \<Longrightarrow> rtranclp (db_step P) p0 (fst (f s))"
  by (cases "f s") (auto intro: rtranclp.rtrancl_into_rtrancl)

interpretation database: server_ops "wire ext cfg policy" env "\<lambda>w :: ('s, 'p) server_world. rtranclp (db_step (ex_pg ext)) p0 (w_pg w)" "\<lambda>_. True"
  for ext :: "('s, 'p) externals" and cfg policy env and p0 :: 'p
proof (unfold_locales, goal_cases)
  case 20
  then show ?case by (rule wire_wired)
next
  case (21 w r w1 i)
  from identify_calls [OF 21(2)] show ?case
    using rtranclp.rtrancl_into_rtrancl [OF 21(1) [unfolded wire_sel]] db_step.by_id by (fastforce simp: wire_sel)
qed (auto simp: wire_sel intro!: fst_steps intro: db_step.intros)

text \<open>The sessions: every call on the key-value server is a step of the session store or leaves its keys alone.\<close>

definition sess_now :: "('s, 'p) service \<Rightarrow> ('s \<Rightarrow> db) \<Rightarrow> ('p \<Rightarrow> pgdb) \<Rightarrow> gotime \<Rightarrow> ('s, 'p, 'm) world_scheme \<Rightarrow> bool" where
  "sess_now svc entries tables t w \<longleftrightarrow>
     sess_reach (sv_sessions svc) entries (t, w_redis w) \<and> db_reach (sv_users svc) tables (w_pg w)"

lemma ticket_key_apart [simp]: "sessionKeyPrefix @ i \<noteq> wsTicketPrefix @ k" "userIndexPrefix @ u \<noteq> wsTicketPrefix @ k"
  by (simp_all add: prefix_defs)

context auth_world
begin

lemma sess_now_redis:
  assumes "sess_now svc entries tables t w" "\<And>s' r. f (w_redis w) = (s', r) \<Longrightarrow> sess_step (sv_sessions svc) entries (t, w_redis w) (t, s')"
  shows "sess_now svc entries tables t (fst (on_redis f w))"
  using assms(1) sess_reach.more [OF _ assms(2) [OF prod.collapse [symmetric]]] by (auto simp: sess_now_def)

lemma sess_now_pg:
  assumes "sess_now svc entries tables t w" "\<And>s' r. f (w_pg w) = (s', r) \<Longrightarrow> db_step (sv_users svc) (w_pg w) s'"
  shows "sess_now svc entries tables t (fst (on_pg f w))"
  using assms(1) db_reach.step [OF _ assms(2) [OF prod.collapse [symmetric]]] by (auto simp: sess_now_def)

lemma off_session_step:
  "agree_off {k} (Redis.live t (entries s)) (Redis.live t (entries s')) \<Longrightarrow> (\<And>i. sessionKeyPrefix @ i \<noteq> k) \<Longrightarrow> (\<And>u. userIndexPrefix @ u \<noteq> k) \<Longrightarrow>
   sess_step (sv_sessions svc) entries (t, s) (t, s')"
  by (rule sess_step.other) (auto simp: agree_off_def)

lemma limiter_step: "Allow (sv_limiter svc) key limit t s = (s', r) \<Longrightarrow> sess_step (sv_sessions svc) entries (t, s) (t, s')"
  using allow_agree [of key limit t s s' r] limiter_shared off_session_step [of "rl_key key" t s s'] by auto

lemma reset_step: "Reset (sv_limiter svc) key t s = (s', r) \<Longrightarrow> sess_step (sv_sessions svc) entries (t, s) (t, s')"
proof -
  assume "Reset (sv_limiter svc) key t s = (s', r)"
  then obtain y where "rd_exec (rdb (sv_sessions svc)) [CDel [rl_key key]] t s = (s', y)"
    using limiter_shared by (auto simp: Reset_def split: prod.splits option.splits)
  from exec_agree [OF this] show ?thesis by (intro off_session_step [of "rl_key key"]) (auto simp: cmds_keys_def)
qed

lemma issue_step: "IssueWSTicket (sv_sessions svc) tok u t s = (s', r) \<Longrightarrow> sess_step (sv_sessions svc) entries (t, s) (t, s')"
proof (cases "newToken tok")
  case (Inr ticket)
  let ?k = "wsTicketPrefix @ hashToken (sv_sessions svc) ticket"
  assume "IssueWSTicket (sv_sessions svc) tok u t s = (s', r)"
  then obtain y where "rd_exec (rdb (sv_sessions svc)) [CSet ?k u (ticketTTL (sv_sessions svc))] t s = (s', y)"
    using Inr by (auto simp: IssueWSTicket_def split: prod.splits option.splits)
  from exec_agree [OF this] show ?thesis by (intro off_session_step [of ?k]) (auto simp: cmds_keys_def)
qed (auto simp: IssueWSTicket_def intro: sess_step.other)

lemma redeem_step: "RedeemWSTicket (sv_sessions svc) ticket t s = (s', r) \<Longrightarrow> sess_step (sv_sessions svc) entries (t, s) (t, s')"
proof -
  let ?k = "wsTicketPrefix @ hashToken (sv_sessions svc) ticket"
  assume "RedeemWSTicket (sv_sessions svc) ticket t s = (s', r)"
  then obtain x where x: "rd_getdel (rdb (sv_sessions svc)) ?k t s = (s', x)"
    by (auto simp: RedeemWSTicket_def split: prod.splits sum.splits option.splits)
  have "agree_off {?k} (Redis.live t (entries s)) (Redis.live t (entries s'))"
    using x getdel_ok [of ?k t s s'] getdel_err [of ?k t s s'] by (cases x) (auto simp: agree_off_def)
  then show ?thesis by (rule off_session_step) auto
qed

lemma new_user_ascii:
  assumes "UserStore_Create (sv_users svc) email name h t s = (s', Inr user)"
  shows "is_ascii (usr_ID user)"
  using assms by (cases rule: create_spec) (auto simp: new_account_def dest: uuid_ascii)

lemma by_email_ascii:
  assumes "db_reach (sv_users svc) tables s" "ByEmailWithCredential (sv_users svc) email t s = (s', Inr (user, h))"
  shows "is_ascii (usr_ID user)"
proof -
  obtain i u where "(i, u, h) \<in> accounts (tables s)" "user = scan_user i u" using ByEmail_spec(3) [OF assms(2) refl] by blast
  moreover have "uuid_in i = Some i" if "t_users (tables s) i = Some u" for i u
    using reach_ok [OF assms(1)] that by (auto simp: accounts_ok_def schema_ok_def user_rows_ok_def)
  ultimately show ?thesis using uuid_ascii by (fastforce simp: accounts_def)
qed

lemma session_request: "request_ops svc t (sess_now svc entries tables t) is_ascii"
proof (unfold_locales, goal_cases)
  case (10 w email name h w' user)
  then show ?case using new_user_ascii on_pg_parts [OF 10(2)] by blast
next
  case (12 w email w' user h)
  then show ?case using by_email_ascii on_pg_parts [OF 12(2)] by (metis sess_now_def)
qed (auto intro!: sess_now_redis sess_now_pg intro: sess_step.intros db_step.intros limiter_step reset_step issue_step redeem_step)

lemma session_server:
  assumes "mw_svc (sr_mw sv) = svc" "wired sv"
  shows "server_ops sv env (sess_now svc entries tables (en_now (en_req env))) is_ascii"
proof (intro server_ops.intro server_ops_axioms.intro, goal_cases)
  case (3 w r w1 i)
  let ?t = "en_now (en_req env)"
  from identify_calls [OF 3(2)] obtain u where g: "Get (sv_sessions svc) (tokenFrom (sr_mw sv) r) ?t (w_redis w) = (w_redis w1, Inr (id_Session i))"
    "ByID (sv_users svc) u ?t (w_pg w) = (w_pg w1, Inr (id_User i))" using assms(1) by auto
  have "sess_reach (sv_sessions svc) entries (?t, fst (Touch (sv_sessions svc) (id_Session i) ?t (w_redis w1)))"
    using 3(1) sess_reach.more [OF _ sess_step.touch [OF order_refl g(1) order_refl prod.collapse [symmetric]]] by (auto simp: sess_now_def)
  moreover have "db_reach (sv_users svc) tables (w_pg w1)"
    using 3(1) db_reach.step [OF _ db_step.by_id [OF g(2)]] by (auto simp: sess_now_def)
  ultimately show ?case using assms(1) by (simp add: sess_now_def)
qed (use assms session_request in \<open>auto simp: sess_now_def intro: db_step.intros fst_step\<close>)

end

end
