(* ===== verification/ServerRun.thy ===== *)
theory ServerRun
  imports ServerSystem
begin

text \<open>
  The running server: requests, the goroutines of the open connections and shutdown, in any order.  A request is one
  step; the operations of the stores inside it are those of the component systems, which interleave freely there.
\<close>

subsection \<open>Where a request can change the hubs\<close>

lemma handler_world:
  obtains (nothing) "fst (server_handler sv env r w s) = s"
  | (served) ep slug w' vs where "fst (server_handler sv env r w s) = fst (serve sv env ep (r\<lparr>rq_slug := slug\<rparr>) w' s)"
      "match_route (rq_method r) (path_segs (rq_path r)) routes = Some (ep, vs)"
      "rq_method r \<in> set safeMethods \<or> rq_header r ''Authorization'' \<noteq> [] \<or> server_allows sv r"
proof -
  have m: "fst (server_mux sv env r w' s) = s \<or> (\<exists>ep slug vs. fst (server_mux sv env r w' s) = fst (serve sv env ep (r\<lparr>rq_slug := slug\<rparr>) w' s) \<and>
      match_route (rq_method r) (path_segs (rq_path r)) routes = Some (ep, vs))" for w'
    unfolding server_mux_def by (cases rule: mux_serve_cases [of routes "ex_location (sr_ext sv)" "serve sv env" r w' s]) auto
  have "\<exists>w'. fst (server_handler sv env r w s) = fst (CSRF (server_allows sv) deny (server_mux sv env) r w' s)"
    by (auto simp: server_handler_def Recover_def SecurityHeaders_def split: prod.splits http_outcome.splits) (metis fst_conv)+
  then obtain w' where "fst (server_handler sv env r w s) = fst (CSRF (server_allows sv) deny (server_mux sv env) r w' s)" by blast
  then show ?thesis using m [of w'] that by (auto simp: CSRF_def deny_def split: if_splits)
qed

definition same_hubs :: "('s, 'p) server_world \<Rightarrow> ('s, 'p) server_world \<Rightarrow> bool" where
  "same_hubs s s' \<longleftrightarrow> wd_hub s' = wd_hub s \<and> wd_inbox s' = wd_inbox s"

lemma same_hubsI: "(\<And>h0 ib0. wd_hub s = h0 \<and> wd_inbox s = ib0 \<Longrightarrow> wd_hub s' = h0 \<and> wd_inbox s' = ib0) \<Longrightarrow> same_hubs s s'"
  by (auto simp: same_hubs_def)

lemma same_hubs_trans: "same_hubs a b \<Longrightarrow> same_hubs b c \<Longrightarrow> same_hubs a c"
  by (simp add: same_hubs_def)

lemma same_hubs_on [simp]: "same_hubs s (fst (on_redis f s))" "same_hubs s (fst (on_pg g s))"
  by (simp_all add: same_hubs_def)

lemma same_hubs_refl [simp]: "same_hubs s s"
  by (simp add: same_hubs_def)

lemmas hub_steps = step_pair [where I = "same_hubs s" for s] step_bind [where I = "same_hubs s" for s] step_sum [where I = "same_hubs s" for s]
  step_option [where I = "same_hubs s" for s] step_if [where I = "same_hubs s" for s]

lemma identify_hubs: "same_hubs s (fst (identify mw now r s))"
  by (rule same_hubsI) (rule hubs.identify_keeps, auto)

lemma AuthenticateWS_hubs: "same_hubs s (fst (AuthenticateWS mw now r s))"
  by (rule same_hubsI) (rule hubs.AuthenticateWS_keeps, auto)

lemma resolve_hubs: "same_hubs s (fst (resolveRoom sv slug now s))"
  by (auto simp: resolveRoom_def same_hubs_def on_pg_def split: prod.splits sum.splits)

lemma plain_hubs:
  "same_hubs s (fst (handle_register h env r rs s))" "same_hubs s (fst (handle_login h env r rs s))" "same_hubs s (fst (handle_logout h env r rs s))"
  "same_hubs s (fst (handle_me h env i r rs s))" "same_hubs s (fst (handle_logoutAll h env i r rs s))"
  "same_hubs s (fst (handle_changePassword h env i r rs s))"
  "same_hubs s (fst (handle_wsTicket h env i r rs s))" "same_hubs s (fst (handle_contacts h env i r rs s))"
  by (rule same_hubsI; rule hubs.auth_endpoints_keep; simp)+

lemma room_hubs:
  "same_hubs s (fst (handle_list h now i r rs s))" "same_hubs s (fst (handle_bySlug h now i r rs s))"
  "same_hubs s (fst (handle_create h rand now i r rs s))" "same_hubs s (fst (handle_delete h now i r rs s))"
  "same_hubs s (fst (handle_credentials th now i r rs s))"
  unfolding handle_list_def handle_bySlug_def handle_create_def handle_delete_def handle_credentials_def
  by (intro hub_steps same_hubs_on same_hubs_refl; assumption?)+

text \<open>An invitation delivers at most one event.\<close>

definition one_event :: "ib_sched \<Rightarrow> ('s, 'p) server_world \<Rightarrow> ('s, 'p) server_world \<Rightarrow> bool" where
  "one_event S s s' \<longleftrightarrow> same_hubs s s' \<or> wd_hub s' = wd_hub s \<and> (\<exists>u d n. Deliver S u d (wd_inbox s) = (wd_inbox s', n))"

lemma event_none: "same_hubs s s' \<Longrightarrow> one_event S s s'"
  by (simp add: one_event_def)

lemma one_event_same: "same_hubs s s1 \<Longrightarrow> one_event S s1 s' \<Longrightarrow> one_event S s s'"
  by (auto simp: one_event_def same_hubs_def)

lemma invite_room_hubs: "same_hubs s (fst (invite_room h ty slug now s))"
  by (auto simp: invite_room_def same_hubs_def on_pg_def split: prod.splits sum.splits)

lemma invite_deliver_hubs: "one_event S s (fst (invite_deliver h S ev u now w s))"
proof -
  obtain s1 q where q: "on_pg (ByID (iv_users h) u now) s = (s1, q)" by fastforce
  then have "same_hubs s s1" using same_hubs_on(2) by (metis fst_conv)
  moreover have "one_event S s1 (fst (invite_deliver h S ev u now w s))"
    by (cases q) (auto simp: invite_deliver_def q one_event_def same_hubs_def split: prod.splits)
  ultimately show ?thesis by (rule one_event_same)
qed

lemma invite_tail_hubs:
  assumes "same_hubs s s1"
  shows "one_event S s (fst (case invite_room h ty slug now s1 of (s2, Inl answer) \<Rightarrow> (s2, Done (answer w))
      | (s2, Inr name) \<Rightarrow> (case invite_deliver h S (ev name) u now w s2 of (s3, w3) \<Rightarrow> (s3, Done w3))))"
proof -
  obtain s2 x where x: "invite_room h ty slug now s1 = (s2, x)" by fastforce
  then have "same_hubs s1 s2" using invite_room_hubs [of s1 h ty slug now] by simp
  with assms have s2: "same_hubs s s2" by (rule same_hubs_trans)
  show ?thesis
  proof (cases x)
    case (Inr name)
    have "fst (case invite_deliver h S (ev name) u now w s2 of (s3, w3) \<Rightarrow> (s3, Done w3)) = fst (invite_deliver h S (ev name) u now w s2)"
      by (simp split: prod.splits)
    then show ?thesis using one_event_same [OF s2 invite_deliver_hubs] by (simp add: x Inr)
  qed (simp add: x s2 one_event_def)
qed

lemma on_redis_hubs: "on_redis f s = (s1, y) \<Longrightarrow> same_hubs s s1"
  using same_hubs_on(1) [of s f] by simp

lemmas event_steps = step_option [where I = "one_event S s" for S s] step_if [where I = "one_event S s" for S s]
  step_prod [where I = "one_event S s" for S s] step_pair [where I = "one_event S s" for S s]

lemma invite_hubs: "one_event S s (fst (invite_handle h S ty now i r w s))"
proof -
  have same: "one_event S s s" by (simp add: one_event_def same_hubs_def)
  have redis: "one_event S s s1" if "on_redis f s = (s1, y)" for f s1 and y :: "bool \<times> duration \<times> rl_error option"
    using on_redis_hubs [OF that] by (simp add: one_event_def)
  show ?thesis
    unfolding invite_handle_def Let_def
    by (rule event_steps same)+ (erule redis | rule event_steps invite_tail_hubs | erule on_redis_hubs)+
qed

text \<open>The two endpoints that open connections.\<close>

definition ws_connects :: "('s, 'p) server \<Rightarrow> srv_env \<Rightarrow> http_request \<Rightarrow> ('s, 'p) server_world \<Rightarrow> ('s, 'p) server_world \<Rightarrow> bool" where
  "ws_connects sv env r s s' \<longleftrightarrow> wd_inbox s' = wd_inbox s \<and>
     (\<exists>u d s1 s2 roomID i h1 c ok. AuthenticateWS (sr_mw sv) (en_now (en_req env)) r s = (s1, Inr (u, d)) \<and>
        rq_query r ''room'' \<noteq> [] \<and> resolveRoom sv (rq_query r ''room'') (en_now (en_req env)) s1 = (s2, Inr roomID) \<and>
        ws_upgraded sv env r \<and> new_client i u d roomID (wd_hub s) = (h1, c) \<and>
        hub_add (en_sched env) (encode (ex_jcompact (sr_ext sv))) c h1 = (wd_hub s', ok))"

definition inbox_connects :: "('s, 'p) server \<Rightarrow> srv_env \<Rightarrow> http_request \<Rightarrow> ('s, 'p) server_world \<Rightarrow> ('s, 'p) server_world \<Rightarrow> bool" where
  "inbox_connects sv env r s s' \<longleftrightarrow> wd_hub s' = wd_hub s \<and>
     (\<exists>u d s1 i ib1 c ok. AuthenticateWS (sr_mw sv) (en_now (en_req env)) r s = (s1, Inr (u, d)) \<and> ws_upgraded sv env r \<and>
        new_conn i u (wd_inbox s) = (ib1, c) \<and> ib_add c ib1 = (wd_inbox s', ok))"

lemma ServeHTTP_cases:
  assumes "ServeHTTP S enc auth slug resolve upgraded ids h = (h', ids', res)"
  obtains (rejected) "h' = h" "ids' = ids" "\<And>c. res \<noteq> Attached c" "\<And>code reason. res \<noteq> Refused code reason"
  | (connected) u d roomID i h1 c ok where "auth = Inr (u, d)" "slug \<noteq> []" "resolve slug = Inr roomID" "upgraded"
      "new_client i u d roomID h = (h1, c)" "hub_add S enc c h1 = (h', ok)"
      "res = (if ok then Attached c else Refused CloseGoingAway ''server shutting down'')"
  using assms unfolding ServeHTTP_def Let_def
  by (auto split: sum.splits prod.splits if_splits resolve_error.splits)

lemma serve_ws_hubs: "same_hubs s (fst (serve_ws sv env r w s)) \<or> ws_connects sv env r s (fst (serve_ws sv env r w s))"
proof -
  let ?now = "en_now (en_req env)" and ?slug = "rq_query r ''room''"
  obtain s1 who where a: "AuthenticateWS (sr_mw sv) ?now r s = (s1, who)" by fastforce
  obtain s2 res where b: "(if isl who \<or> ?slug = [] then (s1, Inl ResolveFailed) else resolveRoom sv ?slug ?now s1) = (s2, res)" by fastforce
  obtain h ids result where c: "ServeHTTP (en_sched env) (encode (ex_jcompact (sr_ext sv))) who ?slug (\<lambda>_. res) (ws_upgraded sv env r)
      (wd_clientIDs s2) (wd_hub s2) = (h, ids, result)" by (metis prod_cases3)
  have s1: "same_hubs s s1" using AuthenticateWS_hubs [of s "sr_mw sv" ?now r] a by simp
  have "same_hubs s1 s2" using b resolve_hubs [of s1 sv ?slug ?now] by (auto split: if_splits)
  with s1 have s2: "same_hubs s s2" by (rule same_hubs_trans)
  have e: "fst (serve_ws sv env r w s) = s2\<lparr>wd_hub := h, wd_clientIDs := ids\<rparr>"
    unfolding serve_ws_def Let_def a prod.case b c by simp
  from c show ?thesis
  proof (cases rule: ServeHTTP_cases)
    case rejected
    then show ?thesis using s2 e by (simp add: same_hubs_def)
  next
    case (connected u d roomID i h1 c ok)
    then have "resolveRoom sv ?slug ?now s1 = (s2, Inr roomID)" using b by (auto split: if_splits)
    then have "ws_connects sv env r s (fst (serve_ws sv env r w s))"
      using connected a s2 e unfolding ws_connects_def same_hubs_def by fastforce
    then show ?thesis ..
  qed
qed

lemma serve_inbox_hubs: "same_hubs s (fst (serve_inbox sv env r w s)) \<or> inbox_connects sv env r s (fst (serve_inbox sv env r w s))"
proof -
  let ?now = "en_now (en_req env)"
  obtain s1 who where a: "AuthenticateWS (sr_mw sv) ?now r s = (s1, who)" by fastforce
  obtain ib ids result where c: "inbox_ServeHTTP who (ws_upgraded sv env r) (wd_connIDs s1) (wd_inbox s1) = (ib, ids, result)" by (metis prod_cases3)
  have s1: "same_hubs s s1" using AuthenticateWS_hubs [of s "sr_mw sv" ?now r] a by simp
  have e: "fst (serve_inbox sv env r w s) = s1\<lparr>wd_inbox := ib, wd_connIDs := ids\<rparr>"
    unfolding serve_inbox_def a prod.case c by simp
  show ?thesis
  proof (cases "ib = wd_inbox s1")
    case True
    then show ?thesis using s1 e by (simp add: same_hubs_def)
  next
    case False
    then obtain u d i ib1 n ok where "who = Inr (u, d)" "ws_upgraded sv env r" "new_conn i u (wd_inbox s1) = (ib1, n)" "ib_add n ib1 = (ib, ok)"
      using c unfolding inbox_ServeHTTP_def Let_def by (auto split: sum.splits prod.splits if_splits)
    then have "inbox_connects sv env r s (fst (serve_inbox sv env r w s))"
      using a s1 e unfolding inbox_connects_def same_hubs_def by fastforce
    then show ?thesis ..
  qed
qed

lemma signed_hubs: "one_event (en_ib_sched env) s (fst (serve_signed sv env ep i r w s))"
  by (cases ep) (simp_all add: serve_signed_def Let_def event_none plain_hubs room_hubs invite_hubs)

lemma Require_hubs: "one_event (en_ib_sched env) s (fst (Require (sr_mw sv) (en_now (en_req env)) (serve_signed sv env ep) r w s))"
proof -
  obtain s1 q where q: "identify (sr_mw sv) (en_now (en_req env)) r s = (s1, q)" by fastforce
  then have s1: "same_hubs s s1" using identify_hubs [of s "sr_mw sv" "en_now (en_req env)" r] by simp
  show ?thesis
  proof (cases q)
    case (Inr i)
    show ?thesis
      using one_event_same [OF same_hubs_trans [OF s1 same_hubs_on(1)] signed_hubs] by (simp add: Require_def q Inr)
  qed (simp add: Require_def q one_event_def s1)
qed

lemma serve_hubs:
  obtains (event) "one_event (en_ib_sched env) s (fst (serve sv env ep r w s))"
  | (ws) "ep = EpWs" "ws_connects sv env r s (fst (serve sv env ep r w s))"
  | (inbox) "ep = EpInbox" "inbox_connects sv env r s (fst (serve sv env ep r w s))"
proof (cases ep)
  case EpWs
  then show ?thesis using serve_ws_hubs [of s sv env r w] that by (auto simp: one_event_def)
next
  case EpInbox
  then show ?thesis using serve_inbox_hubs [of s sv env r w] that by (auto simp: one_event_def)
next
  case (Signed se)
  then have "one_event (en_ib_sched env) s (fst (serve sv env ep r w s))" by (simp add: Require_hubs)
  then show ?thesis by (rule event)
qed (rule event, simp add: event_none plain_hubs serve_health_def serve_ready_def)+

end
