(* ===== verification/Running.thy ===== *)
theory Running
  imports ServerRun
begin

text \<open>
  The running server as a transition system over its whole state: the two servers, both hubs and the goroutines of the
  open connections.  \<open>rn_reading\<close> and \<open>rn_inboxes\<close> are the connections whose \<^verbatim>\<open>readPump\<close> has been started.
\<close>

record ('s, 'p) running =
  rn_now :: gotime
  rn_world :: "('s, 'p) server_world"
  rn_reading :: "cref set"
  rn_inboxes :: "conn_ref set"

text \<open>The goroutines a request has started: those of the connections it registered.\<close>

definition fresh_clients :: "hub \<Rightarrow> hub \<Rightarrow> cref set" where
  "fresh_clients h h' = (if h_done h then {} else {h_next h ..< h_next h'})"

definition fresh_inboxes :: "inbox \<Rightarrow> inbox \<Rightarrow> conn_ref set" where
  "fresh_inboxes ib ib' = (if ib_closed ib then {} else {ib_next ib ..< ib_next ib'})"

definition signaling_part :: "('s, 'p) running \<Rightarrow> sys" where
  "signaling_part s = \<lparr>sy_hub = wd_hub (rn_world s), sy_pending = {}, sy_reading = rn_reading s\<rparr>"

definition inbox_part :: "('s, 'p) running \<Rightarrow> inbox_sys" where
  "inbox_part s = \<lparr>ibs_hub = wd_inbox (rn_world s), ibs_pending = {}, ibs_reading = rn_inboxes s\<rparr>"

inductive srv_step :: "('s, 'p) server \<Rightarrow> ('s, 'p) running \<Rightarrow> ('s, 'p) running \<Rightarrow> bool" for sv :: "('s, 'p) server" where
  request: "rn_now s \<le> en_now (en_req env) \<Longrightarrow> valid_sched (en_sched env) \<Longrightarrow> ib_valid (en_ib_sched env) \<Longrightarrow>
     server_handler sv env r no_response (rn_world s) = (w, out) \<Longrightarrow>
     srv_step sv s \<lparr>rn_now = en_now (en_req env), rn_world = w,
       rn_reading = rn_reading s \<union> fresh_clients (wd_hub (rn_world s)) (wd_hub w),
       rn_inboxes = rn_inboxes s \<union> fresh_inboxes (wd_inbox (rn_world s)) (wd_inbox w)\<rparr>"
| connection: "sys_step (ex_jcompact (sr_ext sv)) (signaling_part s) \<lparr>sy_hub = h, sy_pending = {}, sy_reading = R\<rparr> \<Longrightarrow>
     srv_step sv s (s\<lparr>rn_world := (rn_world s)\<lparr>wd_hub := h\<rparr>, rn_reading := R\<rparr>)"
| inbox_read: "c \<in> rn_inboxes s \<Longrightarrow> inbox_readPump dl c evs (wd_inbox (rn_world s)) = (ib, True) \<Longrightarrow>
     srv_step sv s (s\<lparr>rn_world := (rn_world s)\<lparr>wd_inbox := ib\<rparr>\<rparr>)"
| inbox_write: "ib = ib_set_send c (drain n (cn_send (ib_heap (wd_inbox (rn_world s)) c))) (wd_inbox (rn_world s)) \<Longrightarrow>
     srv_step sv s (s\<lparr>rn_world := (rn_world s)\<lparr>wd_inbox := ib\<rparr>\<rparr>)"
| stop: "shutdown signalled listen_failed hub_in_time http_failed (rn_world s) = (w, e) \<Longrightarrow> srv_step sv s (s\<lparr>rn_world := w\<rparr>)"

text \<open>The server starts on stores their operations can have produced, and with no connection.\<close>

inductive srv_reach :: "('s, 'p) server \<Rightarrow> ('s \<Rightarrow> db) \<Rightarrow> ('p \<Rightarrow> pgdb) \<Rightarrow> ('s, 'p) running \<Rightarrow> bool"
  for sv :: "('s, 'p) server" and entries :: "'s \<Rightarrow> db" and tables :: "'p \<Rightarrow> pgdb" where
  start: "sess_now (mw_svc (sr_mw sv)) entries tables t w \<Longrightarrow> wd_hub w = NewHub heap \<Longrightarrow> (\<And>c. chan_ok (c_send (heap c))) \<Longrightarrow>
     wd_inbox w = NewInbox iheap \<Longrightarrow> (\<And>c. chan_ok (cn_send (iheap c))) \<Longrightarrow>
     srv_reach sv entries tables \<lparr>rn_now = t, rn_world = w, rn_reading = {}, rn_inboxes = {}\<rparr>"
| more: "srv_reach sv entries tables s \<Longrightarrow> srv_step sv s s' \<Longrightarrow> srv_reach sv entries tables s'"

subsection \<open>Connections keep the identity they were opened with\<close>

definition same_people :: "hub \<Rightarrow> hub \<Rightarrow> bool" where
  "same_people h h' \<longleftrightarrow> h_next h' = h_next h \<and>
     (\<forall>c. c_userID (h_heap h' c) = c_userID (h_heap h c) \<and> c_displayName (h_heap h' c) = c_displayName (h_heap h c))"

lemma static_people: "same_static h h' \<Longrightarrow> same_people h h'"
  by (simp add: same_people_def same_staticD)

lemma same_people_refl [simp]: "same_people h h"
  by (simp add: same_people_def)

lemma stop_people: "hub_inv h \<Longrightarrow> same_people h (hub_stop h)"
  using closeAll_spec [of h] static_people [of h "closeAll h"] by (simp add: hub_stop_def same_people_def)

lemma sys_step_people:
  assumes "sys_step jc s s'" "sys_inv s" "sy_pending s = {}" "sy_pending s' = {}"
  shows "same_people (sy_hub s) (sy_hub s')"
  using assms(1)
proof (cases rule: sys_step.cases)
  case (publish c S m)
  then show ?thesis using assms(2) deliver_keeps [OF _ publish(3) encodes_left_encode] static_people
    by (auto simp: hub_publish_def sys_inv_def)
next
  case (unregister c S)
  then show ?thesis using assms(2) leave_keeps [OF _ unregister(3) encodes_left_encode] static_people
    by (auto simp: hub_drop_def sys_inv_def)
next
  case (writer c n)
  then show ?thesis by (auto simp: same_people_def set_send_views)
next
  case stop
  then show ?thesis using assms(2) stop_people by (auto simp: sys_inv_def)
qed (use assms(3,4) in auto)

text \<open>Stopping a hub that has already stopped changes nothing.\<close>

lemma stop_inv: "sys_inv s \<Longrightarrow> sys_inv (s\<lparr>sy_hub := hub_stop (sy_hub s)\<rparr>)"
proof (cases "h_done (sy_hub s)")
  case True
  assume inv: "sys_inv s"
  with True have "h_rooms (sy_hub s) = []" "h_count (sy_hub s) = 0" by (auto simp: sys_inv_def hub_inv_def hub_size_def)
  with True have "hub_stop (sy_hub s) = sy_hub s" by (simp add: hub_stop_def closeAll_def)
  with inv show ?thesis by simp
next
  case False
  show "sys_inv s \<Longrightarrow> sys_inv (s\<lparr>sy_hub := hub_stop (sy_hub s)\<rparr>)" using sys_step_inv [OF sys_step.stop [OF False]] by blast
qed

lemma ws_connect_inv:
  assumes "sys_inv \<lparr>sy_hub = h, sy_pending = {}, sy_reading = R\<rparr>" "valid_sched S"
    "new_client i u d roomID h = (h1, c)" "hub_add S (encode jc) c h1 = (h', ok)"
  shows "sys_inv \<lparr>sy_hub = h', sy_pending = {}, sy_reading = R \<union> fresh_clients h h'\<rparr>" "h_next h' = Suc (h_next h)" "c = h_next h"
    "same_people h1 h'"
proof -
  let ?s1 = "\<lparr>sy_hub = h1, sy_pending = {c}, sy_reading = R\<rparr>"
  have inv: "sys_inv ?s1" using sys_step_inv [OF sys_step.accept [of i u d roomID "\<lparr>sy_hub = h, sy_pending = {}, sy_reading = R\<rparr>" h1 c jc]] assms(1,3) by simp
  have n: "c = h_next h" "h_next h1 = Suc c" "h_done h1 = h_done h" using assms(3) by (auto simp: new_client_def Let_def)
  show "c = h_next h" by (rule n)
  have j: "same_static h1 h'"
  proof (cases ok)
    case True
    then have "h' = hub_join S (encode jc) c h1" using assms(4) by (simp add: hub_add_def split: if_splits)
    then show ?thesis using join_keeps [OF _ _ assms(2) encodes_left_encode, of h1 c "Suc c" jc] inv by (simp add: sys_inv_def)
  qed (use assms(4) in \<open>simp add: hub_add_def split: if_splits\<close>)
  then show "h_next h' = Suc (h_next h)" using n same_staticD(6) by simp
  show "same_people h1 h'" by (rule static_people [OF j])
  have f: "fresh_clients h h' = (if h_done h then {} else {c})" using \<open>h_next h' = _\<close> n by (auto simp: fresh_clients_def)
  show "sys_inv \<lparr>sy_hub = h', sy_pending = {}, sy_reading = R \<union> fresh_clients h h'\<rparr>"
  proof (cases ok)
    case True
    then have "\<not> h_done h" using assms(4) n by (simp add: hub_add_def split: if_splits)
    then show ?thesis using sys_step_inv [OF sys_step.register [of c ?s1 S jc h'] inv] assms(2,4) True f by simp
  next
    case False
    then have "h_done h" using assms(4) n by (simp add: hub_add_def split: if_splits)
    then show ?thesis using sys_step_inv [OF sys_step.refuse [of c ?s1 S jc h'] inv] assms(4) False f by simp
  qed
qed

lemma inbox_connect_inv:
  assumes "inbox_sys_inv \<lparr>ibs_hub = ib, ibs_pending = {}, ibs_reading = R\<rparr>" "new_conn i u ib = (ib1, c)" "ib_add c ib1 = (ib', ok)"
  shows "inbox_sys_inv \<lparr>ibs_hub = ib', ibs_pending = {}, ibs_reading = R \<union> fresh_inboxes ib ib'\<rparr>" "ib_next ib' = Suc (ib_next ib)"
    "c = ib_next ib" "ib_heap ib' = ib_heap ib1"
proof -
  let ?s1 = "\<lparr>ibs_hub = ib1, ibs_pending = {c}, ibs_reading = R\<rparr>"
  have inv: "inbox_sys_inv ?s1"
    using inbox_step_inv [OF inbox_step.accept [of i u "\<lparr>ibs_hub = ib, ibs_pending = {}, ibs_reading = R\<rparr>" ib1 c]] assms(1,2) by simp
  have n: "c = ib_next ib" "ib_next ib1 = Suc c" "ib_closed ib1 = ib_closed ib" using assms(2) by (auto simp: new_conn_def Let_def)
  show "c = ib_next ib" by (rule n)
  have a: "ib_next ib' = Suc c" "ib_heap ib' = ib_heap ib1" "ok = (\<not> ib_closed ib)" using assms(3) n by (auto simp: ib_add_def Let_def split: if_splits)
  then show "ib_next ib' = Suc (ib_next ib)" "ib_heap ib' = ib_heap ib1" using n by simp_all
  have "fresh_inboxes ib ib' = (if ok then {c} else {})" using a n by (auto simp: fresh_inboxes_def)
  then show "inbox_sys_inv \<lparr>ibs_hub = ib', ibs_pending = {}, ibs_reading = R \<union> fresh_inboxes ib ib'\<rparr>"
    using inbox_step_inv [OF inbox_step.register [of c ?s1 ib' ok] inv] assms(3) by (cases ok) simp_all
qed

lemma inbox_event_inv:
  assumes "inbox_sys_inv \<lparr>ibs_hub = ib, ibs_pending = {}, ibs_reading = R\<rparr>" "ib_valid S" "Deliver S u d ib = (ib', n)"
  shows "inbox_sys_inv \<lparr>ibs_hub = ib', ibs_pending = {}, ibs_reading = R\<rparr>" "ib_same ib ib'"
proof -
  show "inbox_sys_inv \<lparr>ibs_hub = ib', ibs_pending = {}, ibs_reading = R\<rparr>"
    using inbox_step_inv [OF inbox_step.event [of S u d "\<lparr>ibs_hub = ib, ibs_pending = {}, ibs_reading = R\<rparr>" ib' n]] assms by simp
  have "ib_inv ib" using assms(1) by (simp add: inbox_sys_inv_def)
  from Deliver_spec [OF this assms(2,3)] show "ib_same ib ib'" by (auto simp: delivered_to_def)
qed

subsection \<open>The invariant\<close>

definition known :: "pgdb \<Rightarrow> string \<Rightarrow> string \<Rightarrow> bool" where
  "known d u name \<longleftrightarrow> (\<exists>row. t_users d u = Some row \<and> u_display_name row = name)"

definition clients_known :: "pgdb \<Rightarrow> hub \<Rightarrow> bool" where
  "clients_known d h \<longleftrightarrow> (\<forall>c<h_next h. known d (c_userID (h_heap h c)) (c_displayName (h_heap h c)))"

definition inboxes_known :: "pgdb \<Rightarrow> inbox \<Rightarrow> bool" where
  "inboxes_known d ib \<longleftrightarrow> (\<forall>c<ib_next ib. t_users d (cn_userID (ib_heap ib c)) \<noteq> None)"

text \<open>Rows of users are never removed or changed.\<close>

lemma move_users: "table_move uuid_in ci d d' \<Longrightarrow> t_users d i = Some u \<Longrightarrow> t_users d' i = Some u"
  by (induction rule: table_move.induct) (auto simp: pgdb_ops new_account_def)

lemma known_people: "clients_known d h \<Longrightarrow> same_people h h' \<Longrightarrow> clients_known d h'"
  by (simp add: clients_known_def same_people_def)

lemma known_owners: "inboxes_known d ib \<Longrightarrow> ib_same ib ib' \<Longrightarrow> inboxes_known d ib'"
  by (simp add: inboxes_known_def ib_same_def)

definition srv_inv :: "('s, 'p) server \<Rightarrow> ('s \<Rightarrow> db) \<Rightarrow> ('p \<Rightarrow> pgdb) \<Rightarrow> ('s, 'p) running \<Rightarrow> bool" where
  "srv_inv sv entries tables s \<longleftrightarrow> sess_now (mw_svc (sr_mw sv)) entries tables (rn_now s) (rn_world s) \<and>
     sys_inv (signaling_part s) \<and> inbox_sys_inv (inbox_part s) \<and>
     clients_known (tables (w_pg (rn_world s))) (wd_hub (rn_world s)) \<and> inboxes_known (tables (w_pg (rn_world s))) (wd_inbox (rn_world s))"

context auth_world
begin

lemma steps_users: "rtranclp (db_step (sv_users svc)) p q \<Longrightarrow> t_users (tables p) i = Some u \<Longrightarrow> t_users (tables q) i = Some u"
  by (induction rule: rtranclp.induct) (auto dest: step_moves intro: move_users)

lemma steps_known:
  assumes "rtranclp (db_step (sv_users svc)) p q"
  shows "clients_known (tables p) h \<Longrightarrow> clients_known (tables q) h" "inboxes_known (tables p) ib \<Longrightarrow> inboxes_known (tables q) ib"
  using steps_users [OF assms] by (fastforce simp: clients_known_def known_def inboxes_known_def)+

text \<open>Who a websocket request authenticates as: an enabled user of the database.\<close>

lemma AuthenticateWS_user:
  assumes "AuthenticateWS mw now r s = (s1, Inr (u, d))" "mw_svc mw = svc"
  shows "tables (w_pg s1) = tables (w_pg s)"
    and "\<exists>row. t_users (tables (w_pg s)) u = Some row \<and> u_disabled_at row = None \<and> u_display_name row = d"
proof -
  obtain y user where b: "ByID (sv_users svc) y now (w_pg s) = (w_pg s1, Inr user)" "u = usr_ID user" "d = usr_DisplayName user"
    using assms
    by (auto simp: AuthenticateWS_def Let_def split: if_splits prod.splits sum.splits dest!: on_redis_parts on_pg_parts identify_calls)
  show "tables (w_pg s1) = tables (w_pg s)" using ByID_spec(1) [OF b(1)] .
  show "\<exists>row. t_users (tables (w_pg s)) u = Some row \<and> u_disabled_at row = None \<and> u_display_name row = d"
    using ByID_spec(2) [OF b(1) refl] b(2,3) by (auto simp: scan_user_def)
qed

lemma sess_now_later: "sess_now svc entries tables t w \<Longrightarrow> t \<le> t' \<Longrightarrow> sess_now svc entries tables t' w"
  unfolding sess_now_def using sess_reach.more [OF _ sess_step.other [of t t' entries "w_redis w" "w_redis w"]] by blast

end

text \<open>The hubs after a request.\<close>

definition hubs_ok :: "pgdb \<Rightarrow> cref set \<Rightarrow> conn_ref set \<Rightarrow> hub \<Rightarrow> inbox \<Rightarrow> bool" where
  "hubs_ok d R IR h ib \<longleftrightarrow> sys_inv \<lparr>sy_hub = h, sy_pending = {}, sy_reading = R\<rparr> \<and>
     inbox_sys_inv \<lparr>ibs_hub = ib, ibs_pending = {}, ibs_reading = IR\<rparr> \<and> clients_known d h \<and> inboxes_known d ib"

lemma fresh_none [simp]: "fresh_clients h h = {}" "fresh_inboxes ib ib = {}"
  by (simp_all add: fresh_clients_def fresh_inboxes_def)

lemma one_event_ok:
  assumes "hubs_ok d R IR (wd_hub s) (wd_inbox s)" "ib_valid S" "one_event S s s'"
  shows "hubs_ok d (R \<union> fresh_clients (wd_hub s) (wd_hub s')) (IR \<union> fresh_inboxes (wd_inbox s) (wd_inbox s')) (wd_hub s') (wd_inbox s')"
proof (cases "same_hubs s s'")
  case True
  then show ?thesis using assms(1) by (simp add: same_hubs_def)
next
  case False
  then obtain u e n where e: "wd_hub s' = wd_hub s" "Deliver S u e (wd_inbox s) = (wd_inbox s', n)" using assms(3) by (auto simp: one_event_def)
  note i = inbox_event_inv [OF _ assms(2) e(2)]
  have "inbox_sys_inv \<lparr>ibs_hub = wd_inbox s, ibs_pending = {}, ibs_reading = IR\<rparr>" using assms(1) by (simp add: hubs_ok_def)
  from i [OF this] have "fresh_inboxes (wd_inbox s) (wd_inbox s') = {}" "inboxes_known d (wd_inbox s')"
    using assms(1) known_owners by (auto simp: fresh_inboxes_def ib_same_def hubs_ok_def)
  then show ?thesis using assms(1) i e(1) by (simp add: hubs_ok_def)
qed

lemma ws_ok:
  assumes "hubs_ok d R IR (wd_hub s) (wd_inbox s)" "valid_sched (en_sched env)" "ws_connects sv env r s s'"
    "\<And>s1 u n. AuthenticateWS (sr_mw sv) (en_now (en_req env)) r s = (s1, Inr (u, n)) \<Longrightarrow> known d u n"
  shows "hubs_ok d (R \<union> fresh_clients (wd_hub s) (wd_hub s')) (IR \<union> fresh_inboxes (wd_inbox s) (wd_inbox s')) (wd_hub s') (wd_inbox s')"
proof -
  from assms(3) obtain u n s1 roomID i h1 c ok where a: "wd_inbox s' = wd_inbox s"
    "AuthenticateWS (sr_mw sv) (en_now (en_req env)) r s = (s1, Inr (u, n))" "new_client i u n roomID (wd_hub s) = (h1, c)"
    "hub_add (en_sched env) (encode (ex_jcompact (sr_ext sv))) c h1 = (wd_hub s', ok)"
    by (auto simp: ws_connects_def)
  have inv: "sys_inv \<lparr>sy_hub = wd_hub s, sy_pending = {}, sy_reading = R\<rparr>" using assms(1) by (simp add: hubs_ok_def)
  note w = ws_connect_inv [OF inv assms(2) a(3,4)]
  have h1: "h_heap h1 = (h_heap (wd_hub s))(c := \<lparr>c_id = i, c_userID = u, c_displayName = n, c_roomID = roomID, c_send = make_chan sendBufferSize\<rparr>)"
    "h_next h1 = Suc c" using a(3) w(3) by (auto simp: new_client_def Let_def)
  have "clients_known d h1" using assms(1) assms(4) [OF a(2)] w(3)
    by (auto simp: clients_known_def h1 hubs_ok_def less_Suc_eq)
  then show ?thesis using known_people w a(1) assms(1) by (auto simp: hubs_ok_def)
qed

lemma inbox_ok:
  assumes "hubs_ok d R IR (wd_hub s) (wd_inbox s)" "inbox_connects sv env r s s'"
    "\<And>s1 u n. AuthenticateWS (sr_mw sv) (en_now (en_req env)) r s = (s1, Inr (u, n)) \<Longrightarrow> known d u n"
  shows "hubs_ok d (R \<union> fresh_clients (wd_hub s) (wd_hub s')) (IR \<union> fresh_inboxes (wd_inbox s) (wd_inbox s')) (wd_hub s') (wd_inbox s')"
proof -
  from assms(2) obtain u n s1 i ib1 c ok where a: "wd_hub s' = wd_hub s"
    "AuthenticateWS (sr_mw sv) (en_now (en_req env)) r s = (s1, Inr (u, n))" "new_conn i u (wd_inbox s) = (ib1, c)"
    "ib_add c ib1 = (wd_inbox s', ok)"
    by (auto simp: inbox_connects_def)
  have inv: "inbox_sys_inv \<lparr>ibs_hub = wd_inbox s, ibs_pending = {}, ibs_reading = IR\<rparr>" using assms(1) by (simp add: hubs_ok_def)
  note w = inbox_connect_inv [OF inv a(3,4)]
  have "inboxes_known d (wd_inbox s')" using assms(1) assms(3) [OF a(2)] w a(3)
    by (auto simp: inboxes_known_def hubs_ok_def less_Suc_eq known_def new_conn_def Let_def)
  then show ?thesis using w a(1) assms(1) by (auto simp: hubs_ok_def)
qed

context auth_world
begin

lemma request_hubs_ok:
  assumes "mw_svc (sr_mw sv) = svc" "hubs_ok (tables (w_pg s)) R IR (wd_hub s) (wd_inbox s)"
    and "valid_sched (en_sched env)" "ib_valid (en_ib_sched env)" "s' = fst (server_handler sv env r w s)"
  shows "hubs_ok (tables (w_pg s)) (R \<union> fresh_clients (wd_hub s) (wd_hub s')) (IR \<union> fresh_inboxes (wd_inbox s) (wd_inbox s'))
    (wd_hub s') (wd_inbox s')"
proof (cases rule: handler_world [of sv env r w s])
  case nothing
  then show ?thesis using assms(2,5) by simp
next
  case (served ep slug w' vs)
  have k: "known (tables (w_pg s)) u n" if "AuthenticateWS (sr_mw sv) (en_now (en_req env)) (r\<lparr>rq_slug := slug\<rparr>) s = (s1, Inr (u, n))" for s1 u n
    using AuthenticateWS_user(2) [OF that assms(1)] by (auto simp: known_def)
  show ?thesis
    using one_event_ok [OF assms(2,4)] ws_ok [OF assms(2,3) _ k] inbox_ok [OF assms(2) _ k] served assms(5)
    by (cases rule: serve_hubs [of env s sv ep "r\<lparr>rq_slug := slug\<rparr>" w']) simp_all
qed

lemma srv_inv_hubs:
  "srv_inv sv entries tables s \<longleftrightarrow> sess_now (mw_svc (sr_mw sv)) entries tables (rn_now s) (rn_world s) \<and>
     hubs_ok (tables (w_pg (rn_world s))) (rn_reading s) (rn_inboxes s) (wd_hub (rn_world s)) (wd_inbox (rn_world s))"
  by (auto simp: srv_inv_def hubs_ok_def signaling_part_def inbox_part_def)

lemma request_inv:
  fixes s :: "('s, 'p) running"
  assumes sv: "sv = wire ext cfg policy" "mw_svc (sr_mw sv) = svc" and "srv_inv sv entries tables s"
    and "rn_now s \<le> en_now (en_req env)" "valid_sched (en_sched env)" "ib_valid (en_ib_sched env)"
    and h: "server_handler sv env r no_response (rn_world s) = (w, out)"
  shows "srv_inv sv entries tables \<lparr>rn_now = en_now (en_req env), rn_world = w,
       rn_reading = rn_reading s \<union> fresh_clients (wd_hub (rn_world s)) (wd_hub w),
       rn_inboxes = rn_inboxes s \<union> fresh_inboxes (wd_inbox (rn_world s)) (wd_inbox w)\<rparr>"
proof -
  have i: "sess_now svc entries tables (en_now (en_req env)) (rn_world s)"
    using assms(2-4) sess_now_later by (auto simp: srv_inv_def)
  have "sess_now svc entries tables (en_now (en_req env)) w"
    using server_ops.handler_keeps [OF session_server [OF sv(2)] i, of r no_response] wire_wired [of ext cfg policy] h sv(1) by simp
  moreover have "rtranclp (db_step (sv_users svc)) (w_pg (rn_world s)) (w_pg w)"
    using database.handler_keeps [of ext "w_pg (rn_world s)" "rn_world s" cfg policy env r no_response] h sv wire_sel(1) [of ext cfg policy] by simp
  moreover have "hubs_ok (tables (w_pg (rn_world s))) (rn_reading s \<union> fresh_clients (wd_hub (rn_world s)) (wd_hub w))
      (rn_inboxes s \<union> fresh_inboxes (wd_inbox (rn_world s)) (wd_inbox w)) (wd_hub w) (wd_inbox w)"
    by (rule request_hubs_ok [OF sv(2), where r = r and w = no_response and env = env]) (use assms h in \<open>simp_all add: srv_inv_hubs\<close>)
  ultimately show ?thesis using sv(2) steps_known unfolding srv_inv_hubs hubs_ok_def by simp
qed

text \<open>A connection's goroutine or shutdown: the stores are not touched.\<close>

lemma srv_inv_cong:
  assumes "srv_inv sv entries tables s" "w_redis w = w_redis (rn_world s)" "w_pg w = w_pg (rn_world s)"
    and "sys_inv \<lparr>sy_hub = wd_hub w, sy_pending = {}, sy_reading = R\<rparr>" "same_people (wd_hub (rn_world s)) (wd_hub w)"
    and "inbox_sys_inv \<lparr>ibs_hub = wd_inbox w, ibs_pending = {}, ibs_reading = rn_inboxes s\<rparr>"
    and "inboxes_known (tables (w_pg (rn_world s))) (wd_inbox w)"
  shows "srv_inv sv entries tables (s\<lparr>rn_world := w, rn_reading := R\<rparr>)"
  using assms known_people by (auto simp: srv_inv_hubs hubs_ok_def sess_now_def)

lemma inbox_step_owners:
  assumes "inbox_sys_inv s" "inbox_step s s'" "ibs_pending s = {}" "ibs_pending s' = {}" "inboxes_known d (ibs_hub s)"
  shows "inboxes_known d (ibs_hub s')"
  using assms(2)
proof (cases rule: inbox_step.cases)
  case (read c dl evs ib)
  then have "ib = removeLocked c (ibs_hub s)" by (auto simp: inbox_readPump_def ib_remove_def split: if_splits)
  then show ?thesis using read removeLocked_views [of "ibs_hub s" _ c] assms(1,5) known_owners by (auto simp: inbox_sys_inv_def)
next
  case (event S u e ib n)
  then show ?thesis using Deliver_spec [of "ibs_hub s" S u e ib n] assms(1,5) known_owners
    by (auto simp: inbox_sys_inv_def delivered_to_def)
next
  case (writer c n)
  then show ?thesis using assms(5) known_owners ib_set_send_views(9) by auto
next
  case shutdown
  then show ?thesis using assms(1,5) ib_Shutdown_spec [of "ibs_hub s"] by (auto simp: inboxes_known_def inbox_sys_inv_def)
qed (use assms(3,4) in auto)

lemma inbox_move_inv:
  assumes "srv_inv sv entries tables s" "inbox_step (inbox_part s) (inbox_part s\<lparr>ibs_hub := ib\<rparr>)"
  shows "srv_inv sv entries tables (s\<lparr>rn_world := (rn_world s)\<lparr>wd_inbox := ib\<rparr>\<rparr>)"
proof -
  have i: "inbox_sys_inv (inbox_part s)" "inboxes_known (tables (w_pg (rn_world s))) (ibs_hub (inbox_part s))"
    using assms(1) by (auto simp: srv_inv_def inbox_part_def)
  have "inbox_sys_inv (inbox_part s\<lparr>ibs_hub := ib\<rparr>)" "inboxes_known (tables (w_pg (rn_world s))) ib"
    using inbox_step_inv [OF assms(2) i(1)] inbox_step_owners [OF i(1) assms(2) _ _ i(2)] by (simp_all add: inbox_part_def)
  then show ?thesis
    using srv_inv_cong [OF assms(1), of "(rn_world s)\<lparr>wd_inbox := ib\<rparr>" "rn_reading s"] assms(1)
    by (auto simp: srv_inv_def signaling_part_def inbox_part_def)
qed

lemma shutdown_world:
  "shutdown signalled lf ht hf w = (w', e) \<Longrightarrow>
   w' \<in> {w, w\<lparr>wd_inbox := ib_Shutdown (wd_inbox w)\<rparr>, w\<lparr>wd_inbox := ib_Shutdown (wd_inbox w), wd_hub := hub_stop (wd_hub w)\<rparr>}"
  by (auto simp: shutdown_def Let_def split: if_splits)

lemma srv_step_inv:
  assumes "sv = wire ext cfg policy" "mw_svc (sr_mw sv) = svc" "srv_step sv s s'" "srv_inv sv entries tables s"
  shows "srv_inv sv entries tables s'"
  using assms(3,4)
proof (induction rule: srv_step.induct)
  case (request s env r w out)
  then show ?case using request_inv [OF assms(1,2)] by blast
next
  case (connection s h R)
  have i: "sys_inv (signaling_part s)" using connection.prems by (simp add: srv_inv_def)
  have "same_people (wd_hub (rn_world s)) h"
    using sys_step_people [OF connection.hyps i] by (simp add: signaling_part_def)
  then show ?case
    using srv_inv_cong [OF connection.prems, of "(rn_world s)\<lparr>wd_hub := h\<rparr>" R] sys_step_inv [OF connection.hyps i] connection.prems
    by (simp add: srv_inv_def inbox_part_def)
next
  case (inbox_read c s dl evs ib)
  then show ?case using inbox_move_inv inbox_step.read [of c "inbox_part s"] by (simp add: inbox_part_def)
next
  case (inbox_write ib c n s)
  then show ?case using inbox_move_inv inbox_step.writer [of "inbox_part s"] by (simp add: inbox_part_def)
next
  case (stop signalled lf ht hf s w e)
  let ?ib = "(rn_world s)\<lparr>wd_inbox := ib_Shutdown (wd_inbox (rn_world s))\<rparr>"
  have i: "srv_inv sv entries tables (s\<lparr>rn_world := ?ib\<rparr>)"
    using inbox_move_inv [OF stop.prems] inbox_step.shutdown [of "inbox_part s"] by (simp add: inbox_part_def)
  have "sys_inv (signaling_part s)" using stop.prems by (simp add: srv_inv_def)
  note st = stop_inv [OF this] stop_people [of "wd_hub (rn_world s)"]
  have "srv_inv sv entries tables (s\<lparr>rn_world := ?ib\<lparr>wd_hub := hub_stop (wd_hub (rn_world s))\<rparr>, rn_reading := rn_reading s\<rparr>)"
    using srv_inv_cong [OF i, of "?ib\<lparr>wd_hub := hub_stop (wd_hub (rn_world s))\<rparr>" "rn_reading s"] i st
    by (auto simp: srv_inv_def signaling_part_def inbox_part_def sys_inv_def)
  then show ?case using shutdown_world [OF stop.hyps] stop.prems i by auto
qed

lemma srv_reach_inv:
  assumes "sv = wire ext cfg policy" "mw_svc (sr_mw sv) = svc" "srv_reach sv entries tables s"
  shows "srv_inv sv entries tables s"
  using assms(3)
proof (induction rule: srv_reach.induct)
  case (start t w heap iheap)
  then show ?case by (simp add: srv_inv_def signaling_part_def inbox_part_def sys_inv_def hub_inv_def NewHub_def hub_size_def
      inbox_sys_inv_def ib_inv_def NewInbox_def clients_known_def inboxes_known_def)
next
  case (more s s')
  then show ?case using srv_step_inv [OF assms(1,2)] by blast
qed

end

end
