(* ===== verification/RunningProps.thy ===== *)
theory RunningProps
  imports Running
begin

text \<open>Properties of the running server, and a complete instance for their witnesses: in-memory servers with one
  registered account, one room and one session.\<close>

subsection \<open>An instance\<close>

definition demo_ext :: "(mem, mempg) externals" where
  "demo_ext = \<lparr>ex_pg = mem_pg, ex_redis = mem_redis, ex_sha256 = (\<lambda>x. ''sha'' @ x), ex_marshal = (\<lambda>x. Some (text_line x)),
     ex_unmarshal = text_unmarshal, ex_argon2 = demo_argon2, ex_lower = (\<lambda>x. x), ex_fold = (\<lambda>x. x), ex_parse_ip = (\<lambda>x. None),
     ex_parse_addr = (\<lambda>x. Some ([], x)), ex_url_parse = (\<lambda>x. Some (take 5 x, drop 8 x)), ex_dec_credentials = (\<lambda>b c. None), ex_dec_passwords = (\<lambda>b c. None),
     ex_dec_room = (\<lambda>b c. Some \<lparr>crq_Name = b\<rparr>), ex_dec_invite = (\<lambda>b c. Some b), ex_hmac = (\<lambda>k m. m), ex_jcompact = (\<lambda>x. None), ex_location = (\<lambda>r p. p)\<rparr>"

definition demo_config :: Config where
  "demo_config = \<lparr>cf_Addr = '':8080'', cf_LogLevel = 0, cf_AllowedOrigins = [], cf_TrustProxy = False, cf_DatabaseURL = ''db'',
     cf_RedisURL = ''rd'', cf_CookieName = ''cb_session'', cf_CookieDomain = [], cf_CookieSecure = True, cf_SessionIdleTTL = 7 * 24 * hour,
     cf_SessionAbsoluteTTL = 30 * 24 * hour, cf_WSTicketTTL = 30 * second, cf_TURNSecret = [], cf_TURNURLs = [], cf_TURNCredentialTTL = 24 * hour\<rparr>"

definition demo_server :: "(mem, mempg) server" where
  "demo_server = wire demo_ext demo_config \<lparr>permitted = [], allowAny = False\<rparr>"

lemma demo_server_mw: "sr_mw demo_server = demo_mw"
  by (simp add: demo_server_def wire_def Let_def sr_mw_def NewMiddleware_def demo_ext_def demo_config_def demo_mw_def demo_svc_def text_store_def)

lemma demo_server_svc: "mw_svc (sr_mw demo_server) = demo_svc"
  by (simp add: demo_server_mw demo_mw_def NewMiddleware_def)

lemma demo_server_world: "auth_world (mw_svc (sr_mw demo_server)) mem_entries pm_tables pm_view mem_uuid mem_ci text_leq"
  using demo.auth_world_axioms by (simp add: demo_server_svc)

definition demo_srv_env :: srv_env where
  "demo_srv_env = \<lparr>en_req = demo_env 5, en_rand = demo_rand, en_sched = demo_sched, en_ib_sched = demo_ib_sched, en_handshake = True,
     en_upgrade_error = plain_error 400 ''Bad Request'', en_pg_ping = None, en_redis_ping = None\<rparr>"

text \<open>The account of \<open>demo_home\<close> with a room, and a session of its owner.\<close>

definition demo_room_id :: string where
  "demo_room_id = ''00000000-0000-4000-8000-000000000008''"

definition demo_lobby :: room_row where
  "demo_lobby = \<lparr>r_slug = ''bcd-kmnp-tvwx'', r_name = ''New room'', r_created_by = demo_owner, r_created_at = 5\<rparr>"

definition demo_house :: mempg where
  "demo_house = (demo_account demo_hash)\<lparr>pm_db := (pm_db (demo_account demo_hash))\<lparr>md_rooms := [(demo_room_id, demo_lobby)]\<rparr>, pm_next := 9\<rparr>"

definition demo_start :: "(mem, mempg) server_world" where
  "demo_start = \<lparr>w_redis = w_redis demo_inside, w_pg = demo_house, wd_inbox = NewInbox (\<lambda>_. demo_conn), wd_hub = NewHub demo_heap,
     wd_clientIDs = 0, wd_connIDs = 0\<rparr>"

lemma demo_house_created: "Rooms_Create mem_pg demo_rand demo_owner ''  '' 5 (demo_account demo_hash) = (demo_house, Inr (scan_room demo_room_id demo_lobby []))"
proof -
  have t: "trim_space ''  '' = []" by (simp add: trim_space_def trim_left.simps trim_rev.simps space_encodings_def)
  have n: "rune_count ''New room'' = 8" by (simp add: rune_count_ascii is_ascii_def byte_def)
  have u: "slug_format ''bcd-kmnp-tvwx''" using generated_canonical [OF demo_slug] by blast
  have "pm_next (demo_account demo_hash) = 8" by (simp add: demo_account_def)
  then have "fresh_id (demo_account demo_hash) = fresh_id (empty_pg\<lparr>pm_next := 8\<rparr>)" by (simp add: fresh_id_def)
  moreover have "fresh_id (empty_pg\<lparr>pm_next := 8\<rparr>) = demo_room_id" by code_simp
  ultimately have f: "fresh_id (demo_account demo_hash) = demo_room_id" by simp
  have "Store_Create mem_pg demo_owner ''bcd-kmnp-tvwx'' ''New room'' 5 (demo_account demo_hash) = (demo_house, Inr (scan_room demo_room_id demo_lobby []))"
    using f n u by (simp add: Store_Create_def mem_pg_def demo_owner_uuid Let_def name_length_ok_def)
      (simp add: demo_house_def demo_account_def demo_lobby_def empty_pg_def)
  then have "create_attempts mem_pg demo_rand 0 (Suc 4) demo_owner ''New room'' 5 (demo_account demo_hash) = (demo_house, Inr (scan_room demo_room_id demo_lobby []))"
    unfolding create_attempts.simps demo_slug by simp
  then show ?thesis by (simp add: Rooms_Create_def room_name_def t n Let_def maxNameLength_def slugAttempts_def)
qed

lemma demo_house_reach: "db_reach mem_pg pm_tables demo_house"
  using db_reach.step [OF db_reach.step [OF empty_pg_reach db_step.register [OF demo_register]] db_step.room_create [OF demo_house_created]] .

lemma demo_session_reach: "sess_reach text_store mem_entries (1, w_redis demo_inside)"
proof -
  have "is_ascii demo_owner" using mempg.uuid_ascii [OF demo_owner_uuid] .
  then show ?thesis
    using sess_reach.more [OF empty_reach sess_step.create [OF _ _ prod.collapse [symmetric]], of 1] by (simp add: demo_inside_def)
qed

lemma demo_start_now: "sess_now (mw_svc (sr_mw demo_server)) mem_entries pm_tables 1 demo_start"
  using demo_house_reach demo_session_reach by (simp add: demo_server_svc sess_now_def demo_svc_sel demo_start_def)

lemma demo_start_reach: "srv_reach demo_server mem_entries pm_tables \<lparr>rn_now = 1, rn_world = demo_start, rn_reading = {}, rn_inboxes = {}\<rparr>"
  by (rule srv_reach.start [OF demo_start_now, of demo_heap "\<lambda>_. demo_conn"])
    (simp_all add: demo_start_def demo_heap_def demo_client_def demo_conn_def)

text \<open>The owner of the session joins the room.\<close>

definition demo_join_request :: http_request where
  "demo_join_request = demo_request\<lparr>rq_path := ''/ws'', rq_query := (\<lambda>k. if k = ''room'' then ''bcd-kmnp-tvwx'' else [])\<rparr>"

lemma demo_identifies:
  assumes "rq_cookies r = rq_cookies demo_request" "rq_header r = rq_header demo_request"
  shows "\<exists>i. identify demo_mw 5 r demo_start = (demo_start, Inr i) \<and> id_User i = demo_user"
proof -
  have "is_ascii demo_owner" using mempg.uuid_ascii [OF demo_owner_uuid] .
  then have co: "coerce_utf8 demo_owner = demo_owner" by (rule coerce_ascii)
  have tok: "tokenFrom demo_mw r = demo_token"
    using assms by (simp add: tokenFrom_def demo_request_def demo_mw_def NewMiddleware_def request_cookie_def)
  let ?s = "w_redis demo_inside"
  obtain sess where g: "Get text_store demo_token 5 ?s = (?s, Inr sess)" "s_UserID sess = demo_owner"
    by (simp add: demo_inside_def sess_eval co)
  have b: "ByID mem_pg demo_owner 5 demo_house = (demo_house, Inr demo_user)"
    by (simp add: ByID_def mem_pg_def demo_owner_uuid demo_house_def demo_account_def empty_pg_def scan_user_def demo_user_def)
  show ?thesis
    using g b demo_token_nonempty unfolding identify_def tok Let_def
    by (simp add: demo_mw_def NewMiddleware_def demo_svc_sel on_redis_def on_pg_def demo_start_def)
qed

lemma demo_authenticates: "AuthenticateWS demo_mw 5 demo_join_request demo_start = (demo_start, Inr (demo_owner, ''A''))"
  using demo_identifies [of demo_join_request] by (auto simp: AuthenticateWS_def demo_join_request_def demo_user_def)

lemma demo_resolves: "resolveRoom demo_server ''bcd-kmnp-tvwx'' 5 demo_start = (demo_start, Inr demo_room_id)"
proof -
  have u: "to_lower (\<lambda>x. x) (trim_space ''bcd-kmnp-tvwx'') = ''bcd-kmnp-tvwx''" using generated_canonical [OF demo_slug] by blast
  have "Rooms_BySlug mem_pg (\<lambda>x. x) ''bcd-kmnp-tvwx'' 5 demo_house = (demo_house, Inr (scan_room demo_room_id demo_lobby []))"
    unfolding Rooms_BySlug_def u by (simp add: Store_BySlug_def mem_pg_def demo_house_def demo_account_def empty_pg_def demo_lobby_def)
  then show ?thesis
    by (simp add: resolveRoom_def on_pg_def demo_server_def wire_sel demo_ext_def demo_start_def scan_room_def)
qed

text \<open>A request whose path is clean and matches a route reaches its endpoint.\<close>

lemma handler_routes:
  assumes "rq_method r \<in> set safeMethods \<or> rq_header r ''Authorization'' \<noteq> [] \<or> server_allows sv r"
    and "cleanPath (rq_path r) = rq_path r" "match_route (rq_method r) (path_segs (rq_path r)) routes = Some (ep, vs)"
  shows "server_handler sv env r no_response s = Recover (serve sv env ep) (r\<lparr>rq_slug := (case vs of [] \<Rightarrow> [] | v # _ \<Rightarrow> v)\<rparr>) base_response s"
  using assms by (auto simp: server_handler_unfold CSRF_def Recover_def server_mux_def mux_serve_def Let_def)

lemma demo_ws_route: "cleanPath ''/ws'' = ''/ws''" "match_route ''GET'' (path_segs ''/ws'') routes = Some (EpWs, [])"
  by code_simp+

definition demo_joined :: hub where
  "demo_joined = hub_join demo_sched (encode (\<lambda>_. None)) 0 (fst (new_client ''1'' demo_owner ''A'' demo_room_id (NewHub demo_heap)))"

lemma demo_joined_rooms: "h_rooms demo_joined = [(demo_room_id, [0])]"
  by code_simp

lemma demo_join:
  "server_handler demo_server demo_srv_env demo_join_request no_response demo_start =
     (demo_start\<lparr>wd_hub := demo_joined, wd_clientIDs := 1\<rparr>, Done (switch_protocols base_response))"
proof -
  have sel: "rq_method demo_join_request = ''GET''" "rq_path demo_join_request = ''/ws''" "demo_join_request\<lparr>rq_slug := []\<rparr> = demo_join_request"
    "rq_query demo_join_request ''room'' = ''bcd-kmnp-tvwx''"
    by (simp_all add: demo_join_request_def demo_request_def)
  have "server_handler demo_server demo_srv_env demo_join_request no_response demo_start =
      Recover (serve demo_server demo_srv_env EpWs) demo_join_request base_response demo_start"
    using handler_routes [of demo_join_request demo_server EpWs "[]"] demo_ws_route sel by (simp add: safeMethods_def)
  moreover have up: "ws_upgraded demo_server demo_srv_env demo_join_request"
    by (simp add: ws_upgraded_def CheckOrigin_def origin_Allow_def demo_srv_env_def demo_join_request_def demo_request_def)
  have en: "en_now (en_req demo_srv_env) = 5" "en_sched demo_srv_env = demo_sched" by (simp_all add: demo_srv_env_def demo_env_def)
  have st: "wd_hub demo_start = NewHub demo_heap" "wd_clientIDs demo_start = 0" "h_next (NewHub demo_heap) = 0" "\<not> h_done (NewHub demo_heap)"
    "ex_jcompact (sr_ext demo_server) = (\<lambda>_. None)"
    by (simp_all add: demo_start_def NewHub_def demo_server_def wire_sel demo_ext_def)
  have one: "format_nat (Suc 0) = ''1''" by code_simp
  have "serve_ws demo_server demo_srv_env demo_join_request base_response demo_start =
      (demo_start\<lparr>wd_hub := demo_joined, wd_clientIDs := 1\<rparr>, Done (switch_protocols base_response))"
    using up unfolding serve_ws_def Let_def en sel demo_server_mw demo_authenticates
    by (simp add: demo_resolves demo_joined_def ServeHTTP_def hub_add_def new_client_def Let_def st one)
  ultimately show ?thesis by (simp add: Recover_def)
qed

subsection \<open>The whole server stays sound\<close>

text \<open>C2. In every state the running server can reach, whatever requests arrive, whatever they contain, whatever calls
  to the two servers fail, and however connections, messages, disconnections and shutdown interleave with them: neither
  hub has sent on or closed a closed channel; the two counters of the health endpoint are the numbers of connections
  registered; the accounts and rooms in the database satisfy the schema and every account has its credential; and everyone in
  a room or with an open inbox is an account of the database, in a room under the name stored for it.\<close>

theorem server_safe:
  assumes "auth_world (mw_svc (sr_mw (wire ext cfg policy))) entries tables work uuid_in ci text_le"
    and "srv_reach (wire ext cfg policy) entries tables s"
  shows "\<not> h_panic (wd_hub (rn_world s)) \<and> \<not> ib_panic (wd_inbox (rn_world s)) \<and>
    ClientCount (wd_hub (rn_world s)) = int (total_len (h_rooms (wd_hub (rn_world s)))) \<and>
    ConnectionCount (wd_inbox (rn_world s)) = int (total_len (ib_users (wd_inbox (rn_world s)))) \<and>
    accounts_ok uuid_in ci (tables (w_pg (rn_world s))) \<and>
    (\<forall>r. \<forall>c\<in>set (room_members r (wd_hub (rn_world s))). c_roomID (h_heap (wd_hub (rn_world s)) c) = r \<and>
       (\<exists>row. t_users (tables (w_pg (rn_world s))) (c_userID (h_heap (wd_hub (rn_world s)) c)) = Some row \<and>
         u_display_name row = c_displayName (h_heap (wd_hub (rn_world s)) c))) \<and>
    (\<forall>u. conns u (wd_inbox (rn_world s)) \<noteq> [] \<longrightarrow> t_users (tables (w_pg (rn_world s))) u \<noteq> None)"
proof -
  let ?w = "rn_world s"
  have inv: "srv_inv (wire ext cfg policy) entries tables s" using auth_world.srv_reach_inv [OF assms(1) refl refl assms(2)] .
  have pg: "postgres (sv_users (mw_svc (sr_mw (wire ext cfg policy)))) tables work uuid_in ci text_le" using assms(1) by (simp add: auth_world_def)
  have h: "hub_inv (wd_hub ?w)" "ib_inv (wd_inbox ?w)"
    using inv by (simp_all add: srv_inv_def sys_inv_def signaling_part_def inbox_sys_inv_def inbox_part_def)
  have "accounts_ok uuid_in ci (tables (w_pg ?w))" using postgres.reach_ok [OF pg] inv by (simp add: srv_inv_def sess_now_def)
  moreover have "c < h_next (wd_hub ?w) \<and> c_roomID (h_heap (wd_hub ?w) c) = r" if "c \<in> set (room_members r (wd_hub ?w))" for c r
    using hub_invD(6) [OF h(1) that] by simp
  moreover have "t_users (tables (w_pg ?w)) u \<noteq> None" if ne: "conns u (wd_inbox ?w) \<noteq> []" for u
    using ib_invD(7) [OF h(2) hd_in_set [OF ne]] inv by (auto simp: srv_inv_def inboxes_known_def)
  ultimately show ?thesis
    using h inv by (auto simp: hub_inv_def hub_size_def ClientCount_def ib_inv_def ConnectionCount_def srv_inv_def clients_known_def known_def)
qed

theorem server_safe_witness:
  "\<exists>s. srv_reach demo_server mem_entries pm_tables s \<and> room_members demo_room_id (wd_hub (rn_world s)) = [0] \<and>
     ClientCount (wd_hub (rn_world s)) = 1 \<and> \<not> h_panic (wd_hub (rn_world s)) \<and>
     (\<exists>row. t_users (pm_tables (w_pg (rn_world s))) (c_userID (h_heap (wd_hub (rn_world s)) 0)) = Some row)"
proof -
  let ?s = "\<lparr>rn_now = 5, rn_world = demo_start\<lparr>wd_hub := demo_joined, wd_clientIDs := 1\<rparr>,
    rn_reading = fresh_clients (wd_hub demo_start) demo_joined, rn_inboxes = {}\<rparr>"
  have "srv_reach demo_server mem_entries pm_tables ?s"
    using srv_reach.more [OF demo_start_reach srv_step.request [of _ demo_srv_env demo_server demo_join_request]] demo_join
    by (simp add: demo_srv_env_def demo_env_def demo_ib_valid)
  moreover have r: "room_members demo_room_id demo_joined = [0]" by (simp add: room_members_def members_of_def demo_joined_rooms)
  ultimately show ?thesis
    using server_safe [OF demo_server_world [unfolded demo_server_def] , of ?s] demo_joined_rooms
    by (intro exI [of _ ?s]) (auto simp: demo_server_def, metis list.set_intros(1))
qed

end
