(* ===== verification/Guards.thy ===== *)
theory Guards
  imports RunningProps
begin

text \<open>What a request must carry before it changes anything: joining a room, changing the room directory, unsafe methods from
  other origins; and what a started server can rely on.\<close>

subsection \<open>The path value is the only part of a request that routing adds\<close>

lemma slug_irrelevant [simp]:
  "AuthenticateWS mw now (r\<lparr>rq_slug := x\<rparr>) s = AuthenticateWS mw now r s" "ws_upgraded sv env (r\<lparr>rq_slug := x\<rparr>) = ws_upgraded sv env r"
  "identify mw now (r\<lparr>rq_slug := x\<rparr>) s = identify mw now r s" "server_allows sv (r\<lparr>rq_slug := x\<rparr>) = server_allows sv r"
  by (simp_all add: AuthenticateWS_def identify_def tokenFrom_def request_cookie_def ws_upgraded_def CheckOrigin_def origin_Allow_def
      server_allows_def Let_def cong: option.case_cong prod.case_cong sum.case_cong if_cong)

lemma ws_connects_slug [simp]: "ws_connects sv env (r\<lparr>rq_slug := x\<rparr>) s s' = ws_connects sv env r s s'"
  by (simp add: ws_connects_def)

lemma request_hub_change:
  assumes "server_handler sv env r no_response s = (s', out)" "wd_hub s' \<noteq> wd_hub s"
  shows "ws_connects sv env r s s'"
proof (cases rule: handler_world [of sv env r no_response s])
  case (served ep slug w' vs)
  have "\<not> one_event (en_ib_sched env) s s'" "\<not> inbox_connects sv env (r\<lparr>rq_slug := slug\<rparr>) s s'"
    using assms(2) by (auto simp: one_event_def same_hubs_def inbox_connects_def)
  then show ?thesis
    using served assms(1) by (cases rule: serve_hubs [of env s sv ep "r\<lparr>rq_slug := slug\<rparr>" w']) auto
qed (use assms in simp)

context auth_world
begin

lemma resolveRoom_spec:
  assumes "resolveRoom sv slug now s = (s', Inr roomID)" "ex_pg (sr_ext sv) = sv_users svc"
  shows "\<exists>q. t_rooms (tables (w_pg s)) roomID = Some q \<and> r_slug q = to_lower (ex_lower (sr_ext sv)) (trim_space slug)"
proof -
  obtain v room where v: "on_pg (Rooms_BySlug (sv_users svc) (ex_lower (sr_ext sv)) slug now) s = (v, Inr room)" "roomID = rm_ID room"
    using assms by (auto simp: resolveRoom_def split: prod.splits sum.splits)
  from BySlug_spec(2) [OF on_pg_parts [OF v(1), THEN conjunct2] refl] v(2) show ?thesis by (auto simp: scan_room_def)
qed

end

text \<open>C4. The only request that changes the signaling hub is one that opens a websocket: it was authenticated, by ticket or
  session, as an enabled account of the database; its origin passed the policy; the room it named, in any spelling, is a row of the
  room table; and the connection created carries that account's id and display name and that room's id.  Unless the
  server is shutting down, the first frame queued for it is a welcome listing exactly who was in the room.\<close>

theorem ws_end_to_end:
  assumes "auth_world (mw_svc (sr_mw (wire ext cfg policy))) entries tables work uuid_in ci text_le"
    and "hub_inv (wd_hub s)" "valid_sched (en_sched env)" "server_handler (wire ext cfg policy) env r no_response s = (s', out)"
  shows "wd_hub s' = wd_hub s \<or>
    (\<exists>u row roomID q s1 c. c = h_next (wd_hub s) \<and> h_next (wd_hub s') = Suc c \<and>
       AuthenticateWS (sr_mw (wire ext cfg policy)) (en_now (en_req env)) r s = (s1, Inr (u, u_display_name row)) \<and>
       t_users (tables (w_pg s)) u = Some row \<and> u_disabled_at row = None \<and> server_allows (wire ext cfg policy) r \<and>
       t_rooms (tables (w_pg s)) roomID = Some q \<and> r_slug q = to_lower (ex_lower ext) (trim_space (rq_query r ''room'')) \<and>
       c_userID (h_heap (wd_hub s') c) = u \<and> c_displayName (h_heap (wd_hub s') c) = u_display_name row \<and>
       c_roomID (h_heap (wd_hub s') c) = roomID \<and>
       (\<not> h_done (wd_hub s) \<longrightarrow> (\<exists>peers w.
          mset peers = mset (map (\<lambda>other. peer_of (h_heap (wd_hub s) other)) (room_members roomID (wd_hub s))) \<and>
          encode (ex_jcompact ext) \<lparr>out_Type = TypeWelcome, out_From = u, out_Payload = [], out_Peers = peers\<rparr> = Some w \<and>
          (c \<in> set (room_members roomID (wd_hub s')) \<longrightarrow> take 1 (clog (wd_hub s') c) = [w]))))"
proof (cases "wd_hub s' = wd_hub s")
  case False
  let ?sv = "wire ext cfg policy" and ?h = "wd_hub s" and ?h' = "wd_hub s'"
  from request_hub_change [OF assms(4) False] obtain u d s1 s2 roomID i h1 c ok where a:
    "AuthenticateWS (sr_mw ?sv) (en_now (en_req env)) r s = (s1, Inr (u, d))"
    "resolveRoom ?sv (rq_query r ''room'') (en_now (en_req env)) s1 = (s2, Inr roomID)" "ws_upgraded ?sv env r"
    "new_client i u d roomID ?h = (h1, c)" "hub_add (en_sched env) (encode (ex_jcompact ext)) c h1 = (?h', ok)"
    by (auto simp: ws_connects_def wire_sel)
  note auth = auth_world.AuthenticateWS_user [OF assms(1) a(1) refl]
  obtain row where row: "t_users (tables (w_pg s)) u = Some row" "u_disabled_at row = None" "u_display_name row = d" using auth(2) by blast
  obtain q where q: "t_rooms (tables (w_pg s)) roomID = Some q" "r_slug q = to_lower (ex_lower ext) (trim_space (rq_query r ''room''))"
    using auth_world.resolveRoom_spec [OF assms(1) a(2)] auth(1) by (auto simp: wire_sel)
  have c: "c = h_next ?h" "h_next h1 = Suc c" "h_done h1 = h_done ?h" using a(4) by (auto simp: new_client_def Let_def)
  have "sys_inv \<lparr>sy_hub = ?h, sy_pending = {}, sy_reading = {}\<rparr> \<or> h_done ?h" using assms(2) by (auto simp: sys_inv_def)
  then have n: "h_next ?h' = Suc c"
    using ws_connect_inv(2) [OF _ assms(3) a(4,5)] a(5) c by (auto simp: hub_add_def)
  show ?thesis
  proof (cases ok)
    case True
    then have "hub_add (en_sched env) (encode (ex_jcompact ext)) c h1 = (?h', True)" using a(5) by simp
    from attach_spec [OF assms(2,3) a(4) this] show ?thesis
      using a(1,3) row q c(1) n by (intro disjI2) (auto simp: ws_upgraded_def CheckOrigin_def server_allows_def)
  next
    case off: False
    then have "?h' = h1" "h_done ?h" using a(5) c by (auto simp: hub_add_def split: if_splits)
    moreover have "c_userID (h_heap h1 c) = u" "c_displayName (h_heap h1 c) = d" "c_roomID (h_heap h1 c) = roomID"
      using a(4) by (auto simp: new_client_def Let_def)
    ultimately show ?thesis
      using a(1,3) row q c(1) n by (intro disjI2) (auto simp: ws_upgraded_def CheckOrigin_def server_allows_def)
  qed
qed simp

theorem ws_end_to_end_witness:
  "server_handler demo_server demo_srv_env demo_join_request no_response demo_start =
     (demo_start\<lparr>wd_hub := demo_joined, wd_clientIDs := 1\<rparr>, Done (switch_protocols base_response)) \<and>
   c_roomID (h_heap demo_joined 0) = demo_room_id"
proof -
  have inv: "hub_inv (wd_hub demo_start)"
    by (simp add: demo_start_def hub_inv_def NewHub_def hub_size_def demo_heap_def demo_client_def)
  have "wd_hub demo_start \<noteq> demo_joined" using demo_joined_rooms by (metis demo_start_def server_world.select_convs(1) NewHub_def hub.select_convs(1) list.distinct(1))
  moreover have "t_rooms (pm_tables (w_pg demo_start)) i = Some q \<Longrightarrow> i = demo_room_id" for i q
    by (auto simp: pm_tables_def md_abs_def demo_start_def demo_house_def split: if_splits)
  moreover have "h_next (wd_hub demo_start) = 0" "valid_sched (en_sched demo_srv_env)" by (simp_all add: demo_start_def NewHub_def demo_srv_env_def)
  ultimately show ?thesis
    using ws_end_to_end [OF demo_server_world [unfolded demo_server_def] inv _ demo_join [unfolded demo_server_def]] demo_join by auto
qed

subsection \<open>The room directory\<close>

lemma find_route_mem: "find_route m xs rs = Some (e, vs) \<Longrightarrow> (m, e) \<in> (\<lambda>(m, ps, e). (m, e)) ` set rs"
  by (induction m xs rs rule: find_route.induct) (auto split: if_splits option.splits)

lemma match_route_mem:
  "match_route m xs rs = Some (e, vs) \<Longrightarrow> (m, e) \<in> (\<lambda>(m, ps, e). (m, e)) ` set rs \<or> m = ''HEAD'' \<and> (''GET'', e) \<in> (\<lambda>(m, ps, e). (m, e)) ` set rs"
  by (auto simp: match_route_def dest: find_route_mem split: option.splits if_splits)

lemma room_change_routes:
  "match_route m xs routes = Some (Signed EpRoomCreate, vs) \<Longrightarrow> m = ''POST''"
  "match_route m xs routes = Some (Signed EpRoomDelete, vs) \<Longrightarrow> m = ''DELETE''"
  by (drule match_route_mem, simp add: route_defs)+

context auth_world
begin

lemma rooms_kept:
  "UserStore_Create (sv_users svc) email name h t s = (s', rc) \<Longrightarrow> t_rooms (tables s') = t_rooms (tables s)"
  "ByEmailWithCredential (sv_users svc) email t s = (s', re) \<Longrightarrow> t_rooms (tables s') = t_rooms (tables s)"
  "ByID (sv_users svc) u t s = (s', ri) \<Longrightarrow> t_rooms (tables s') = t_rooms (tables s)"
  "Contacts (sv_users svc) u n t s = (s', rk) \<Longrightarrow> t_rooms (tables s') = t_rooms (tables s)"
  "CredentialByUserID (sv_users svc) u t s = (s', rh) \<Longrightarrow> t_rooms (tables s') = t_rooms (tables s)"
  "UpdatePassword (sv_users svc) u h t s = (s', ru) \<Longrightarrow> t_rooms (tables s') = t_rooms (tables s)"
  "RecordEvent (sv_users svc) parse_ip e t s = (s', rr) \<Longrightarrow> t_rooms (tables s') = t_rooms (tables s)"
  "Rooms_BySlug (sv_users svc) ut slug t s = (s', rg) \<Longrightarrow> t_rooms (tables s') = t_rooms (tables s)"
  "Rooms_List (sv_users svc) t s = (s', rl) \<Longrightarrow> t_rooms (tables s') = t_rooms (tables s)"
proof -
  show "UserStore_Create (sv_users svc) email name h t s = (s', rc) \<Longrightarrow> t_rooms (tables s') = t_rooms (tables s)"
    by (erule create_spec) (auto simp: pgdb_ops)
  show "UpdatePassword (sv_users svc) u h t s = (s', ru) \<Longrightarrow> t_rooms (tables s') = t_rooms (tables s)"
    using Update_spec(1) by (fastforce simp: set_cred_def)
  show "RecordEvent (sv_users svc) parse_ip e t s = (s', rr) \<Longrightarrow> t_rooms (tables s') = t_rooms (tables s)"
    using Record_spec by (fastforce simp: add_event_def)
  show "Rooms_List (sv_users svc) t s = (s', rl) \<Longrightarrow> t_rooms (tables s') = t_rooms (tables s)"
    by (auto simp: Rooms_List_def Store_List_def dest: rooms_any split: prod.splits sum.splits option.splits)
qed (simp_all add: ByEmail_spec(1) ByID_spec(1) Contacts_keeps Credential_spec BySlug_spec(1))

lemma rooms_request: "request_ops svc now (\<lambda>w. t_rooms (tables (w_pg w)) = R0) (\<lambda>_. True)"
  by unfold_locales (simp_all add: rooms_kept [OF prod.collapse [symmetric]])

lemma invite_rooms:
  fixes s :: "('s, 'p) server_world"
  assumes "iv_rooms h = sv_users svc" "iv_users h = sv_users svc"
  shows "t_rooms (tables (w_pg (fst (invite_handle h S ty now i r w s)))) = t_rooms (tables (w_pg s))"
proof -
  let ?I = "\<lambda>w :: ('s, 'p) server_world. t_rooms (tables (w_pg w)) = t_rooms (tables (w_pg s))"
  note k = rooms_kept [OF prod.collapse [symmetric]]
  show ?thesis
    unfolding invite_handle_def invite_room_def invite_deliver_def assms Let_def
    by (intro step_option [where I = ?I] step_if [where I = ?I] step_bind [where I = ?I] step_pair [where I = ?I] step_sum [where I = ?I]
        step_prod [where I = ?I]) (auto simp: k)
qed

lemma signed_rooms:
  fixes s :: "('s, 'p) server_world"
  assumes "mw_svc (sr_mw sv) = svc" "wired sv" "ep \<notin> {EpRoomCreate, EpRoomDelete}"
  shows "t_rooms (tables (w_pg (fst (serve_signed sv env ep i r w s)))) = t_rooms (tables (w_pg s))"
proof -
  have w: "ah_svc (sr_auth sv) = svc" "rh_pg (sr_rooms sv) = sv_users svc" "iv_rooms (sr_invites sv) = sv_users svc" "iv_users (sr_invites sv) = sv_users svc"
    using assms(1,2) by (simp_all add: wired_def Let_def)
  note ops = request_ops.auth_endpoints_keep [OF rooms_request] request_ops.room_reads_keep [OF rooms_request] request_ops.turn_keeps [OF rooms_request]
  show ?thesis using assms(3) w
    by (cases ep) (simp_all add: serve_signed_def Let_def ops invite_rooms)
qed

lemma serve_rooms:
  fixes s :: "('s, 'p) server_world"
  assumes "mw_svc (sr_mw sv) = svc" "wired sv" "s' = fst (serve sv env ep r w s)" "t_rooms (tables (w_pg s')) \<noteq> t_rooms (tables (w_pg s))"
  shows "ep \<in> {Signed EpRoomCreate, Signed EpRoomDelete} \<and> (\<exists>s1 i. identify (sr_mw sv) (en_now (en_req env)) r s = (s1, Inr i))"
proof -
  let ?now = "en_now (en_req env)" and ?I = "\<lambda>w :: ('s, 'p) server_world. t_rooms (tables (w_pg w)) = t_rooms (tables (w_pg s))"
  have w: "ah_svc (sr_auth sv) = svc" "ex_pg (sr_ext sv) = sv_users svc" using assms(1,2) by (simp_all add: wired_def Let_def)
  note ops = request_ops.auth_endpoints_keep [OF rooms_request]
  have ws: "?I (fst (serve_ws sv env r w s))"
    unfolding serve_ws_def resolveRoom_def Let_def w
    by (intro step_prod [where I = ?I] step_bind [where I = ?I] request_ops.AuthenticateWS_keeps [OF rooms_request] step_if [where I = ?I]
        step_pair [where I = ?I] step_sum [where I = ?I]) (auto simp: assms(1) rooms_kept [OF prod.collapse [symmetric]])
  have ib: "?I (fst (serve_inbox sv env r w s))"
    unfolding serve_inbox_def
    by (intro step_prod [where I = ?I] step_bind [where I = ?I] request_ops.AuthenticateWS_keeps [OF rooms_request] step_pair [where I = ?I])
      (auto simp: assms(1))
  have "\<exists>se. ep = Signed se" using assms(3,4) ws ib by (cases ep) (auto simp: serve_health_def serve_ready_def ops w)
  then obtain se where se: "ep = Signed se" by blast
  obtain s1 q where q: "identify (sr_mw sv) ?now r s = (s1, q)" by fastforce
  have s1: "?I s1" using request_ops.identify_keeps [OF rooms_request refl assms(1)] q by (metis fst_conv)
  show ?thesis
  proof (cases q)
    case (Inl e)
    then show ?thesis using assms(3,4) se q s1 by (auto simp: Require_def)
  next
    case (Inr i)
    have "?I (fst (serve sv env ep r w s))" if "se \<notin> {EpRoomCreate, EpRoomDelete}"
      using signed_rooms [OF assms(1,2) that] s1 by (simp add: se Require_def q Inr)
    then show ?thesis using assms(3,4) se q Inr by auto
  qed
qed

end

text \<open>C14. The room directory is changed only by a signed-in user: when a request leaves the room table different, it was a
  POST or a DELETE, it carried the token of a session that is stored and has not passed its absolute expiry, of an account that
  is in the database and not disabled at this moment, and it was either sent with an Authorization header or from
  an origin the policy permits.\<close>

theorem rooms_guarded:
  assumes "auth_world (mw_svc (sr_mw (wire ext cfg policy))) entries tables work uuid_in ci text_le"
    and "sess_now (mw_svc (sr_mw (wire ext cfg policy))) entries tables t s" "t \<le> en_now (en_req env)"
    and "server_handler (wire ext cfg policy) env r no_response s = (s', out)" "t_rooms (tables (w_pg s')) \<noteq> t_rooms (tables (w_pg s))"
  shows "rq_method r \<in> {''POST'', ''DELETE''} \<and> (rq_header r ''Authorization'' \<noteq> [] \<or> server_allows (wire ext cfg policy) r) \<and>
    (\<exists>s1 i j u. identify (sr_mw (wire ext cfg policy)) (en_now (en_req env)) r s = (s1, Inr i) \<and>
       tokenFrom (sr_mw (wire ext cfg policy)) r \<noteq> [] \<and>
       s_ID (id_Session i) = hashToken (sv_sessions (mw_svc (sr_mw (wire ext cfg policy)))) (tokenFrom (sr_mw (wire ext cfg policy)) r) \<and>
       en_now (en_req env) \<le> s_ExpiresAt (id_Session i) \<and> uuid_in (s_UserID (id_Session i)) = Some j \<and>
       t_users (tables (w_pg s)) j = Some u \<and> u_disabled_at u = None \<and> id_User i = scan_user j u)"
proof (cases rule: handler_world [of "wire ext cfg policy" env r no_response s])
  case (served ep slug w' vs)
  let ?sv = "wire ext cfg policy"
  have e: "s' = fst (serve ?sv env ep (r\<lparr>rq_slug := slug\<rparr>) w' s)" using served(1) assms(4) by simp
  from auth_world.serve_rooms [OF assms(1) refl wire_wired e assms(5)] obtain s1 i where
    i: "ep \<in> {Signed EpRoomCreate, Signed EpRoomDelete}" "identify (sr_mw ?sv) (en_now (en_req env)) r s = (s1, Inr i)" by auto
  have m: "rq_method r \<in> {''POST'', ''DELETE''}" using served(2) i(1) room_change_routes by auto
  then have "rq_method r \<notin> set safeMethods" by (auto simp: safeMethods_def)
  moreover have "store_ok (sv_sessions (mw_svc (sr_mw ?sv))) (en_now (en_req env)) (Redis.live (en_now (en_req env)) (entries (w_redis s)))"
    using session_store.sess_reach_later [OF auth_world.axioms(1) [OF assms(1)] _ assms(3)] assms(2) by (simp add: sess_now_def)
  note auth_world.identify_spec(2) [OF assms(1) i(2) refl this refl]
  ultimately show ?thesis using m served(3) i(2) by auto
qed (use assms in simp)

definition demo_delete_request :: http_request where
  "demo_delete_request = demo_request\<lparr>rq_method := ''DELETE'', rq_path := ''/api/rooms/bcd-kmnp-tvwx''\<rparr>"

lemma demo_delete_route:
  "cleanPath ''/api/rooms/bcd-kmnp-tvwx'' = ''/api/rooms/bcd-kmnp-tvwx''"
  "match_route ''DELETE'' (path_segs ''/api/rooms/bcd-kmnp-tvwx'') routes = Some (Signed EpRoomDelete, [''bcd-kmnp-tvwx''])"
  by code_simp+

lemma demo_deletes:
  "t_rooms (pm_tables (w_pg (fst (server_handler demo_server demo_srv_env demo_delete_request no_response demo_start)))) demo_room_id = None"
proof -
  let ?r = "demo_delete_request\<lparr>rq_slug := ''bcd-kmnp-tvwx''\<rparr>"
  have u: "to_lower (\<lambda>x. x) (trim_space ''bcd-kmnp-tvwx'') = ''bcd-kmnp-tvwx''" using generated_canonical [OF demo_slug] by blast
  have sel: "rq_method demo_delete_request = ''DELETE''" "rq_path demo_delete_request = ''/api/rooms/bcd-kmnp-tvwx''"
    "server_allows demo_server demo_delete_request"
    by (simp_all add: demo_delete_request_def demo_request_def server_allows_def origin_Allow_def)
  have "server_handler demo_server demo_srv_env demo_delete_request no_response demo_start =
      Recover (serve demo_server demo_srv_env (Signed EpRoomDelete)) ?r base_response demo_start"
    using handler_routes [of demo_delete_request demo_server "Signed EpRoomDelete" "[''bcd-kmnp-tvwx'']"] demo_delete_route sel by simp
  moreover obtain i where i: "identify demo_mw 5 ?r demo_start = (demo_start, Inr i)"
    using demo_identifies [of ?r] by (auto simp: demo_delete_request_def)
  obtain p where d: "Rooms_Delete mem_pg (\<lambda>x. x) ''bcd-kmnp-tvwx'' 5 demo_house = (p, None)" "t_rooms (pm_tables p) demo_room_id = None"
    unfolding Rooms_Delete_def u
    by (simp add: DeleteBySlug_def mem_pg_def demo_house_def demo_account_def empty_pg_def Let_def demo_lobby_def pm_tables_def md_abs_def)
  have rh: "rh_pg (sr_rooms demo_server) = mem_pg" "rh_lower (sr_rooms demo_server) = (\<lambda>x. x)" "en_now (en_req demo_srv_env) = 5"
    by (simp_all add: demo_server_def wire_def Let_def demo_ext_def demo_srv_env_def demo_env_def)
  have ps: "w_pg demo_start = demo_house" by (simp add: demo_start_def)
  have hd: "w_pg (fst (handle_delete h now (Some i) r w s)) = fst (Rooms_Delete (rh_pg h) (rh_lower h) (rq_slug r) now (w_pg s))"
    for h now i r w and s :: "(mem, mempg) server_world"
    by (auto simp: handle_delete_def on_pg_def split: prod.splits option.splits)
  have "w_pg (fst (serve demo_server demo_srv_env (Signed EpRoomDelete) ?r base_response demo_start)) = p"
    using d(1) hd ps by (simp add: Require_def demo_server_mw rh i [unfolded slug_irrelevant] serve_signed_def)
  ultimately show ?thesis using d(2) by (auto simp: Recover_def split: prod.splits http_outcome.splits)
qed

theorem rooms_guarded_witness:
  "t_rooms (pm_tables (w_pg (fst (server_handler demo_server demo_srv_env demo_delete_request no_response demo_start)))) \<noteq>
     t_rooms (pm_tables (w_pg demo_start)) \<and>
   (\<exists>s1 i j u. identify (sr_mw demo_server) 5 demo_delete_request demo_start = (s1, Inr i) \<and>
      t_users (pm_tables (w_pg demo_start)) j = Some u \<and> id_User i = scan_user j u)"
proof -
  have "t_rooms (pm_tables (w_pg demo_start)) demo_room_id \<noteq> None"
    by (simp add: pm_tables_def md_abs_def demo_start_def demo_house_def)
  then have n: "t_rooms (pm_tables (w_pg (fst (server_handler demo_server demo_srv_env demo_delete_request no_response demo_start)))) \<noteq>
     t_rooms (pm_tables (w_pg demo_start))" using demo_deletes by metis
  moreover have "1 \<le> en_now (en_req demo_srv_env)" "en_now (en_req demo_srv_env) = 5" by (simp_all add: demo_srv_env_def demo_env_def)
  ultimately show ?thesis
    using rooms_guarded [OF demo_server_world [unfolded demo_server_def] demo_start_now [unfolded demo_server_def] _
        prod.collapse [symmetric], of demo_srv_env demo_delete_request] by (simp add: demo_server_def) metis
qed

end
