(* ===== verification/Edge.thy ===== *)
theory Edge
  imports Guards
begin

text \<open>The edge of the server: every request is answered, the origin guard as a whole, and what holds once the server has started.\<close>

subsection \<open>Answers\<close>

text \<open>C15. Every request to the server, whatever its method, path, headers and body and whatever the database, the
  key-value server and the key derivation do, is answered: the handler chain ends, never with a panic, and a status line
  has been sent; and unless the connection was handed to the websocket library it carries all four security headers,
  error answers, redirects and recovered panics included.\<close>

theorem server_answers:
  assumes "refuses_properly env"
  shows "\<exists>w c hs cs. snd (server_handler sv env r no_response s) = Done w \<and> rs_sent w = Some (c, hs, cs) \<and>
    (c = 101 \<or> has_security hs)"
proof -
  have "well_ended (snd (CSRF (server_allows sv) deny (server_mux sv env) r base_response s))"
    by (simp add: CSRF_def deny_def base_secured mux_ends [OF base_secured assms])
  moreover obtain s' out where "CSRF (server_allows sv) deny (server_mux sv env) r base_response s = (s', out)" by fastforce
  ultimately show ?thesis
    using answered_helpers(3) by (cases out) (auto simp: server_handler_unfold Recover_def answered_def)
qed

theorem server_answers_witness:
  "\<exists>w c hs cs. snd (server_handler demo_server demo_srv_env demo_request no_response demo_start) = Done w \<and> rs_sent w = Some (c, hs, cs) \<and>
     (c = 101 \<or> map_of hs ''X-Frame-Options'' = Some ''DENY'')"
proof -
  have "refuses_properly demo_srv_env"
    by (auto simp: refuses_properly_def demo_srv_env_def plain_error_def content_headers_def update_conv')
  from server_answers [OF this, of demo_server demo_request demo_start] show ?thesis
    by (fastforce simp: has_security_def security_headers_def)
qed

subsection \<open>The origin guard\<close>

definition origin_entries :: "string \<Rightarrow> string list" where
  "origin_entries allowed = filter (\<lambda>e. e \<noteq> []) (map trim_space (split (CHR '','') (trim_space allowed)))"

text \<open>The policy as the configuration states it: everything, the listed origins, or the server's own host when none is listed.  A
  request that names no origin does not come from a page of another site.\<close>

definition origin_permitted :: "('s, 'p) externals \<Rightarrow> string \<Rightarrow> http_request \<Rightarrow> bool" where
  "origin_permitted ext allowed r \<longleftrightarrow> trim_space allowed = ''*'' \<or> rq_header r ''Origin'' = [] \<or>
     (if origin_entries allowed = []
      then \<exists>scheme host. ex_url_parse ext (rq_header r ''Origin'') = Some (scheme, host) \<and> equal_fold (ex_fold ext) host (rq_host r)
      else \<exists>e\<in>set (origin_entries allowed). \<exists>scheme host. ex_url_parse ext e = Some (scheme, host) \<and>
        to_lower (ex_lower ext) (scheme @ ''://'' @ host) = to_lower (ex_lower ext) (rq_header r ''Origin''))"

lemma permit_all_spec:
  "permit_all url ut raws acc = Inr ps \<Longrightarrow>
   (\<forall>e\<in>set (filter (\<lambda>e. e \<noteq> []) (map trim_space raws)). url e \<noteq> None) \<and>
   set ps = set acc \<union> {to_lower ut (scheme @ ''://'' @ host) | e scheme host.
     e \<in> set (filter (\<lambda>e. e \<noteq> []) (map trim_space raws)) \<and> url e = Some (scheme, host)}"
proof (induction url ut raws acc rule: permit_all.induct)
  case (2 url ut raw raws acc)
  show ?case
  proof (cases "trim_space raw = []")
    case True
    then show ?thesis using 2 by simp
  next
    case False
    then obtain scheme host where u: "url (trim_space raw) = Some (scheme, host)" "scheme \<noteq> []" "host \<noteq> []"
      "permit_all url ut raws (List.insert (to_lower ut (scheme @ ''://'' @ host)) acc) = Inr ps"
      using "2.prems" by (auto simp: Let_def split: option.splits if_splits)
    show ?thesis using "2.IH"(2) [OF refl False u(1) refl _ u(4)] u(1-3) False by auto
  qed
qed simp

lemma policy_exact:
  assumes "NewOriginPolicy (ex_url_parse ext) (ex_lower ext) allowed = Inr policy"
  shows "server_allows (wire ext cfg policy) r \<longleftrightarrow> origin_permitted ext allowed r"
proof (cases "trim_space allowed = ''*''")
  case True
  then show ?thesis using assms by (auto simp: NewOriginPolicy_def server_allows_def origin_Allow_def origin_permitted_def wire_def Let_def)
next
  case False
  then obtain ps where ps: "permit_all (ex_url_parse ext) (ex_lower ext) (split (CHR '','') (trim_space allowed)) [] = Inr ps"
    "policy = \<lparr>permitted = ps, allowAny = False\<rparr>"
    using assms by (auto simp: NewOriginPolicy_def Let_def split: sum.splits)
  note spec = permit_all_spec [OF ps(1), folded origin_entries_def]
  have "ps = [] \<longleftrightarrow> origin_entries allowed = []"
  proof (cases "origin_entries allowed")
    case (Cons e es)
    then have "ex_url_parse ext e \<noteq> None" using spec by simp
    then obtain scheme host where "ex_url_parse ext e = Some (scheme, host)" by fastforce
    then have "to_lower (ex_lower ext) (scheme @ ''://'' @ host) \<in> set ps" using spec Cons by auto
    then show ?thesis using Cons by auto
  qed (use spec in simp)
  moreover have "to_lower (ex_lower ext) (rq_header r ''Origin'') \<in> set ps \<longleftrightarrow> (\<exists>e\<in>set (origin_entries allowed). \<exists>scheme host.
      ex_url_parse ext e = Some (scheme, host) \<and> to_lower (ex_lower ext) (scheme @ ''://'' @ host) = to_lower (ex_lower ext) (rq_header r ''Origin''))"
    unfolding conjunct2 [OF spec] list.set(1) Un_empty_left mem_Collect_eq by metis
  ultimately show ?thesis
    using False ps(2) by (auto simp: server_allows_def origin_Allow_def origin_permitted_def wire_def Let_def split: option.splits)
qed

text \<open>C9. The server's handler is exactly this: a request with an unsafe method and no Authorization header, coming from an
  origin the configuration does not permit, is answered 403 and changes nothing at all; every other request goes to the router.  The
  permitted origins are those listed, compared without regard to case, or the server's own host when none is listed, or any when the
  list is a star.\<close>

theorem csrf_guard:
  assumes "NewOriginPolicy (ex_url_parse ext) (ex_lower ext) (cf_AllowedOrigins cfg) = Inr policy"
  shows "server_handler (wire ext cfg policy) env r no_response s =
    (if rq_method r \<notin> {''GET'', ''HEAD'', ''OPTIONS''} \<and> rq_header r ''Authorization'' = [] \<and> \<not> origin_permitted ext (cf_AllowedOrigins cfg) r
     then (s, Done (http_Error 403 ''forbidden_origin'' ''origin not allowed'' base_response))
     else Recover (server_mux (wire ext cfg policy) env) r base_response s)"
  using policy_exact [OF assms, of cfg r] by (auto simp: server_handler_unfold CSRF_def Recover_def deny_def safeMethods_def)

theorem csrf_guard_witness:
  "server_handler demo_server demo_srv_env (demo_delete_request\<lparr>rq_header := (\<lambda>k. if k = ''Origin'' then ''https://evil'' else [])\<rparr>)
     no_response demo_start = (demo_start, Done (http_Error 403 ''forbidden_origin'' ''origin not allowed'' base_response))"
proof -
  have t: "trim_space [] = []" by code_simp
  have p: "NewOriginPolicy (ex_url_parse demo_ext) (ex_lower demo_ext) (cf_AllowedOrigins demo_config) = Inr \<lparr>permitted = [], allowAny = False\<rparr>"
    by (simp add: NewOriginPolicy_def demo_config_def t)
  let ?r = "demo_delete_request\<lparr>rq_header := (\<lambda>k. if k = ''Origin'' then ''https://evil'' else [])\<rparr>"
  have "\<not> equal_fold (\<lambda>x. x) ''evil'' ''h''" by code_simp
  moreover have "origin_entries [] = []" by (simp add: origin_entries_def t)
  ultimately have "\<not> origin_permitted demo_ext (cf_AllowedOrigins demo_config) ?r"
    by (simp add: origin_permitted_def demo_config_def t demo_ext_def demo_delete_request_def demo_request_def)
  then show ?thesis
    using csrf_guard [OF p, of demo_srv_env ?r demo_start] by (simp add: demo_server_def demo_delete_request_def)
qed

subsection \<open>The client address\<close>

text \<open>Behind a proxy that appends the address it saw, the address used for the per-address quotas is whatever the caller put
  into the first entry of the header.\<close>

lemma forwarded_for_spoofs:
  assumes "rq_header r ''X-Forwarded-For'' = claimed @ '','' @ seen" "CHR '','' \<notin> set claimed" "trim_space claimed \<noteq> []"
  shows "ClientIP r True = trim_space claimed"
  using assms by (simp add: ClientIP_def Let_def cut_append)

subsection \<open>Starting\<close>

lemma Load_ticket: "Load fl uu env = Inr cfg \<Longrightarrow> cf_WSTicketTTL cfg = 30 * second"
  by (auto simp: Load_def Let_def split: prod.splits if_splits)

lemma wire_settings:
  "idleTTL (sv_sessions (mw_svc (sr_mw (wire ext cfg policy)))) = cf_SessionIdleTTL cfg"
  "absoluteTTL (sv_sessions (mw_svc (sr_mw (wire ext cfg policy)))) = cf_SessionAbsoluteTTL cfg"
  "ticketTTL (sv_sessions (mw_svc (sr_mw (wire ext cfg policy)))) = cf_WSTicketTTL cfg"
  "mw_cookieName (sr_mw (wire ext cfg policy)) = cf_CookieName cfg"
  "th_secret (sr_turn (wire ext cfg policy)) = cf_TURNSecret cfg" "th_urls (sr_turn (wire ext cfg policy)) = cf_TURNURLs cfg"
  by (simp_all add: wire_def Let_def sr_mw_def NewMiddleware_def)

text \<open>C19. A server that starts has its preconditions established: the configuration was complete and consistent, every
  migration file is recorded as applied, the origin list was well-formed, and the server is wired with exactly those
  settings, with positive session lifetimes, the idle one within the absolute one.  A start that fails leaves the schema with
  a prefix of the pending migrations applied; when the configuration is rejected or the database does not answer
  it has not been touched.\<close>

theorem boot_sound:
  assumes "migration_db M view work locked" "boot ext fl uu M fs env pdrv rdrv p = (p', res)"
  shows "(\<exists>n. view p' = advance (body_of fs) (take n (pending fs (view p))) (view p)) \<and>
    (case res of
       Inr (cfg, sv) \<Rightarrow> Load fl uu env = Inr cfg \<and> pending fs (view p') = [] \<and>
         (\<exists>pool. Connect pdrv (cf_DatabaseURL cfg) = Inr pool \<and> pd_Ping pdrv pool connectTimeout \<and> pc_MaxConns pool = 20) \<and>
         (\<exists>opts. connectRedis rdrv (cf_RedisURL cfg) = Inr opts \<and> rd_Ping rdrv opts) \<and>
         (\<exists>policy. NewOriginPolicy (ex_url_parse ext) (ex_lower ext) (cf_AllowedOrigins cfg) = Inr policy \<and> sv = wire ext cfg policy) \<and>
         (let st = sv_sessions (mw_svc (sr_mw sv)) in 0 < idleTTL st \<and> idleTTL st \<le> absoluteTTL st \<and> 0 < ticketTTL st) \<and>
         mw_cookieName (sr_mw sv) \<noteq> [] \<and> (th_secret (sr_turn sv) = [] \<longleftrightarrow> th_urls (sr_turn sv) = [])
     | Inl (InvalidConfig errs) \<Rightarrow> p' = p \<and> Load fl uu env = Inl errs \<and> errs \<noteq> []
     | Inl (ConnectFailed e) \<Rightarrow> p' = p
     | Inl (MigrateFailed e) \<Rightarrow> snd (Migrate M fs p) = Some e
     | Inl _ \<Rightarrow> pending fs (view p') = [])"
proof (cases "Load fl uu env")
  case (Inl errs)
  then have "p' = p" "res = Inl (InvalidConfig errs)" using assms(2) by (simp_all add: boot_def)
  moreover have "errs \<noteq> []" using load_spec [where fl = fl and uu = uu and env = env] Inl by simp
  ultimately show ?thesis using Inl by (auto intro: exI [of _ 0])
next
  case cfg: (Inr cfg)
  show ?thesis
  proof (cases "Connect pdrv (cf_DatabaseURL cfg)")
    case (Inl e)
    then show ?thesis using assms(2) cfg by (auto simp: boot_def intro: exI [of _ 0])
  next
    case pool: (Inr pool)
    have settings: "0 < cf_SessionIdleTTL cfg" "cf_SessionIdleTTL cfg \<le> cf_SessionAbsoluteTTL cfg" "0 < cf_WSTicketTTL cfg" "cf_CookieName cfg \<noteq> []"
      "cf_TURNSecret cfg = [] \<longleftrightarrow> cf_TURNURLs cfg = []"
      using load_spec [where fl = fl and uu = uu and env = env] Load_ticket [OF cfg] cfg by simp_all
    obtain p1 e where m: "Migrate M fs p = (p1, e)" by fastforce
    note r = migration_db.Migrate_resumes [OF assms(1) m]
    note r1 = conjunct1 [OF r]
    note boot = assms(2) [unfolded boot_def cfg m pool sum.case prod.case]
    show ?thesis
    proof (cases e)
      case (Some x)
      then show ?thesis using boot r1 m by auto
    next
      case None
      then have p: "pending fs (view p1) = []" using r by blast
      show ?thesis
      proof (cases "connectRedis rdrv (cf_RedisURL cfg)")
        case (Inl x)
        then show ?thesis using boot r1 p None by auto
      next
        case rc: (Inr opts)
        show ?thesis
        proof (cases "NewOriginPolicy (ex_url_parse ext) (ex_lower ext) (cf_AllowedOrigins cfg)")
          case (Inl x)
          then show ?thesis using boot r1 p None rc by auto
        next
          case (Inr policy)
          then have "p' = p1" "res = Inr (cfg, wire ext cfg policy)" using boot None rc by auto
          then show ?thesis
            using Inr r1 p cfg settings pool rc Connect_ok [OF pool] connectRedis_ok [OF rc] by (simp add: wire_settings Let_def)
        qed
      qed
    qed
  qed
qed

text \<open>Starting does not use the stores, so for the witness they may be out of order.\<close>

definition down_pg :: "'p pg" where
  "down_pg = \<lparr>pg_begin = (\<lambda>t s. (s, Some PgError)), pg_commit = (\<lambda>t s. (s, Some PgError)), pg_rollback = (\<lambda>t s. (s, Some PgError)),
     pg_insert_user = (\<lambda>e n t s. (s, Inl PgError)), pg_insert_credential = (\<lambda>u h t s. (s, Some PgError)),
     pg_select_by_email = (\<lambda>e t s. (s, Inl PgError)), pg_select_by_id = (\<lambda>i t s. (s, Inl PgError)),
     pg_select_contacts = (\<lambda>i n t s. (s, Inl PgError)), pg_select_credential = (\<lambda>i t s. (s, Inl PgError)),
     pg_update_credential = (\<lambda>i h t s. (s, Inl PgError)), pg_insert_event = (\<lambda>e t s. (s, Some PgError)),
     pg_insert_room = (\<lambda>sl n u t s. (s, Inl PgError)), pg_select_room = (\<lambda>sl t s. (s, Inl PgError)),
     pg_delete_room = (\<lambda>sl t s. (s, Inl PgError)), pg_select_rooms = (\<lambda>n t s. (s, Inl PgError))\<rparr>"

definition demo_boot_ext :: "(mem, memmig) externals" where
  "demo_boot_ext = \<lparr>ex_pg = down_pg, ex_redis = mem_redis, ex_sha256 = (\<lambda>x. ''sha'' @ x), ex_marshal = (\<lambda>x. Some (text_line x)),
     ex_unmarshal = text_unmarshal, ex_argon2 = demo_argon2, ex_lower = (\<lambda>x. x), ex_fold = (\<lambda>x. x), ex_parse_ip = (\<lambda>x. None),
     ex_parse_addr = (\<lambda>x. Some ([], x)), ex_url_parse = (\<lambda>x. None), ex_dec_credentials = (\<lambda>b c. None), ex_dec_passwords = (\<lambda>b c. None),
     ex_dec_room = (\<lambda>b c. None), ex_dec_invite = (\<lambda>b c. None), ex_hmac = (\<lambda>k m. m), ex_jcompact = (\<lambda>x. None), ex_location = (\<lambda>r p. p)\<rparr>"

definition demo_pool :: pool_driver where
  "demo_pool = \<lparr>pd_ParseConfig = (\<lambda>url. Some \<lparr>pc_address = url, pc_MaxConns = 4, pc_MinConns = 0, pc_MaxConnLifetime = hour,
     pc_MaxConnIdleTime = hour, pc_ConnectTimeout = second\<rparr>), pd_NewWithConfig = (\<lambda>c. True), pd_Ping = (\<lambda>c t. True)\<rparr>"

definition demo_client_of :: redis_driver where
  "demo_client_of = \<lparr>rd_ParseURL = (\<lambda>url. Some \<lparr>ro_address = url, ro_MaxRetries = 0, ro_DialTimeout = second, ro_ReadTimeout = second,
     ro_WriteTimeout = second\<rparr>), rd_Ping = (\<lambda>c. True), rd_Close = (\<lambda>c. True)\<rparr>"

theorem boot_sound_witness:
  "\<exists>p' cfg sv. boot demo_boot_ext (\<lambda>f n k. 0) (\<lambda>x. x) mem_mig demo_fs demo_environment demo_pool demo_client_of (demo_mig 40) = (p', Inr (cfg, sv)) \<and>
     pending demo_fs (mm_view p') = [] \<and> 0 < idleTTL (sv_sessions (mw_svc (sr_mw sv)))"
proof -
  obtain cfg where cfg: "Load (\<lambda>f n k. 0) (\<lambda>x. x) demo_environment = Inr cfg" "cf_AllowedOrigins cfg = []" using demo_load by blast
  have t: "trim_space [] = []" by code_simp
  have "snd (Migrate mem_mig demo_fs (demo_mig 40)) = None" by code_simp
  then obtain p' where m: "Migrate mem_mig demo_fs (demo_mig 40) = (p', None)" by (metis prod.collapse)
  have b: "boot demo_boot_ext (\<lambda>f n k. 0) (\<lambda>x. x) mem_mig demo_fs demo_environment demo_pool demo_client_of (demo_mig 40) =
      (p', Inr (cfg, wire demo_boot_ext cfg \<lparr>permitted = [], allowAny = False\<rparr>))"
    by (simp add: boot_def cfg m NewOriginPolicy_def t Connect_def connectRedis_def demo_pool_def demo_client_of_def)
  from boot_sound [OF memmig.migration_db_axioms b] b show ?thesis by (auto simp: Let_def)
qed

end
